(* ===== verification/Prelude.thy ===== *)
theory Prelude
  imports Main "HOL-Library.Word"
begin

text \<open>
  What every component shares: Go's integers and byte strings as HOL values, the generic
  facts about lists and words, and the collections of simplification rules.

  A Go \<open>byte\<close> is an 8-bit word, a \<open>[]byte\<close> a list of them, a Go \<open>string\<close> (a byte
  sequence in Go) a HOL \<open>string\<close>, whose characters are exactly the 256 byte values;
  \<open>bytes_of\<close> and \<open>string_of\<close> are Go's conversions between the two. A Go \<open>int64\<close>
  (and \<open>int\<close>, 64 bits wide) is an \<open>int\<close> kept in range by \<open>i64\<close>, which writes out the
  two's complement wrap-around.
\<close>

unbundle bit_operations_syntax

named_theorems wire_simps \<open>framing of what is written to a connection\<close>
named_theorems err_simps \<open>the tree of wrapped errors\<close>

type_synonym byte = "8 word"
type_synonym bytes = "byte list"

subsection \<open>Bytes and strings\<close>

definition byte_of :: "char \<Rightarrow> byte" where
  "byte_of c = word_of_nat (of_char c)"

definition char_at :: "byte \<Rightarrow> char" where
  "char_at b = char_of (unat b)"

definition bytes_of :: "string \<Rightarrow> bytes" where
  "bytes_of s = map byte_of s"

definition string_of :: "bytes \<Rightarrow> string" where
  "string_of bs = map char_at bs"

lemma of_char_nat_less [simp]: "(of_char c :: nat) < 256"
proof -
  have "(of_char c :: nat) mod 256 < 256" by (rule mod_less_divisor) simp
  then show ?thesis by simp
qed

lemma unat_byte_of [simp]: "unat (byte_of c) = of_char c"
  by (simp add: byte_of_def unat_of_nat)

lemma char_at_byte_of [simp]: "char_at (byte_of c) = c"
  by (simp add: char_at_def)

lemma byte_of_char_at [simp]: "byte_of (char_at b) = b"
proof -
  have "unat b < 2 ^ LENGTH(8)" by (rule unsigned_less)
  then have "unat b < 256" by simp
  then have "unat (byte_of (char_at b)) = unat b" by (simp add: char_at_def)
  then show ?thesis by (simp only: word_unat_eq_iff)
qed

lemma byte_of_eq_iff [simp]: "byte_of c = byte_of d \<longleftrightarrow> c = d"
  by (metis char_at_byte_of)

lemma char_at_eq_iff [simp]: "char_at a = char_at b \<longleftrightarrow> a = b"
  by (metis byte_of_char_at)

lemma string_of_bytes_of [simp]: "string_of (bytes_of s) = s"
  by (simp add: string_of_def bytes_of_def comp_def)

lemma bytes_of_string_of [simp]: "bytes_of (string_of bs) = bs"
  by (simp add: string_of_def bytes_of_def comp_def)

lemma length_bytes_of [simp]: "length (bytes_of s) = length s"
  by (simp add: bytes_of_def)

lemma length_string_of [simp]: "length (string_of bs) = length bs"
  by (simp add: string_of_def)

lemma bytes_of_append [simp]: "bytes_of (s @ t) = bytes_of s @ bytes_of t"
  by (simp add: bytes_of_def)

lemma string_of_append [simp]: "string_of (s @ t) = string_of s @ string_of t"
  by (simp add: string_of_def)

lemma bytes_of_simps [simp]:
  "bytes_of [] = []" "bytes_of (c # s) = byte_of c # bytes_of s"
  by (simp_all add: bytes_of_def)

lemma string_of_simps [simp]:
  "string_of [] = []" "string_of (b # bs) = char_at b # string_of bs"
  by (simp_all add: string_of_def)

lemma byte_of_zero_iff [simp]: "byte_of c = 0 \<longleftrightarrow> c = CHR 0x00"
proof -
  have "byte_of (CHR 0x00) = 0" by (simp add: byte_of_def)
  then show ?thesis by (metis byte_of_eq_iff)
qed

lemma zero_in_bytes_of [simp]: "0 \<in> set (bytes_of s) \<longleftrightarrow> CHR 0x00 \<in> set s"
  by (induction s) auto

subsection \<open>64-bit integers\<close>

definition i64 :: "int \<Rightarrow> int" where
  "i64 x = (x + 2 ^ 63) mod 2 ^ 64 - 2 ^ 63"

abbreviation max_int64 :: int where
  "max_int64 \<equiv> 2 ^ 63 - 1"

lemma i64_id [simp]: "- (2 ^ 63) \<le> x \<Longrightarrow> x < 2 ^ 63 \<Longrightarrow> i64 x = x"
  by (simp add: i64_def)

lemma i64_range: "- (2 ^ 63) \<le> i64 x" "i64 x \<le> max_int64"
  by (simp_all add: i64_def)

lemma i64_le: "- (2 ^ 63) \<le> x \<Longrightarrow> i64 x \<le> x"
  unfolding i64_def by (smt (verit) zmod_le_nonneg_dividend)

lemma i64_add [simp]: "i64 (i64 x + y) = i64 (x + y)"
proof -
  have "(i64 x + y + 2 ^ 63) mod 2 ^ 64 = ((x + 2 ^ 63) mod 2 ^ 64 + y) mod 2 ^ 64"
    by (simp add: i64_def)
  also have "\<dots> = (x + 2 ^ 63 + y) mod 2 ^ 64" by (rule mod_add_left_eq)
  finally show ?thesis by (simp only: i64_def add.assoc add.commute [of "2 ^ 63"])
qed

lemma i64_wraps:
  assumes "2 ^ 63 \<le> x" "x < 2 ^ 64"
  shows "i64 x = x - 2 ^ 64"
proof -
  have "(x + 2 ^ 63) mod 2 ^ 64 = ((x - 2 ^ 63) + 2 ^ 64) mod 2 ^ 64" by (simp add: add.commute)
  also have "\<dots> = (x - 2 ^ 63) mod 2 ^ 64" by (rule mod_add_self2)
  also have "\<dots> = x - 2 ^ 63" by (rule mod_pos_pos_trivial) (use assms in simp_all)
  finally show ?thesis by (simp add: i64_def)
qed

subsection \<open>Fixed-width fields\<close>

text \<open>
  \<open>encoding/binary\<close>: the four bytes of a \<open>uint32\<close>, most significant first
  (\<open>BigEndian\<close>) or last (\<open>LittleEndian\<close>), and the two bytes of a \<open>uint16\<close>.
\<close>

definition be_put32 :: "32 word \<Rightarrow> bytes" where
  "be_put32 v = [ucast (drop_bit 24 v), ucast (drop_bit 16 v), ucast (drop_bit 8 v), ucast v]"

definition be_get32 :: "bytes \<Rightarrow> 32 word" where
  "be_get32 b = ucast (b ! 3) OR push_bit 8 (ucast (b ! 2)) OR
     push_bit 16 (ucast (b ! 1)) OR push_bit 24 (ucast (b ! 0))"

definition le_put32 :: "32 word \<Rightarrow> bytes" where
  "le_put32 v = [ucast v, ucast (drop_bit 8 v), ucast (drop_bit 16 v), ucast (drop_bit 24 v)]"

definition le_get32 :: "bytes \<Rightarrow> 32 word" where
  "le_get32 b = ucast (b ! 0) OR push_bit 8 (ucast (b ! 1)) OR
     push_bit 16 (ucast (b ! 2)) OR push_bit 24 (ucast (b ! 3))"

definition le_put16 :: "16 word \<Rightarrow> bytes" where
  "le_put16 v = [ucast v, ucast (drop_bit 8 v)]"

definition le_get16 :: "bytes \<Rightarrow> 16 word" where
  "le_get16 b = ucast (b ! 0) OR push_bit 8 (ucast (b ! 1))"

lemma length_puts [simp]:
  "length (be_put32 v) = 4" "length (le_put32 v) = 4" "length (le_put16 u) = 2"
  by (simp_all add: be_put32_def le_put32_def le_put16_def)

lemma ucast_bytes_join32:
  "ucast (ucast v :: byte) OR push_bit 8 (ucast (ucast (drop_bit 8 v) :: byte)) OR
   push_bit 16 (ucast (ucast (drop_bit 16 v) :: byte)) OR
   push_bit 24 (ucast (ucast (drop_bit 24 v) :: byte)) = (v :: 32 word)"
proof (rule bit_word_eqI)
  fix n assume "n < LENGTH(32)"
  then consider "n < 8" | "8 \<le> n" "n < 16" | "16 \<le> n" "n < 24" | "24 \<le> n" "n < 32"
    by fastforce
  then show "bit (ucast (ucast v :: byte) OR push_bit 8 (ucast (ucast (drop_bit 8 v) :: byte)) OR
      push_bit 16 (ucast (ucast (drop_bit 16 v) :: byte)) OR
      push_bit 24 (ucast (ucast (drop_bit 24 v) :: byte)) :: 32 word) n = bit v n"
    by cases (auto simp: bit_simps)
qed

lemma be_get_put32 [simp]: "be_get32 (be_put32 v @ rest) = v"
  by (simp add: be_get32_def be_put32_def ucast_bytes_join32)

lemma le_get_put32 [simp]: "le_get32 (le_put32 v @ rest) = v"
  by (simp add: le_get32_def le_put32_def ucast_bytes_join32)

lemma le_get_put16 [simp]: "le_get16 (le_put16 v @ rest) = v"
  unfolding le_get16_def le_put16_def
  by (rule bit_word_eqI) (auto simp: bit_simps)

lemmas get_put [simp] =
  be_get_put32 [of _ "[]", simplified] le_get_put32 [of _ "[]", simplified]
  le_get_put16 [of _ "[]", simplified]

subsection \<open>Lists\<close>

lemma drop_take_split:
  assumes "n \<le> m" "m \<le> k"
  shows "drop n (take k xs) = drop n (take m xs) @ drop m (take k xs)"
proof -
  have "take (k - n) (drop n xs) = take ((m - n) + (k - m)) (drop n xs)" using assms by simp
  also have "\<dots> = take (m - n) (drop n xs) @ take (k - m) (drop (m - n) (drop n xs))"
    by (rule take_add)
  finally show ?thesis using assms by (simp add: drop_take)
qed

subsection \<open>Runs of a step relation\<close>

text \<open>
  The states a step relation reaches from an initial one, and the interface for invariants: what
  holds at the start and is kept by every step holds in every reachable state.
\<close>

inductive reachable :: "('s \<Rightarrow> 's \<Rightarrow> bool) \<Rightarrow> 's \<Rightarrow> 's \<Rightarrow> bool" for step s0 where
  run_start: "reachable step s0 s0"
| run_step: "reachable step s0 s \<Longrightarrow> step s s' \<Longrightarrow> reachable step s0 s'"

locale invariant_of =
  fixes step :: "'s \<Rightarrow> 's \<Rightarrow> bool" and s0 :: 's and inv :: "'s \<Rightarrow> bool"
  assumes inv_start: "inv s0"
    and inv_step: "inv s \<Longrightarrow> step s s' \<Longrightarrow> inv s'"
begin

lemma holds: "reachable step s0 s \<Longrightarrow> inv s"
  by (induction rule: reachable.induct) (auto intro: inv_start inv_step)

end

end
