(* ===== verification/GoErrors.thy ===== *)
theory GoErrors
  imports Prelude
begin

text \<open>
  Go's \<open>error\<close> values and the library's error taxonomy (\<open>errors.go\<close>, the error types of
  \<open>internal/proto\<close> and \<open>sourceAbortedError\<close> of \<open>client.go\<close>).

  One constructor per error type or sentinel. \<open>Errorf\<close> is \<open>fmt.Errorf\<close> with its format,
  its plain operands and the errors it wraps with \<open>%w\<close>, in their order; the text is
  rendered in \<open>GoFmt\<close>. \<open>NewError\<close> is \<open>errors.New\<close> (and \<open>fmt.Errorf\<close> with nothing to wrap);
  \<open>Foreign\<close> is an error made by other code (a transport, a caller's reader, the file
  system) with the errors \<open>errors.Is\<close> and \<open>errors.As\<close> find below it. A nil \<open>error\<close> is
  \<open>None\<close> of \<open>goerr option\<close>.
\<close>

subsection \<open>Error values\<close>

datatype fmtarg = FInt int | FStr string | FMode "32 word" | FDur int

datatype goerr =
    ErrSizeLimitExceeded
  | ProtoErrSizeLimitExceeded
  | ErrResponseTooLarge
  | ErrMalformedReply
  | ErrInvalidRead
  | IoEOF
  | IoErrUnexpectedEOF
  | IoErrNoProgress
  | IoErrShortWrite
  | CtxCanceled
  | CtxDeadlineExceeded
  | OsErrDeadlineExceeded
  | HttpMaxBytesError
  | ErrRejected
  | is_SourceError: SourceError (source_err: goerr)
  | is_SinkError: SinkError (sink_err: goerr)
  | is_SourceAborted: SourceAborted (aborted_err: goerr)
  | is_ClamdError: ClamdError string
  | is_ProtocolError: ProtocolError string string
  | is_ConnectionError: ConnectionError string goerr
  | NewError string "fmtarg list"
  | Errorf string "fmtarg list" "goerr list"
  | Foreign string "goerr list"

text \<open>The \<open>Unwrap\<close> methods: what \<open>errors.Is\<close> and \<open>errors.As\<close> look at next.\<close>

fun unwrap :: "goerr \<Rightarrow> goerr list" where
  "unwrap (SourceError e) = [e]"
| "unwrap (SinkError e) = [e]"
| "unwrap (SourceAborted e) = [e]"
| "unwrap (ConnectionError _ e) = [e]"
| "unwrap (Errorf _ _ es) = es"
| "unwrap (Foreign _ es) = es"
| "unwrap _ = []"

lemma unwrap_smaller [termination_simp]: "x \<in> set (unwrap e) \<Longrightarrow> size x < size e"
  by (cases e rule: unwrap.cases) (auto dest: size_list_estimation' [OF _ order_refl, of _ _ size])

subsection \<open>errors.Is and errors.As\<close>

text \<open>Both walk the tree of wrapped errors in pre-order.\<close>

function err_tree :: "goerr \<Rightarrow> goerr list" where
  "err_tree e = e # concat (map err_tree (unwrap e))"
  by pat_completeness auto
termination
  by (relation "measure size") (auto dest: unwrap_smaller)

declare err_tree.simps [simp del]

definition errors_Is :: "goerr \<Rightarrow> goerr \<Rightarrow> bool" where
  "errors_Is e target = List.member (err_tree e) target"

definition errors_As :: "(goerr \<Rightarrow> bool) \<Rightarrow> goerr \<Rightarrow> goerr option" where
  "errors_As P e = List.find P (err_tree e)"

text \<open>
  \<open>errors.AsType\<close> at the three error types that carry a cause the code then uses: the cause
  of the first match.
\<close>

definition as_SourceError :: "goerr \<Rightarrow> goerr option" where
  "as_SourceError e = map_option source_err (errors_As is_SourceError e)"

definition as_SinkError :: "goerr \<Rightarrow> goerr option" where
  "as_SinkError e = map_option sink_err (errors_As is_SinkError e)"

definition as_SourceAborted :: "goerr \<Rightarrow> goerr option" where
  "as_SourceAborted e = map_option aborted_err (errors_As is_SourceAborted e)"

text \<open>Evaluation of the walk on the constructors, and on a leaf.\<close>

lemma err_tree_simps [err_simps]:
  "err_tree (SourceError e) = SourceError e # err_tree e"
  "err_tree (SinkError e) = SinkError e # err_tree e"
  "err_tree (SourceAborted e) = SourceAborted e # err_tree e"
  "err_tree (ConnectionError s e) = ConnectionError s e # err_tree e"
  "err_tree (Errorf f as es) = Errorf f as es # concat (map err_tree es)"
  "err_tree (Foreign s es) = Foreign s es # concat (map err_tree es)"
  by (simp_all add: err_tree.simps)

lemma err_tree_leaf [err_simps]: "unwrap e = [] \<Longrightarrow> err_tree e = [e]"
  by (simp add: err_tree.simps)

lemma errors_Is_simps [err_simps]:
  "errors_Is (SourceError e) t \<longleftrightarrow> SourceError e = t \<or> errors_Is e t"
  "errors_Is (SinkError e) t \<longleftrightarrow> SinkError e = t \<or> errors_Is e t"
  "errors_Is (SourceAborted e) t \<longleftrightarrow> SourceAborted e = t \<or> errors_Is e t"
  "errors_Is (ConnectionError s e) t \<longleftrightarrow> ConnectionError s e = t \<or> errors_Is e t"
  "errors_Is (Errorf f as es) t \<longleftrightarrow> Errorf f as es = t \<or> (\<exists>e \<in> set es. errors_Is e t)"
  "errors_Is (Foreign s es) t \<longleftrightarrow> Foreign s es = t \<or> (\<exists>e \<in> set es. errors_Is e t)"
  by (auto simp: errors_Is_def err_tree_simps)

lemma errors_Is_leaf [err_simps]: "unwrap e = [] \<Longrightarrow> errors_Is e t \<longleftrightarrow> e = t"
  by (auto simp: errors_Is_def err_tree_leaf)

lemma errors_As_cons [err_simps]:
  "errors_As P (SourceError e) = (if P (SourceError e) then Some (SourceError e) else errors_As P e)"
  "errors_As P (SinkError e) = (if P (SinkError e) then Some (SinkError e) else errors_As P e)"
  "errors_As P (SourceAborted e) = (if P (SourceAborted e) then Some (SourceAborted e) else errors_As P e)"
  "errors_As P (ConnectionError s e) =
     (if P (ConnectionError s e) then Some (ConnectionError s e) else errors_As P e)"
  by (simp_all add: errors_As_def err_tree_simps)

lemma errors_As_leaf [err_simps]:
  "unwrap e = [] \<Longrightarrow> errors_As P e = (if P e then Some e else None)"
  by (simp add: errors_As_def err_tree_leaf)

lemma errors_As_None_iff: "errors_As P e = None \<longleftrightarrow> (\<forall>x \<in> set (err_tree e). \<not> P x)"
  by (auto simp: errors_As_def find_None_iff)

lemma errors_As_SomeD: "errors_As P e = Some x \<Longrightarrow> P x \<and> x \<in> set (err_tree e)"
  by (auto simp: errors_As_def find_Some_iff dest: nth_mem)

lemma errors_As_top [simp]: "P e \<Longrightarrow> errors_As P e = Some e"
  by (simp add: errors_As_def err_tree.simps [of e])

lemma as_top [simp]:
  "as_SourceError (SourceError e) = Some e" "as_SinkError (SinkError e) = Some e"
  "as_SourceAborted (SourceAborted e) = Some e"
  by (simp_all add: as_SourceError_def as_SinkError_def as_SourceAborted_def)

subsection \<open>IsRetryable\<close>

text \<open>
  \<open>errors.As(err, &clamdErr)\<close> assigns when it succeeds; only whether it does matters to
  \<open>IsRetryable\<close>.
\<close>

definition IsRetryable :: "goerr option \<Rightarrow> bool" where
  "IsRetryable err =
     (case err of
        None \<Rightarrow> False
      | Some e \<Rightarrow>
          if errors_Is e CtxCanceled then False
          else if errors_Is e ErrSizeLimitExceeded then False
          else if errors_Is e CtxDeadlineExceeded then True
          else if errors_As is_ClamdError e \<noteq> None \<or> errors_As is_ProtocolError e \<noteq> None then False
          else if errors_As is_ConnectionError e \<noteq> None then True
          else False)"

lemma IsRetryable_None [simp]: "\<not> IsRetryable None"
  by (simp add: IsRetryable_def)

lemma IsRetryable_Canceled: "errors_Is e CtxCanceled \<Longrightarrow> \<not> IsRetryable (Some e)"
  by (simp add: IsRetryable_def)

lemma IsRetryable_SizeLimit: "errors_Is e ErrSizeLimitExceeded \<Longrightarrow> \<not> IsRetryable (Some e)"
  by (simp add: IsRetryable_def)

lemma IsRetryable_ClamdError [simp]: "\<not> IsRetryable (Some (ClamdError m))"
  by (simp add: IsRetryable_def err_simps)

lemma IsRetryable_ProtocolError [simp]: "\<not> IsRetryable (Some (ProtocolError c r))"
  by (simp add: IsRetryable_def err_simps)

end
