(* ===== verification/Proto.thy ===== *)
theory Proto
  imports GoErrors
begin

text \<open>
  The sending half of the wire protocol (\<open>internal/proto/proto.go\<close>): \<open>EncodeCommand\<close>,
  \<open>StreamAll\<close> and \<open>fill\<close>. As the package does, the definitions work on any reader and
  any writer: a function from a state \<open>'w\<close> to a result and the next state.

  An \<open>io.Reader\<close> is asked for at most \<open>k\<close> bytes and answers the count it reports, the bytes
  it stored at the front of the buffer, and an error; the count may be anything. An
  \<open>io.Writer\<close> is given bytes and answers the count it reports and an error. \<open>StreamAll\<close> is
  a partial function: an endless source with no size limit keeps it running, which is
  the value \<open>None\<close>.

  The rules \<open>fill_loop_rule\<close> and \<open>stream_loop_rule\<close> have a case per exit of the two loops; the theory
  \<open>Framing\<close> says with them what a run leaves on the wire.
\<close>

type_synonym 'w reader = "'w \<Rightarrow> nat \<Rightarrow> (int \<times> bytes \<times> goerr option) \<times> 'w"
type_synonym 'w writer = "'w \<Rightarrow> bytes \<Rightarrow> (int \<times> goerr option) \<times> 'w"

subsection \<open>Model\<close>

definition chunkHeaderSize :: nat where
  "chunkHeaderSize = 4"

definition MaxChunkSize :: int where
  "MaxChunkSize = 16 * 2 ^ 20"

definition ProtoDefaultChunkSize :: int where
  "ProtoDefaultChunkSize = 32 * 2 ^ 10"

definition maxConsecutiveEmptyReads :: nat where
  "maxConsecutiveEmptyReads = 100"

definition EncodeCommand :: "string \<Rightarrow> bytes" where
  "EncodeCommand name = byte_of (CHR ''z'') # bytes_of name @ [0]"

text \<open>A \<open>Read\<close> into \<open>buf[n:]\<close> overwrites the front of that part.\<close>

definition store :: "bytes \<Rightarrow> nat \<Rightarrow> bytes \<Rightarrow> bytes" where
  "store buf n data = take n buf @ take (length buf - n) data @ drop (n + length data) buf"

lemma length_store [simp]: "n \<le> length buf \<Longrightarrow> length (store buf n data) = length buf"
  by (simp add: store_def)

lemma take_store:
  "n + m \<le> length buf \<Longrightarrow> m \<le> length data \<Longrightarrow> take (n + m) (store buf n data) = take n buf @ take m data"
  by (simp add: store_def)

text \<open>
  \<open>fill\<close>: its results \<open>n\<close>, \<open>eof\<close> and \<open>err\<close>, and the buffer it filled.
\<close>

function (sequential) fill_loop ::
  "'w reader \<Rightarrow> bytes \<Rightarrow> nat \<Rightarrow> nat \<Rightarrow> 'w \<Rightarrow> (nat \<times> bool \<times> goerr option \<times> bytes) \<times> 'w" where
  "fill_loop r buf n empties w =
     (if n < length buf then
        (case r w (length buf - n) of ((nn, data, rerr), w') \<Rightarrow>
           let buf' = store buf n data in
           if nn < 0 \<or> nn > int (length buf - n) then ((n, False, Some ErrInvalidRead, buf'), w')
           else
             (let n' = n + nat nn in
              if rerr = Some IoEOF then ((n', True, None, buf'), w')
              else if rerr \<noteq> None then ((n', False, rerr, buf'), w')
              else if nn > 0 then fill_loop r buf' n' 0 w'
              else if Suc empties \<ge> maxConsecutiveEmptyReads
                   then ((n', False, Some IoErrNoProgress, buf'), w')
                   else fill_loop r buf' n' (Suc empties) w'))
      else ((n, False, None, buf), w))"
  by pat_completeness auto
termination
  by (relation "measures [\<lambda>(r, buf, n, empties, w). length buf - n,
                          \<lambda>(r, buf, n, empties, w). maxConsecutiveEmptyReads - empties]") auto

declare fill_loop.simps [simp del]

definition fill :: "'w reader \<Rightarrow> bytes \<Rightarrow> 'w \<Rightarrow> (nat \<times> bool \<times> goerr option \<times> bytes) \<times> 'w" where
  "fill r buf w = fill_loop r buf 0 0 w"

text \<open>Writing one frame, with the checks after \<open>w.Write\<close>: on the left the error.\<close>

definition write_frame :: "'w writer \<Rightarrow> bytes \<Rightarrow> 'w \<Rightarrow> goerr option \<times> 'w" where
  "write_frame wr frame w =
     (case wr w frame of ((wn, werr), w') \<Rightarrow>
        (case werr of
           Some e \<Rightarrow> (Some (SinkError e), w')
         | None \<Rightarrow> if wn \<noteq> int (length frame) then (Some (SinkError IoErrShortWrite), w')
                   else (None, w')))"

definition chunk_frame :: "bytes \<Rightarrow> bytes" where
  "chunk_frame payload = be_put32 (word_of_nat (length payload)) @ payload"

definition terminator :: bytes where
  "terminator = be_put32 0"

definition finish_stream :: "'w writer \<Rightarrow> int \<Rightarrow> 'w \<Rightarrow> (int \<times> goerr option) \<times> 'w" where
  "finish_stream wr tot w = (case write_frame wr terminator w of (e, w') \<Rightarrow> ((tot, e), w'))"

partial_function (option) stream_loop ::
  "'w writer \<Rightarrow> 'w reader \<Rightarrow> int \<Rightarrow> bytes \<Rightarrow> int \<Rightarrow> 'w \<Rightarrow> ((int \<times> goerr option) \<times> 'w) option" where
  [code]: "stream_loop wr r maxBytes buf tot w =
     (case fill r buf w of ((n, eof, rerr, buf'), w1) \<Rightarrow>
        if maxBytes \<ge> 0 \<and> i64 (tot + int n) > maxBytes
        then Some ((tot, Some ProtoErrSizeLimitExceeded), w1)
        else (case rerr of
            Some e \<Rightarrow> Some ((tot, Some (SourceError e)), w1)
          | None \<Rightarrow>
              (case (if n > 0 then write_frame wr (chunk_frame (take n buf')) w1 else (None, w1)) of
                 (Some e, w2) \<Rightarrow> Some ((tot, Some e), w2)
               | (None, w2) \<Rightarrow>
                   if eof then Some (finish_stream wr (i64 (tot + int n)) w2)
                   else stream_loop wr r maxBytes buf' (i64 (tot + int n)) w2)))"

definition clamp_chunk :: "int \<Rightarrow> int" where
  "clamp_chunk chunkSize =
     (let c = (if chunkSize \<le> 0 then ProtoDefaultChunkSize else chunkSize)
      in if c > MaxChunkSize then MaxChunkSize else c)"

definition StreamAll ::
  "'w writer \<Rightarrow> 'w reader \<Rightarrow> int \<Rightarrow> int \<Rightarrow> 'w \<Rightarrow> ((int \<times> goerr option) \<times> 'w) option" where
  "StreamAll wr r chunkSize maxBytes w =
     stream_loop wr r maxBytes (replicate (nat (clamp_chunk chunkSize)) 0) 0 w"

text \<open>Induction along the two recursive calls of \<open>fill\<close>: a read that made progress, an empty one.\<close>

lemma fill_loop_step_induct [case_names step]:
  fixes r :: "'w reader" and P :: "bytes \<Rightarrow> nat \<Rightarrow> nat \<Rightarrow> 'w \<Rightarrow> bool"
  assumes "\<And>buf n empties w.
     (\<And>nn data w1. n < length buf \<Longrightarrow> r w (length buf - n) = ((nn, data, None), w1) \<Longrightarrow>
        0 < nn \<Longrightarrow> nn \<le> int (length buf - n) \<Longrightarrow> P (store buf n data) (n + nat nn) 0 w1) \<Longrightarrow>
     (\<And>data w1. n < length buf \<Longrightarrow> r w (length buf - n) = ((0, data, None), w1) \<Longrightarrow>
        Suc empties < maxConsecutiveEmptyReads \<Longrightarrow> P (store buf n data) n (Suc empties) w1) \<Longrightarrow>
     P buf n empties w"
  shows "P buf n empties w"
proof -
  have "r' = r \<longrightarrow> P buf n empties w" for r' :: "'w reader"
  proof (induction r' buf n empties w rule: fill_loop.induct)
    case (1 r' buf n empties w)
    show ?case
    proof
      assume r: "r' = r"
      show "P buf n empties w"
      proof (rule assms)
        fix nn data w1
        assume "n < length buf" "r w (length buf - n) = ((nn, data, None), w1)" "0 < nn"
          "nn \<le> int (length buf - n)"
        then show "P (store buf n data) (n + nat nn) 0 w1"
          using 1(1) [of "(nn, data, None)" w1 nn "(data, None)" data None] r by auto
      next
        fix data w1
        assume "n < length buf" "r w (length buf - n) = ((0, data, None), w1)"
          "Suc empties < maxConsecutiveEmptyReads"
        then show "P (store buf n data) n (Suc empties) w1"
          using 1(2) [of "(0, data, None)" w1 0 "(data, None)" data None] r by auto
      qed
    qed
  qed
  then show ?thesis by simp
qed

lemma fill_loop_more:
  "n < length buf \<Longrightarrow> r w (length buf - n) = ((nn, data, None), w1) \<Longrightarrow> 0 < nn \<Longrightarrow>
   nn \<le> int (length buf - n) \<Longrightarrow>
   fill_loop r buf n empties w = fill_loop r (store buf n data) (n + nat nn) 0 w1"
  by (simp add: fill_loop.simps [of r buf n] Let_def)

lemma fill_loop_idle:
  "n < length buf \<Longrightarrow> r w (length buf - n) = ((0, data, None), w1) \<Longrightarrow>
   Suc empties < maxConsecutiveEmptyReads \<Longrightarrow>
   fill_loop r buf n empties w = fill_loop r (store buf n data) n (Suc empties) w1"
  by (simp add: fill_loop.simps [of r buf n] Let_def)

text \<open>
  The ways a run of \<open>fill\<close> ends, and the way it goes on, as an induction rule: the buffer is full, an
  impossible count, an end or an error, no progress, or a read after which the loop continues.
\<close>

lemma fill_loop_rule [consumes 1, case_names full bad stop stall more]:
  fixes r :: "'w reader"
  assumes run: "fill_loop r buf n empties w = ((n', eof, err, buf'), w')"
    and full: "\<And>buf n w. \<not> n < length buf \<Longrightarrow> P buf n w n False None buf w"
    and bad: "\<And>buf n w nn data rerr w1. n < length buf \<Longrightarrow> r w (length buf - n) = ((nn, data, rerr), w1) \<Longrightarrow>
      nn < 0 \<or> nn > int (length buf - n) \<Longrightarrow> P buf n w n False (Some ErrInvalidRead) (store buf n data) w1"
    and stop: "\<And>buf n w m data e w1. n < length buf \<Longrightarrow> r w (length buf - n) = ((int m, data, Some e), w1) \<Longrightarrow>
      m \<le> length buf - n \<Longrightarrow>
      P buf n w (n + m) (e = IoEOF) (if e = IoEOF then None else Some e) (store buf n data) w1"
    and stall: "\<And>buf n w data w1. n < length buf \<Longrightarrow> r w (length buf - n) = ((0, data, None), w1) \<Longrightarrow>
      P buf n w n False (Some IoErrNoProgress) (store buf n data) w1"
    and more: "\<And>buf n w m data w1 n' eof err buf' w'. n < length buf \<Longrightarrow>
      r w (length buf - n) = ((int m, data, None), w1) \<Longrightarrow> m \<le> length buf - n \<Longrightarrow>
      P (store buf n data) (n + m) w1 n' eof err buf' w' \<Longrightarrow> P buf n w n' eof err buf' w'"
  shows "P buf n w n' eof err buf' w'"
  using run
proof (induction buf n empties w arbitrary: n' eof err buf' w' rule: fill_loop_step_induct [of r])
  case (step buf n empties w)
  obtain nn data rerr w1 where rd: "r w (length buf - n) = ((nn, data, rerr), w1)"
    by (metis prod.collapse)
  consider (full) "\<not> n < length buf" | (bad) "n < length buf" "nn < 0 \<or> nn > int (length buf - n)"
    | (ok) m where "n < length buf" "nn = int m" "m \<le> length buf - n"
    by (metis linorder_not_less of_nat_le_iff zero_le_imp_eq_int)
  then show ?case
  proof cases
    case full
    with step.prems assms(2) show ?thesis by (simp add: fill_loop.simps [of r buf n])
  next
    case bad
    with step.prems rd assms(3) [OF bad(1) rd bad(2)] show ?thesis by (auto simp: fill_loop.simps [of r buf n] Let_def)
  next
    case ok
    note rd = rd [unfolded ok(2)]
    show ?thesis
    proof (cases rerr)
      case (Some e)
      with step.prems rd ok assms(4) [OF ok(1) rd [unfolded Some] ok(3)] show ?thesis
        by (auto simp: fill_loop.simps [of r buf n] Let_def split: if_splits)
    next
      case None
      note rd = rd [unfolded None]
      consider "0 < m" | "m = 0" "Suc empties < maxConsecutiveEmptyReads" | "m = 0" "maxConsecutiveEmptyReads \<le> Suc empties"
        by linarith
      then show ?thesis
      proof cases
        case 1
        then have pos: "0 < int m" "int m \<le> int (length buf - n)" using ok(3) by simp_all
        from step.prems fill_loop_more [of n buf r w "int m" data w1 empties, OF ok(1) rd pos] step.IH(1) [OF ok(1) rd pos] more [OF ok(1) rd ok(3)]
        show ?thesis by simp
      next
        case 2
        have rd0: "r w (length buf - n) = ((0, data, None), w1)" using rd 2(1) by simp
        from step.prems fill_loop_idle [of n buf r w data w1 empties, OF ok(1) rd0 2(2)] step.IH(2) [OF ok(1) rd0 2(2)]
          more [OF ok(1) rd ok(3)] 2(1) show ?thesis by simp
      next
        case 3
        with step.prems rd stall [OF ok(1), of w data w1] show ?thesis
          by (auto simp: fill_loop.simps [of r buf n] ok(1) Let_def)
      qed
    qed
  qed
qed

lemma fill_loop_preserves:
  assumes r: "\<And>w k res w'. Q w \<Longrightarrow> r w k = (res, w') \<Longrightarrow> Q w'"
    and run: "fill_loop r buf n empties w = (res, w')" and Q: "Q w"
  shows "Q w'"
proof -
  obtain n' eof err buf' where "res = (n', eof, err, buf')" by (metis prod.collapse)
  with run have "fill_loop r buf n empties w = ((n', eof, err, buf'), w')" by simp
  then show ?thesis using Q by (induction rule: fill_loop_rule) (metis r)+
qed

text \<open>
  The ways a run of \<open>StreamAll\<close> ends, and the way it goes on: one case per exit of the code, first
  for one round of the loop, then as an induction rule.
\<close>

lemma stream_round_cases:
  fixes wr :: "'w writer" and r :: "'w reader"
  assumes round: "(case fill r buf w of ((n, eof, rerr, buf'), w1) \<Rightarrow>
        if mx \<ge> 0 \<and> i64 (tot + int n) > mx
        then Some ((tot, Some ProtoErrSizeLimitExceeded), w1)
        else (case rerr of
            Some e \<Rightarrow> Some ((tot, Some (SourceError e)), w1)
          | None \<Rightarrow>
              (case (if n > 0 then write_frame wr (chunk_frame (take n buf')) w1 else (None, w1)) of
                 (Some e, w2) \<Rightarrow> Some ((tot, Some e), w2)
               | (None, w2) \<Rightarrow>
                   if eof then Some (finish_stream wr (i64 (tot + int n)) w2)
                   else loop buf' (i64 (tot + int n)) w2))) = Some res"
  obtains (over) n eof rerr buf' w1 where "fill r buf w = ((n, eof, rerr, buf'), w1)" "0 \<le> mx" "mx < i64 (tot + int n)"
      "res = ((tot, Some ProtoErrSizeLimitExceeded), w1)"
  | (source) n eof e buf' w1 where "fill r buf w = ((n, eof, Some e, buf'), w1)" "0 \<le> mx \<longrightarrow> i64 (tot + int n) \<le> mx"
      "res = ((tot, Some (SourceError e)), w1)"
  | (cut) n eof buf' w1 e w2 where "fill r buf w = ((n, eof, None, buf'), w1)" "0 \<le> mx \<longrightarrow> i64 (tot + int n) \<le> mx"
      "0 < n" "write_frame wr (chunk_frame (take n buf')) w1 = (Some e, w2)" "res = ((tot, Some e), w2)"
  | (last) n buf' w1 w2 e w3 where "fill r buf w = ((n, True, None, buf'), w1)" "0 \<le> mx \<longrightarrow> i64 (tot + int n) \<le> mx"
      "n = 0 \<and> w2 = w1 \<or> 0 < n \<and> write_frame wr (chunk_frame (take n buf')) w1 = (None, w2)"
      "write_frame wr terminator w2 = (e, w3)" "res = ((i64 (tot + int n), e), w3)"
  | (more) n buf' w1 w2 where "fill r buf w = ((n, False, None, buf'), w1)" "0 \<le> mx \<longrightarrow> i64 (tot + int n) \<le> mx"
      "n = 0 \<and> w2 = w1 \<or> 0 < n \<and> write_frame wr (chunk_frame (take n buf')) w1 = (None, w2)"
      "loop buf' (i64 (tot + int n)) w2 = Some res"
proof -
  obtain n eof rerr buf' w1 where f: "fill r buf w = ((n, eof, rerr, buf'), w1)" by (metis prod.collapse)
  obtain x w2 where wf: "(if n > 0 then write_frame wr (chunk_frame (take n buf')) w1 else (None, w1)) = (x, w2)"
    by (metis prod.collapse)
  obtain e w3 where t: "write_frame wr terminator w2 = (e, w3)" by (metis prod.collapse)
  consider "0 \<le> mx \<and> mx < i64 (tot + int n)" | "0 \<le> mx \<longrightarrow> i64 (tot + int n) \<le> mx" by linarith
  then show thesis
  proof cases
    case 1
    with round f over show thesis by auto
  next
    case 2
    show thesis
    proof (cases "rerr = None \<and> x = None")
      case False
      with round f 2 wf source cut show thesis by (cases rerr; cases x) (auto split: if_splits)
    next
      case True
      with wf have sent: "n = 0 \<and> w2 = w1 \<or> 0 < n \<and> write_frame wr (chunk_frame (take n buf')) w1 = (None, w2)"
        by (auto split: if_splits)
      from True round f 2 wf t sent last [of n buf' w1 w2 e w3] more [of n buf' w1 w2] show thesis
        by (cases eof) (auto simp: finish_stream_def)
    qed
  qed
qed

lemma stream_loop_rule [consumes 1, case_names over source cut last more]:
  fixes wr :: "'w writer" and r :: "'w reader"
  assumes run: "stream_loop wr r mx buf tot w = Some ((tot', e), w')"
    and over: "\<And>buf tot w n eof rerr buf' w1.
      fill r buf w = ((n, eof, rerr, buf'), w1) \<Longrightarrow> 0 \<le> mx \<Longrightarrow> mx < i64 (tot + int n) \<Longrightarrow>
      P buf tot w tot (Some ProtoErrSizeLimitExceeded) w1"
    and source: "\<And>buf tot w n eof e buf' w1.
      fill r buf w = ((n, eof, Some e, buf'), w1) \<Longrightarrow> (0 \<le> mx \<Longrightarrow> i64 (tot + int n) \<le> mx) \<Longrightarrow>
      P buf tot w tot (Some (SourceError e)) w1"
    and cut: "\<And>buf tot w n eof buf' w1 e w2.
      fill r buf w = ((n, eof, None, buf'), w1) \<Longrightarrow> (0 \<le> mx \<Longrightarrow> i64 (tot + int n) \<le> mx) \<Longrightarrow>
      0 < n \<Longrightarrow> write_frame wr (chunk_frame (take n buf')) w1 = (Some e, w2) \<Longrightarrow>
      P buf tot w tot (Some e) w2"
    and last: "\<And>buf tot w n buf' w1 w2 e w3.
      fill r buf w = ((n, True, None, buf'), w1) \<Longrightarrow> (0 \<le> mx \<Longrightarrow> i64 (tot + int n) \<le> mx) \<Longrightarrow>
      n = 0 \<and> w2 = w1 \<or> 0 < n \<and> write_frame wr (chunk_frame (take n buf')) w1 = (None, w2) \<Longrightarrow>
      write_frame wr terminator w2 = (e, w3) \<Longrightarrow> P buf tot w (i64 (tot + int n)) e w3"
    and more: "\<And>buf tot w n buf' w1 w2 tot' e w'.
      fill r buf w = ((n, False, None, buf'), w1) \<Longrightarrow> (0 \<le> mx \<Longrightarrow> i64 (tot + int n) \<le> mx) \<Longrightarrow>
      n = 0 \<and> w2 = w1 \<or> 0 < n \<and> write_frame wr (chunk_frame (take n buf')) w1 = (None, w2) \<Longrightarrow>
      P buf' (i64 (tot + int n)) w2 tot' e w' \<Longrightarrow> P buf tot w tot' e w'"
  shows "P buf tot w tot' e w'"
proof -
  let ?P = "\<lambda>wr' r' mx' buf tot w res. wr' = wr \<longrightarrow> r' = r \<longrightarrow> mx' = mx \<longrightarrow>
    P buf tot w (fst (fst res)) (snd (fst res)) (snd res)"
  have "?P wr r mx buf tot w ((tot', e), w')"
  proof (rule stream_loop.raw_induct [where P = ?P, OF _ run], intro impI, goal_cases)
    case (1 loop wr' r' mx' buf tot w res)
    note 1(2) [unfolded 1(3-5)]
    then show ?case
    proof (cases rule: stream_round_cases)
      case (more n buf' w1 w2)
      then have "P buf' (i64 (tot + int n)) w2 (fst (fst res)) (snd (fst res)) (snd res)"
        using 1(1) by blast
      with more assms(6) show ?thesis by blast
    qed (use over source cut last in auto)
  qed
  then show ?thesis by simp
qed

lemma stream_loop_preserves:
  assumes r: "\<And>w k res w'. Q w \<Longrightarrow> r w k = (res, w') \<Longrightarrow> Q w'"
    and wr: "\<And>w bs res w'. Q w \<Longrightarrow> wr w bs = (res, w') \<Longrightarrow> Q w'"
    and run: "stream_loop wr r mx buf tot w = Some ((tot', e), w')" and Q: "Q w"
  shows "Q w'"
proof -
  have f: "Q w \<Longrightarrow> fill r buf w = (res, w1) \<Longrightarrow> Q w1" for w buf res w1
  proof -
    assume Q: "Q w" and run: "fill r buf w = (res, w1)"
    show "Q w1"
    proof (rule fill_loop_preserves [of Q r buf 0 0 w res w1])
      show "fill_loop r buf 0 0 w = (res, w1)" using run by (simp add: fill_def)
    qed (fact r, fact Q)
  qed
  have wf: "Q w \<Longrightarrow> write_frame wr bs w = (res, w1) \<Longrightarrow> Q w1" for w bs res w1
  proof -
    assume "Q w" "write_frame wr bs w = (res, w1)"
    moreover from this(2) obtain res' where "wr w bs = (res', w1)"
      by (auto simp: write_frame_def split: prod.splits option.splits if_splits)
    ultimately show "Q w1" using wr by meson
  qed
  have "Q w \<longrightarrow> Q w'"
    using run
  proof (induction rule: stream_loop_rule)
    case (cut buf tot w n eof buf' w1 e w2)
    with f wf show ?case by meson
  next
    case (last buf tot w n buf' w1 w2 e w3)
    then have "Q w \<longrightarrow> Q w2" using f wf by meson
    with last wf show ?case by meson
  next
    case (more buf tot w n buf' w1 w2 tot' e w')
    then have "Q w \<longrightarrow> Q w2" using f wf by meson
    with more show ?case by meson
  qed (use f in meson)+
  with Q show ?thesis by simp
qed

subsection \<open>Termination\<close>

text \<open>Whatever the reader does, \<open>fill\<close> without an error or an end has filled the buffer.\<close>

lemma fill_loop_shape:
  assumes "fill_loop r buf n empties w = ((n', eof, err, buf'), w')" "n \<le> length buf"
  shows "length buf' = length buf \<and> n' \<le> length buf \<and> (\<not> eof \<and> err = None \<longrightarrow> n' = length buf)"
  using assms by (induction rule: fill_loop_rule) (auto split: if_splits)

lemma fill_shape:
  assumes "fill r buf w = ((n, eof, err, buf'), w')"
  shows "length buf' = length buf" "n \<le> length buf" "\<not> eof \<Longrightarrow> err = None \<Longrightarrow> n = length buf"
  using fill_loop_shape [of r buf 0 0 w n eof err buf' w'] assms by (auto simp: fill_def)

text \<open>
  With a size limit, every source is cut off: each full buffer moves the count towards the
  limit, so the loop returns for any reader and any writer.
\<close>

lemma stream_loop_returns:
  assumes "0 < length buf" "0 \<le> tot" "tot \<le> mx" "mx + int (length buf) \<le> max_int64"
  shows "stream_loop wr r mx buf tot w \<noteq> None"
  using assms
proof (induction "nat (mx - tot)" arbitrary: buf tot w rule: less_induct)
  case less
  obtain n eof rerr buf' w1 where f: "fill r buf w = ((n, eof, rerr, buf'), w1)"
    by (metis prod.collapse)
  note sh = fill_shape [OF f]
  have i: "i64 (tot + int n) = tot + int n" using less.prems sh(2) by simp
  have rec: "stream_loop wr r mx buf' (i64 (tot + int n)) w2 \<noteq> None"
    if "\<not> mx < i64 (tot + int n)" "rerr = None" "\<not> eof" for w2
    unfolding i
  proof (rule less.hyps)
    have L: "int n = int (length buf)" "0 < int (length buf)" "tot + int n \<le> mx"
      using sh that less.prems(1) i by auto
    then show "nat (mx - (tot + int n)) < nat (mx - tot)" by linarith
    show "0 < length buf'" "0 \<le> tot + int n" "tot + int n \<le> mx"
      "mx + int (length buf') \<le> max_int64"
      using less.prems sh(1) L by auto
  qed
  show ?case
  proof
    assume "stream_loop wr r mx buf tot w = None"
    then obtain w2 where "\<not> mx < i64 (tot + int n)" "rerr = None" "\<not> eof"
      "stream_loop wr r mx buf' (i64 (tot + int n)) w2 = None"
      using less.prems
      by (subst (asm) stream_loop.simps) (auto simp: f split: option.splits prod.splits if_splits)
    with rec show False by blast
  qed
qed

lemma StreamAll_preserves:
  assumes "\<And>w k res w'. Q w \<Longrightarrow> r w k = (res, w') \<Longrightarrow> Q w'"
    and "\<And>w bs res w'. Q w \<Longrightarrow> wr w bs = (res, w') \<Longrightarrow> Q w'"
    and "StreamAll wr r chunkSize mx w = Some ((n, e), w')" "Q w"
  shows "Q w'"
  using stream_loop_preserves [of Q r wr, OF assms(1,2) _ assms(4)] assms(3)
  by (auto simp: StreamAll_def)

lemma clamp_chunk_range: "0 < clamp_chunk c" "clamp_chunk c \<le> MaxChunkSize"
  by (auto simp: clamp_chunk_def ProtoDefaultChunkSize_def MaxChunkSize_def Let_def)

lemma clamp_chunk_bound: "0 < nat (clamp_chunk c)" "nat (clamp_chunk c) < 2 ^ 32"
  using clamp_chunk_range [of c] by (auto simp: MaxChunkSize_def)

lemma clamp_chunk_id: "1 \<le> c \<Longrightarrow> c \<le> MaxChunkSize \<Longrightarrow> clamp_chunk c = c"
  by (simp add: clamp_chunk_def)

lemma StreamAll_returns:
  assumes "0 \<le> mx" "mx \<le> max_int64 - MaxChunkSize"
  shows "StreamAll wr r chunkSize mx w \<noteq> None"
  unfolding StreamAll_def
  by (rule stream_loop_returns) (use assms clamp_chunk_range [of chunkSize] in auto)

subsection \<open>The errors of the two loops\<close>

lemma write_frame_SinkError: "write_frame wr bs w = (Some e, w') \<Longrightarrow> \<exists>x. e = SinkError x"
  by (auto simp: write_frame_def split: prod.splits option.splits if_splits)

text \<open>A reader that keeps answering \<open>(0, nil)\<close> is given up after a hundred reads.\<close>

lemma store_nil [simp]: "n \<le> length buf \<Longrightarrow> store buf n [] = buf"
  by (simp add: store_def)

lemma fill_loop_stuck:
  assumes "\<And>w k. r w k = ((0, [], None), step w)" "n < length buf" "k < maxConsecutiveEmptyReads"
  shows "fill_loop r buf n (maxConsecutiveEmptyReads - Suc k) w =
    ((n, False, Some IoErrNoProgress, buf), (step ^^ Suc k) w)"
  using assms(2,3)
proof (induction k arbitrary: w)
  case 0
  then show ?case by (subst fill_loop.simps) (simp add: assms(1) Let_def)
next
  case (Suc k)
  let ?e = "maxConsecutiveEmptyReads - Suc (Suc k)"
  have e: "Suc ?e < maxConsecutiveEmptyReads" "Suc ?e = maxConsecutiveEmptyReads - Suc k" using Suc.prems by auto
  have "fill_loop r buf n ?e w = fill_loop r buf n (maxConsecutiveEmptyReads - Suc k) (step w)"
    using fill_loop_idle [of n buf r w "[]" "step w" ?e, OF Suc.prems(1) assms(1) e(1)]
    unfolding e(2) store_nil [OF less_imp_le [OF Suc.prems(1)]] .
  also have "\<dots> = ((n, False, Some IoErrNoProgress, buf), (step ^^ Suc k) (step w))"
    using Suc.IH [OF Suc.prems(1)] Suc.prems(2) by simp
  finally show ?case by (simp add: funpow_swap1)
qed

lemma fill_stuck:
  assumes "\<And>w k. r w k = ((0, [], None), step w)" "buf \<noteq> []"
  shows "fill r buf w = ((0, False, Some IoErrNoProgress, buf), (step ^^ maxConsecutiveEmptyReads) w)"
  using fill_loop_stuck [of r step 0 buf "maxConsecutiveEmptyReads - 1" w, OF assms(1)] assms(2)
  unfolding fill_def by (simp add: maxConsecutiveEmptyReads_def)

lemma fill_invalid:
  assumes "r w (length buf) = ((nn, data, e), w')" "nn < 0 \<or> nn > int (length buf)" "buf \<noteq> []"
  shows "\<exists>buf'. fill r buf w = ((0, False, Some ErrInvalidRead, buf'), w')"
  using assms by (auto simp: fill_def fill_loop.simps [of r buf 0] Let_def)

lemma fill_fails:
  assumes "r w (length buf) = ((0, [], Some e), w')" "e \<noteq> IoEOF" "buf \<noteq> []"
  shows "fill r buf w = ((0, False, Some e, buf), w')"
  using assms by (simp add: fill_def fill_loop.simps [of r buf 0] Let_def)

lemma StreamAll_fails:
  assumes "\<And>k. r w k = ((0, [], Some e), w')" "e \<noteq> IoEOF"
  shows "StreamAll wr r chunkSize mx w = Some ((0, Some (SourceError e)), w')"
proof -
  have "fill r (replicate (nat (clamp_chunk chunkSize)) 0) w =
      ((0, False, Some e, replicate (nat (clamp_chunk chunkSize)) 0), w')"
    using assms clamp_chunk_range [of chunkSize]
      fill_fails [of r w "replicate (nat (clamp_chunk chunkSize)) 0" e w'] by simp
  then show ?thesis unfolding StreamAll_def by (subst stream_loop.simps) simp
qed

subsection \<open>Properties\<close>

text \<open>
  C23: a source that stops making progress cannot hold a stream open. If every read returns
  \<open>(0, nil)\<close>, \<open>StreamAll\<close> reads exactly a hundred times, sends nothing and fails with
  \<open>io.ErrNoProgress\<close> as an error of the source.
\<close>

theorem stuck_source_given_up:
  assumes "\<And>w k. r w k = ((0, [], None), step w)"
  shows "StreamAll wr r chunkSize mx w =
    Some ((0, Some (SourceError IoErrNoProgress)), (step ^^ maxConsecutiveEmptyReads) w)"
proof -
  let ?buf = "replicate (nat (clamp_chunk chunkSize)) (0 :: byte)"
  have "?buf \<noteq> []" using clamp_chunk_bound(1) [of chunkSize] by simp
  from fill_stuck [of r step ?buf w, OF assms this] show ?thesis
    unfolding StreamAll_def by (subst stream_loop.simps) simp
qed

theorem stuck_source_given_up_witness:
  "StreamAll (\<lambda>w bs. ((int (length bs), None), w)) (\<lambda>w k. ((0, [], None), Suc w)) 4 10 (0 :: nat) =
    Some ((0, Some (SourceError IoErrNoProgress)), 100)"
proof -
  have "(Suc ^^ k) n = n + k" for k n by (induction k) simp_all
  then show ?thesis
    using stuck_source_given_up [of "\<lambda>w k. ((0, [], None), Suc w)" Suc "\<lambda>w bs. ((int (length bs), None), w)" 4 10 0]
    by (simp add: maxConsecutiveEmptyReads_def)
qed

text \<open>
  The limit check adds before it compares. For a limit within one chunk of the largest \<open>int64\<close>
  the sum wraps, and a chunk that crosses the limit is let through; the theorems about the
  limit therefore ask for \<open>maxStreamSize \<le> max_int64 - MaxChunkSize\<close>.
\<close>

lemma limit_check_wraps:
  assumes "fill r buf w = ((n, eof, None, buf'), w1)" "write_frame wr (chunk_frame (take n buf')) w1 = (None, w2)"
    and "tot \<le> mx" "mx < tot + int n" "mx \<le> max_int64" "2 ^ 63 \<le> tot + int n" "int n \<le> MaxChunkSize"
  shows "stream_loop wr r mx buf tot w =
    (if eof then Some (finish_stream wr (tot + int n - 2 ^ 64) w2)
     else stream_loop wr r mx buf' (tot + int n - 2 ^ 64) w2)"
proof -
  have i: "i64 (tot + int n) = tot + int n - 2 ^ 64"
    by (rule i64_wraps) (use assms in \<open>simp_all add: MaxChunkSize_def\<close>)
  with assms have "\<not> mx < i64 (tot + int n)" "0 < n" by (auto simp: MaxChunkSize_def)
  with assms(1,2) i show ?thesis by (subst stream_loop.simps) auto
qed

end
