(* ===== verification/Framing.thy ===== *)
theory Framing
  imports Proto
begin

text \<open>
  The contract of the INSTREAM framing (\<open>internal/proto/proto.go\<close>): what a peer decodes from the
  bytes of a stream (\<open>decode_frames\<close>), what every run of \<open>StreamAll\<close>, finished or not, leaves on the
  wire (\<open>streamed\<close>), and the interfaces of the writer and the reader it runs on, with what it
  does for each: \<open>frame_sink\<close> and \<open>data_source\<close>, together \<open>streaming\<close>; \<open>failing_source\<close>; \<open>ending_source\<close>,
  for which it returns; and \<open>flowing\<close>, a connection and a source with which nothing fails.
\<close>

subsection \<open>What the peer decodes\<close>

text \<open>
  The framing read back: the payload and the bytes after the terminator, or \<open>None\<close> while
  the stream is not complete. This is the contract of INSTREAM, written as a decoder; the
  theorems are about what it makes of the bytes \<open>StreamAll\<close> has written.
\<close>

function decode_frames :: "bytes \<Rightarrow> (bytes \<times> bytes) option" where
  "decode_frames bs =
     (if length bs < 4 then None
      else let n = unat (be_get32 bs); rest = drop 4 bs in
        if n = 0 then Some ([], rest)
        else if length rest < n then None
        else map_option (\<lambda>(p, r). (take n rest @ p, r)) (decode_frames (drop n rest)))"
  by pat_completeness auto
termination
  by (relation "measure length") auto

declare decode_frames.simps [simp del]

definition frames :: "bytes list \<Rightarrow> bytes" where
  "frames cs = concat (map chunk_frame cs)"

definition chunk_ok :: "nat \<Rightarrow> bytes \<Rightarrow> bool" where
  "chunk_ok K p \<longleftrightarrow> 0 < length p \<and> length p \<le> K"

lemma frames_simps [simp]:
  "frames [] = []" "frames (c # cs) = chunk_frame c @ frames cs"
  by (simp_all add: frames_def)

lemma length_chunk_frame [simp]: "length (chunk_frame p) = 4 + length p"
  by (simp add: chunk_frame_def)

lemma length_terminator [simp]: "length terminator = 4"
  by (simp add: terminator_def)

lemma decode_terminator [wire_simps]: "decode_frames (terminator @ rest) = Some ([], rest)"
  by (simp add: decode_frames.simps [of "be_put32 0 @ rest"] terminator_def)

lemma decode_short [wire_simps]: "length bs < 4 \<Longrightarrow> decode_frames bs = None"
  by (simp add: decode_frames.simps [of bs])

lemma decode_chunk [wire_simps]:
  assumes "0 < length p" "length p < 2 ^ 32"
  shows "decode_frames (chunk_frame p @ rest) =
    map_option (\<lambda>(q, r). (p @ q, r)) (decode_frames rest)"
proof -
  have "unat (word_of_nat (length p) :: 32 word) = length p"
    using assms(2) by (simp add: unat_of_nat)
  with assms(1) show ?thesis
    by (simp add: decode_frames.simps [of "be_put32 (word_of_nat (length p)) @ p @ rest"]
        chunk_frame_def Let_def)
qed

lemma decode_cut_chunk [wire_simps]:
  assumes "0 < length p" "length p < 2 ^ 32"
  shows "decode_frames (take k (chunk_frame p)) = None"
proof -
  have n: "unat (word_of_nat (length p) :: 32 word) = length p"
    using assms(2) by (simp add: unat_of_nat)
  consider "k < 4" | "4 \<le> k" "k - 4 < length p" | "4 + length p \<le> k" by linarith
  then show ?thesis
  proof cases
    case 1
    then show ?thesis by (simp add: decode_short)
  next
    case 2
    then have "take k (chunk_frame p) = be_put32 (word_of_nat (length p)) @ take (k - 4) p"
      by (simp add: chunk_frame_def)
    with 2 n assms(1) show ?thesis
      by (simp add: decode_frames.simps [of "be_put32 (word_of_nat (length p)) @ take (k - 4) p"]
          Let_def)
  next
    case 3
    then show ?thesis
      using decode_chunk [OF assms, of "[]"] by (simp add: decode_short)
  qed
qed

lemma decode_frames_append:
  assumes "\<forall>c \<in> set cs. chunk_ok K c" "K < 2 ^ 32"
  shows "decode_frames (frames cs @ rest) =
    map_option (\<lambda>(q, r). (concat cs @ q, r)) (decode_frames rest)"
  using assms(1)
proof (induction cs)
  case Nil
  show ?case by (simp add: option.map_ident_strong)
next
  case (Cons c cs)
  then have "0 < length c" "length c < 2 ^ 32" using assms(2) by (auto simp: chunk_ok_def)
  then show ?case
    using Cons by (simp add: decode_chunk option.map_comp comp_def case_prod_unfold)
qed

subsection \<open>What a run of \<open>StreamAll\<close> leaves on the wire\<close>

text \<open>
  \<open>streamed K lim err out del fin\<close>: the bytes \<open>out\<close> accepted and the bytes \<open>del\<close> delivered
  during a run that ended with \<open>err\<close>, where \<open>fin\<close> says whether the source reported its end:
  \<open>out\<close> is complete frames of the front of \<open>del\<close>, each chunk between 1 and \<open>K\<close> bytes and all
  of them within the limit, followed either by (a front of) the terminator, and then
  \<open>del\<close> was framed whole and the source had ended, or, when there was an error, by a front of
  one more frame.
\<close>

definition fits :: "nat option \<Rightarrow> nat \<Rightarrow> bool" where
  "fits lim n = (case lim of None \<Rightarrow> True | Some m \<Rightarrow> n \<le> m)"

definition limit_left :: "int \<Rightarrow> int \<Rightarrow> nat option" where
  "limit_left maxBytes tot = (if maxBytes \<ge> 0 then Some (nat (maxBytes - tot)) else None)"

definition cut_tail :: "nat \<Rightarrow> nat option \<Rightarrow> nat \<Rightarrow> bytes \<Rightarrow> bool" where
  "cut_tail K lim n tail \<longleftrightarrow>
     (\<exists>p k. tail = take k (chunk_frame p) \<and> chunk_ok K p \<and> fits lim (n + length p)) \<or> tail = []"

definition streamed ::
  "nat \<Rightarrow> nat option \<Rightarrow> goerr option \<Rightarrow> bytes \<Rightarrow> bytes \<Rightarrow> bool \<Rightarrow> bool" where
  "streamed K lim err out del fin \<longleftrightarrow>
     (\<exists>cs tail d. out = frames cs @ tail \<and> del = concat cs @ d \<and>
        (\<forall>c \<in> set cs. chunk_ok K c) \<and> fits lim (length (concat cs)) \<and>
        ((\<exists>k. tail = take k terminator) \<and> d = [] \<and> fin \<and> (err = None \<longrightarrow> tail = terminator) \<or>
         err \<noteq> None \<and> cut_tail K lim (length (concat cs)) tail))"

lemma fits_add [simp]:
  "fits (Some m) n \<longleftrightarrow> n \<le> m" "fits None n"
  by (simp_all add: fits_def)

lemma streamed_stop:
  "err \<noteq> None \<Longrightarrow> streamed K lim err [] del fin"
  unfolding streamed_def
  by (rule exI [of _ "[]"], rule exI [of _ "[]"], rule exI [of _ del])
     (auto simp: cut_tail_def fits_def split: option.splits)

lemma streamed_cut:
  assumes "chunk_ok K p" "fits lim (length p)" "err \<noteq> None"
  shows "streamed K lim err (take k (chunk_frame p)) del fin"
  unfolding streamed_def
  by (rule exI [of _ "[]"], rule exI [of _ "take k (chunk_frame p)"], rule exI [of _ del])
     (use assms in \<open>auto simp: cut_tail_def fits_def split: option.splits\<close>)

lemma streamed_end:
  assumes "err = None \<longrightarrow> 4 \<le> k"
  shows "streamed K lim err (take k terminator) [] True"
  unfolding streamed_def
  by (rule exI [of _ "[]"], rule exI [of _ "take k terminator"], rule exI [of _ "[]"])
     (use assms in \<open>auto simp: fits_def split: option.splits\<close>)

lemma streamed_chunk:
  assumes "streamed K lim' err out del fin" "chunk_ok K p"
    "lim = map_option (\<lambda>m. m + length p) lim'"
  shows "streamed K lim err (chunk_frame p @ out) (p @ del) fin"
proof -
  from assms(1) obtain cs tail d where
    *: "out = frames cs @ tail" "del = concat cs @ d" "\<forall>c \<in> set cs. chunk_ok K c"
      "fits lim' (length (concat cs))"
    and t: "(\<exists>k. tail = take k terminator) \<and> d = [] \<and> fin \<and> (err = None \<longrightarrow> tail = terminator) \<or>
         err \<noteq> None \<and> cut_tail K lim' (length (concat cs)) tail"
    unfolding streamed_def by blast
  have shift: "fits lim (n + length p) \<longleftrightarrow> fits lim' n" for n
    using assms(3) by (cases lim') auto
  have "cut_tail K lim (length (concat (p # cs))) tail"
    if "cut_tail K lim' (length (concat cs)) tail"
    using that unfolding cut_tail_def
    by (simp add: add.commute [of "length p"] add.assoc shift flip: shift)
  then show ?thesis
    unfolding streamed_def
    by (intro exI [of _ "p # cs"] exI [of _ tail] exI [of _ d])
       (use * t assms(2) shift [of "length (concat cs)"] in \<open>auto simp: add.commute\<close>)
qed

text \<open>The same when the round may have sent no chunk.\<close>

lemma streamed_round:
  assumes "streamed K lim' err out del fin" "length p = n" "n \<le> K" "lim = map_option (\<lambda>m. m + n) lim'"
  shows "streamed K lim err ((if n = 0 then [] else chunk_frame p) @ out) (p @ del) fin"
proof (cases "n = 0")
  case True
  with assms show ?thesis by (cases lim') auto
next
  case False
  with assms(2,3) have "chunk_ok K p" by (simp add: chunk_ok_def)
  from streamed_chunk [OF assms(1) this] assms(2,4) False show ?thesis by simp
qed

lemma decode_streamed_tail:
  assumes "K < 2 ^ 32" "cut_tail K lim n tail"
  shows "decode_frames tail = None"
  using assms unfolding cut_tail_def
  by (auto simp: chunk_ok_def decode_cut_chunk decode_short)

lemma decode_streamed:
  assumes "streamed K lim err out del fin" "K < 2 ^ 32" "decode_frames out = Some (body, rest)"
  shows "body = del \<and> rest = [] \<and> fin"
proof -
  from assms(1) obtain cs tail d where
    *: "out = frames cs @ tail" "del = concat cs @ d" "\<forall>c \<in> set cs. chunk_ok K c"
    and t: "(\<exists>k. tail = take k terminator) \<and> d = [] \<and> fin \<or> cut_tail K lim (length (concat cs)) tail"
    unfolding streamed_def by blast
  have dec: "decode_frames out = map_option (\<lambda>(q, r). (concat cs @ q, r)) (decode_frames tail)"
    using decode_frames_append [OF *(3) assms(2)] *(1) by simp
  with assms(3) have "decode_frames tail \<noteq> None" by auto
  then have "\<not> cut_tail K lim (length (concat cs)) tail"
    using decode_streamed_tail [OF assms(2), of lim "length (concat cs)" tail] by auto
  with t obtain k where k: "tail = take k terminator" "d = []" fin by blast
  have "decode_frames tail = Some ([], [])"
  proof (cases "k < 4")
    case True
    then have "decode_frames tail = None" by (simp add: k(1) decode_short)
    with dec assms(3) show ?thesis by simp
  next
    case False
    then show ?thesis using decode_terminator [of "[]"] by (simp add: k(1))
  qed
  with dec assms(3) * k show ?thesis by auto
qed

lemma decode_streamed_ok:
  assumes "streamed K lim None out del fin" "K < 2 ^ 32"
  shows "decode_frames out = Some (del, []) \<and> fin"
proof -
  from assms(1) obtain cs where
    *: "out = frames cs @ terminator" "del = concat cs" "\<forall>c \<in> set cs. chunk_ok K c" fin
    unfolding streamed_def by auto
  then show ?thesis
    using decode_frames_append [OF *(3) assms(2), of terminator] decode_terminator [of "[]"] by simp
qed

text \<open>
  The payload bytes in a possibly incomplete run of frames, those of a cut last frame
  included: what the peer has been sent of the data so far.
\<close>

function payload_sent :: "bytes \<Rightarrow> nat" where
  "payload_sent bs =
     (if length bs < 4 then 0
      else let n = unat (be_get32 bs); rest = drop 4 bs in
        if n = 0 then 0 else min n (length rest) + payload_sent (drop n rest))"
  by pat_completeness auto
termination
  by (relation "measure length") auto

declare payload_sent.simps [simp del]

lemma payload_sent_short: "length bs < 4 \<Longrightarrow> payload_sent bs = 0"
  by (simp add: payload_sent.simps [of bs])

lemma payload_sent_chunk:
  assumes "chunk_ok K p" "K < 2 ^ 32"
  shows "payload_sent (chunk_frame p @ rest) = length p + payload_sent rest"
proof -
  have "unat (word_of_nat (length p) :: 32 word) = length p"
    using assms by (simp add: unat_of_nat chunk_ok_def)
  with assms show ?thesis
    by (simp add: payload_sent.simps [of "be_put32 (word_of_nat (length p)) @ p @ rest"]
        chunk_frame_def Let_def chunk_ok_def)
qed

lemma payload_sent_cut:
  assumes "chunk_ok K p" "K < 2 ^ 32"
  shows "payload_sent (take k (chunk_frame p)) \<le> length p"
proof -
  have n: "unat (word_of_nat (length p) :: 32 word) = length p"
    using assms by (simp add: unat_of_nat chunk_ok_def)
  show ?thesis
  proof (cases "k < 4")
    case True
    then show ?thesis by (simp add: payload_sent_short)
  next
    case False
    then have "take k (chunk_frame p) = be_put32 (word_of_nat (length p)) @ take (k - 4) p"
      by (simp add: chunk_frame_def)
    with n assms show ?thesis
      by (simp add: payload_sent.simps [of "be_put32 (word_of_nat (length p)) @ take (k - 4) p"]
          Let_def chunk_ok_def payload_sent_short)
  qed
qed

lemma payload_sent_terminator: "payload_sent (take k terminator) = 0"
proof (cases "k < 4")
  case True
  then show ?thesis by (simp add: payload_sent_short)
next
  case False
  then have "take k terminator = be_put32 0" by (simp add: terminator_def)
  then show ?thesis by (simp add: payload_sent.simps [of "be_put32 0"])
qed

lemma payload_sent_frames:
  assumes "\<forall>c \<in> set cs. chunk_ok K c" "K < 2 ^ 32"
  shows "payload_sent (frames cs @ rest) = length (concat cs) + payload_sent rest"
  using assms(1) by (induction cs) (auto simp: payload_sent_chunk [OF _ assms(2)])

lemma streamed_payload:
  assumes "streamed K (Some m) err out del fin" "K < 2 ^ 32"
  shows "payload_sent out \<le> m"
proof -
  from assms(1) obtain cs tail where
    *: "out = frames cs @ tail" "\<forall>c \<in> set cs. chunk_ok K c" "length (concat cs) \<le> m"
    and t: "(\<exists>k. tail = take k terminator) \<or> cut_tail K (Some m) (length (concat cs)) tail"
    unfolding streamed_def fits_add by blast
  have "payload_sent tail \<le> m - length (concat cs)"
    using t unfolding cut_tail_def
  proof (elim disjE exE conjE)
    fix p k
    assume p: "tail = take k (chunk_frame p)" "chunk_ok K p" "fits (Some m) (length (concat cs) + length p)"
    with payload_sent_cut [OF p(2) assms(2), of k] show ?thesis by simp
  qed (simp_all add: payload_sent_terminator payload_sent_short)
  with * payload_sent_frames [OF *(2) assms(2), of tail] show ?thesis by simp
qed

subsection \<open>The writer and the reader, as interfaces\<close>

locale frame_sink =
  fixes wr :: "'w writer" and accepted :: "'w \<Rightarrow> bytes"
  assumes write_accepts:
    "wr w bs = ((wn, e), w') \<Longrightarrow>
       \<exists>k \<le> length bs. accepted w' = accepted w @ take k bs \<and>
         (e = None \<and> wn = int (length bs) \<longrightarrow> k = length bs)"
begin

lemma write_frame_ok:
  "write_frame wr bs w = (None, w') \<Longrightarrow> accepted w' = accepted w @ bs"
  by (auto simp: write_frame_def split: prod.splits option.splits if_splits dest: write_accepts)

lemma write_frame_cut:
  "write_frame wr bs w = (e, w') \<Longrightarrow> \<exists>k. accepted w' = accepted w @ take k bs"
  by (auto simp: write_frame_def split: prod.splits option.splits if_splits dest!: write_accepts)

end

locale data_source =
  fixes r :: "'w reader" and delivered :: "'w \<Rightarrow> bytes" and ended :: "'w \<Rightarrow> bool"
  assumes read_delivers:
    "r w k = ((nn, data, e), w') \<Longrightarrow> 0 \<le> nn \<Longrightarrow> nn \<le> int k \<Longrightarrow>
       nat nn \<le> length data \<and> delivered w' = delivered w @ take (nat nn) data \<and>
       (e = Some IoEOF \<longrightarrow> ended w')"
    and read_rejected:
    "r w k = ((nn, data, e), w') \<Longrightarrow> nn < 0 \<or> nn > int k \<Longrightarrow> delivered w' = delivered w"
begin

text \<open>A valid read stores what it delivered behind the first \<open>n\<close> bytes of the buffer.\<close>

lemma read_stored:
  assumes "r w (length buf - n) = ((int m, data, e), w1)" "n < length buf" "m \<le> length buf - n"
  shows "take n (store buf n data) = take n buf" "e = Some IoEOF \<Longrightarrow> ended w1"
    "delivered w1 = delivered w @ drop n (take (n + m) (store buf n data))"
proof -
  have d: "m \<le> length data" "delivered w1 = delivered w @ take m data" "e = Some IoEOF \<longrightarrow> ended w1"
    using read_delivers [OF assms(1)] assms(3) by simp_all
  show "take n (store buf n data) = take n buf" using assms(2) by (simp add: store_def)
  show "e = Some IoEOF \<Longrightarrow> ended w1" using d(3) by simp
  have "take (n + m) (store buf n data) = take n buf @ take m data"
    using assms(2,3) d(1) by (intro take_store) auto
  then show "delivered w1 = delivered w @ drop n (take (n + m) (store buf n data))"
    using d(2) assms(2) by simp
qed

lemma fill_loop_delivers:
  assumes "fill_loop r buf n empties w = ((n', eof, err, buf'), w')" "n \<le> length buf"
  shows "length buf' = length buf \<and> n \<le> n' \<and> n' \<le> length buf \<and>
    take n buf' = take n buf \<and> delivered w' = delivered w @ drop n (take n' buf') \<and>
    (eof \<longrightarrow> ended w' \<and> err = None) \<and> (\<not> eof \<and> err = None \<longrightarrow> n' = length buf)"
  using assms
proof (induction rule: fill_loop_rule)
  case (bad buf n w nn data rerr w1)
  with read_rejected [OF bad(2,3)] show ?case by (auto simp: store_def)
next
  case (stop buf n w m data e w1)
  with read_stored [OF stop(2,1,3)] show ?case by auto
next
  case (stall buf n w data w1)
  with read_stored [of w buf n 0 data None w1] show ?case by auto
next
  case (more buf n w m data w1 n' eof err buf' w')
  let ?b = "store buf n data"
  note rs = read_stored [OF more(2,1,3)]
  from more have IH: "length buf' = length buf" "n + m \<le> n'" "n' \<le> length buf"
    "take (n + m) buf' = take (n + m) ?b" "delivered w' = delivered w1 @ drop (n + m) (take n' buf')"
    "eof \<longrightarrow> ended w' \<and> err = None" "\<not> eof \<and> err = None \<longrightarrow> n' = length buf"
    by auto
  have "take n buf' = take n buf" using arg_cong [OF IH(4), of "take n"] rs(1) by simp
  moreover have "drop n (take n' buf') = drop n (take (n + m) buf') @ drop (n + m) (take n' buf')"
    by (rule drop_take_split) (use IH(2) in auto)
  ultimately show ?case using IH rs(3) by simp
qed auto

end

text \<open>A writer and a reader over one state that leave each other's record alone.\<close>

locale streaming = frame_sink wr accepted + data_source r delivered ended
  for wr :: "'w writer" and accepted and r :: "'w reader" and delivered and ended +
  assumes write_other: "wr w bs = (res, w') \<Longrightarrow> delivered w' = delivered w \<and> ended w' = ended w"
    and read_other: "r w k = (got, w') \<Longrightarrow> accepted w' = accepted w"
begin

lemma fill_delivers:
  assumes "fill r buf w = ((n, eof, err, buf'), w')"
  shows "length buf' = length buf" "n \<le> length buf" "delivered w' = delivered w @ take n buf'"
    "eof \<Longrightarrow> ended w'" "\<not> eof \<Longrightarrow> err = None \<Longrightarrow> n = length buf" "accepted w' = accepted w"
proof -
  from assms have run: "fill_loop r buf 0 0 w = ((n, eof, err, buf'), w')"
    by (simp add: fill_def)
  from fill_loop_delivers [OF this]
  show "length buf' = length buf" "n \<le> length buf" "delivered w' = delivered w @ take n buf'"
    "eof \<Longrightarrow> ended w'" "\<not> eof \<Longrightarrow> err = None \<Longrightarrow> n = length buf"
    by auto
  show "accepted w' = accepted w"
    using fill_loop_preserves [of "\<lambda>x. accepted x = accepted w" r, OF _ run] read_other by auto
qed

lemma write_frame_other:
  "write_frame wr bs w = (res, w') \<Longrightarrow> delivered w' = delivered w \<and> ended w' = ended w"
  using write_other by (fastforce simp: write_frame_def split: prod.splits option.splits if_splits)

lemma sent_chunk:
  assumes "fill r buf w = ((n, eof, None, buf'), w1)"
    "n = 0 \<and> w2 = w1 \<or> 0 < n \<and> write_frame wr (chunk_frame (take n buf')) w1 = (None, w2)"
  shows "delivered w2 = delivered w @ take n buf'" "ended w2 = ended w1"
    "accepted w2 = accepted w @ (if n = 0 then [] else chunk_frame (take n buf'))"
    "length (take n buf') = n"
  using assms(2) fill_delivers [OF assms(1)] write_frame_ok write_frame_other by force+

lemma write_terminator:
  assumes "write_frame wr terminator w = (e, w')"
  shows "\<exists>k. accepted w' = accepted w @ take k terminator \<and> (e = None \<longrightarrow> 4 \<le> k)"
proof (cases e)
  case None
  with write_frame_ok assms have "accepted w' = accepted w @ take 4 terminator" by simp
  then show ?thesis by blast
next
  case (Some x)
  with write_frame_cut [OF assms] show ?thesis by auto
qed

lemma limit_step:
  assumes "mx \<ge> 0 \<longrightarrow> 0 \<le> tot \<and> tot \<le> mx" "0 \<le> mx \<Longrightarrow> i64 (tot + int n) \<le> mx"
    "n \<le> K" "mx + int K \<le> max_int64"
  shows "mx \<ge> 0 \<longrightarrow> i64 (tot + int n) = tot + int n \<and> 0 \<le> tot + int n \<and> tot + int n \<le> mx"
    "limit_left mx tot = map_option (\<lambda>m. m + n) (limit_left mx (tot + int n))"
    "fits (limit_left mx tot) n"
proof -
  have *: "i64 (tot + int n) = tot + int n \<and> 0 \<le> tot + int n \<and> tot + int n \<le> mx" if "mx \<ge> 0"
  proof -
    have "tot + int n \<le> max_int64" "0 \<le> tot + int n" using assms that by auto
    then have "i64 (tot + int n) = tot + int n" by (intro i64_id) auto
    with that assms(2) \<open>0 \<le> tot + int n\<close> show ?thesis by auto
  qed
  then show "mx \<ge> 0 \<longrightarrow> i64 (tot + int n) = tot + int n \<and> 0 \<le> tot + int n \<and> tot + int n \<le> mx"
    by blast
  from * show "limit_left mx tot = map_option (\<lambda>m. m + n) (limit_left mx (tot + int n))"
    "fits (limit_left mx tot) n"
    by (auto simp: limit_left_def nat_diff_distrib)
qed

text \<open>The main invariant of the loop: whatever happens, what is on the wire is \<open>streamed\<close>.\<close>

lemma stream_loop_streamed:
  assumes "stream_loop wr r mx buf tot w = Some ((tot', e), w')" "length buf = K"
    "mx \<ge> 0 \<longrightarrow> 0 \<le> tot \<and> tot \<le> mx" "mx + int K \<le> max_int64"
  shows "\<exists>out del. accepted w' = accepted w @ out \<and> delivered w' = delivered w @ del \<and>
    streamed K (limit_left mx tot) e out del (ended w') \<and>
    (e = None \<longrightarrow> tot' = i64 (tot + int (length del)))"
  using assms
proof (induction rule: stream_loop_rule)
  case (over buf tot w n eof rerr buf' w1)
  then show ?case using fill_delivers [OF over(1)] streamed_stop by fastforce
next
  case (source buf tot w n eof e buf' w1)
  then show ?case using fill_delivers [OF source(1)] streamed_stop by fastforce
next
  case (cut buf tot w n eof buf' w1 e w2)
  note f = fill_delivers [OF cut(1)]
  obtain k where k: "accepted w2 = accepted w1 @ take k (chunk_frame (take n buf'))"
    using write_frame_cut [OF cut(4)] by blast
  have n: "chunk_ok K (take n buf')" "length (take n buf') = n" "n \<le> K"
    using f cut by (auto simp: chunk_ok_def)
  have "fits (limit_left mx tot) (length (take n buf'))"
    using limit_step(3) [OF cut(6) cut(2) n(3) cut(7)] n(2) by simp
  from streamed_cut [OF n(1) this, of "Some e" k "take n buf'" "ended w2"]
  show ?case using k f write_frame_other [OF cut(4)] by auto
next
  case (last buf tot w n buf' w1 w2 e w3)
  note f = fill_delivers [OF last(1)] and s = sent_chunk [OF last(1,3)]
  have fin: "ended w3" using f s write_frame_other [OF last(4)] by simp
  from write_terminator [OF last(4)] obtain k where k: "accepted w3 = accepted w2 @ take k terminator" "e = None \<longrightarrow> 4 \<le> k"
    by blast
  have n: "n \<le> K" using f last by simp
  note lim = limit_step [OF last(6) last(2) n last(7)]
  have "streamed K (limit_left mx tot) e
      ((if n = 0 then [] else chunk_frame (take n buf')) @ take k terminator) (take n buf' @ []) True"
    by (rule streamed_round [OF streamed_end [OF k(2)] s(4) n lim(2)])
  then show ?case
    using k(1) s fin write_frame_other [OF last(4)] by auto
next
  case (more buf tot w n buf' w1 w2 tot' e w')
  note f = fill_delivers [OF more(1)] and s = sent_chunk [OF more(1,3)]
  have n: "n \<le> K" "n = K" using f more by simp_all
  note lim = limit_step [OF more(6) more(2) n(1) more(7)]
  let ?t = "i64 (tot + int n)" and ?p = "take n buf'"
  have t: "limit_left mx ?t = limit_left mx (tot + int n)"
    using lim(1) by (auto simp: limit_left_def)
  obtain out del where od: "accepted w' = accepted w2 @ out" "delivered w' = delivered w2 @ del"
    "streamed K (limit_left mx ?t) e out del (ended w')"
    "e = None \<longrightarrow> tot' = i64 (?t + int (length del))"
    using more(4) lim(1) f more(5,7) by auto
  have "streamed K (limit_left mx tot) e ((if n = 0 then [] else chunk_frame ?p) @ out) (?p @ del) (ended w')"
    by (rule streamed_round [OF od(3) [unfolded t] s(4) n(1) lim(2)])
  moreover have "e = None \<longrightarrow> tot' = i64 (tot + int (length (?p @ del)))"
    using od(4) s(4) by (simp add: add.assoc)
  ultimately show ?case
    by (intro exI [of _ "(if n = 0 then [] else chunk_frame ?p) @ out"] exI [of _ "?p @ del"])
      (use od s in auto)
qed

lemma StreamAll_streamed:
  assumes "StreamAll wr r chunkSize mx w = Some ((n, e), w')" "mx \<le> max_int64 - MaxChunkSize"
  shows "\<exists>out del. accepted w' = accepted w @ out \<and> delivered w' = delivered w @ del \<and>
    streamed (nat (clamp_chunk chunkSize)) (limit_left mx 0) e out del (ended w') \<and>
    (e = None \<longrightarrow> n = i64 (int (length del)))"
proof -
  have "\<exists>out del. accepted w' = accepted w @ out \<and> delivered w' = delivered w @ del \<and>
    streamed (nat (clamp_chunk chunkSize)) (limit_left mx 0) e out del (ended w') \<and>
    (e = None \<longrightarrow> n = i64 (0 + int (length del)))"
    by (rule stream_loop_streamed [OF assms(1) [unfolded StreamAll_def]])
      (use assms(2) clamp_chunk_range [of chunkSize] in auto)
  then show ?thesis by simp
qed

text \<open>
  A run that the size limit or the source ends has sent whole chunks only: no part of a
  frame, and no byte of a terminator.
\<close>

lemma stream_loop_refused:
  assumes "stream_loop wr r mx buf tot w = Some ((tot', e), w')" "length buf = K"
    "e = Some ProtoErrSizeLimitExceeded \<or> (\<exists>x. e = Some (SourceError x))"
  shows "\<exists>cs. accepted w' = accepted w @ frames cs \<and> (\<forall>c \<in> set cs. chunk_ok K c)"
  using assms
proof (induction rule: stream_loop_rule)
  case (over buf tot w n eof rerr buf' w1)
  then show ?case using fill_delivers(6) by (intro exI [of _ "[]"]) auto
next
  case (source buf tot w n eof e buf' w1)
  then show ?case using fill_delivers(6) by (intro exI [of _ "[]"]) auto
next
  case (cut buf tot w n eof buf' w1 e w2)
  from write_frame_SinkError [OF cut(4)] cut.prems(2) show ?case by auto
next
  case (last buf tot w n buf' w1 w2 e w3)
  then show ?case using write_frame_SinkError [of wr terminator w2 _ w3] by auto
next
  case (more buf tot w n buf' w1 w2 tot' e w')
  note f = fill_delivers [OF more(1)]
  from more.IH more.prems f(1) obtain cs where
    cs: "accepted w' = accepted w2 @ frames cs" "\<forall>c \<in> set cs. chunk_ok K c" by auto
  note sc = sent_chunk [OF more(1,3)]
  show ?case
  proof (cases "n = 0")
    case True
    with cs sc show ?thesis by (intro exI [of _ cs]) simp
  next
    case False
    then have "chunk_ok K (take n buf')" using f more.prems(1) by (simp add: chunk_ok_def)
    with False cs sc show ?thesis by (intro exI [of _ "take n buf' # cs"]) simp
  qed
qed

lemma StreamAll_refused:
  assumes "StreamAll wr r chunkSize mx w = Some ((n, e), w')"
    "e = Some ProtoErrSizeLimitExceeded \<or> (\<exists>x. e = Some (SourceError x))"
  shows "\<exists>cs. accepted w' = accepted w @ frames cs \<and> (\<forall>c \<in> set cs. chunk_ok (nat (clamp_chunk chunkSize)) c)"
  using stream_loop_refused [OF assms(1) [unfolded StreamAll_def] _ assms(2)] by simp

text \<open>
  The limit is reported for a source that delivered more than the limit, and for no other; a failure
  of the source is reported while it has not.
\<close>

lemma stream_loop_over:
  assumes "stream_loop wr r mx buf tot w = Some ((tot', e), w')" "e = Some ProtoErrSizeLimitExceeded"
    "- (2 ^ 63) \<le> tot"
  shows "0 \<le> mx \<and> mx < tot + (int (length (delivered w')) - int (length (delivered w)))"
  using assms
proof (induction rule: stream_loop_rule)
  case (over buf tot w n eof rerr buf' w1)
  note f = fill_delivers [OF over(1)]
  have "i64 (tot + int n) \<le> tot + int n" by (rule i64_le) (use over(5) in simp)
  moreover have "int (length (delivered w1)) - int (length (delivered w)) = int n" using f(1-3) by simp
  ultimately show ?case using over(2,3) by simp
next
  case (cut buf tot w n eof buf' w1 e w2)
  from write_frame_SinkError [OF cut(4)] cut.prems(1) show ?case by auto
next
  case (last buf tot w n buf' w1 w2 e w3)
  then show ?case using write_frame_SinkError [of wr terminator w2 _ w3] by auto
next
  case (more buf tot w n buf' w1 w2 tot' e w')
  note f = fill_delivers [OF more(1)] and s = sent_chunk [OF more(1,3)]
  have "int (length (delivered w2)) = int (length (delivered w)) + int n" using s by simp
  moreover have "i64 (tot + int n) \<le> tot + int n" by (rule i64_le) (use more(6) in simp)
  moreover have "0 \<le> mx \<and> mx < i64 (tot + int n) + (int (length (delivered w')) - int (length (delivered w2)))"
    by (rule more(4) [OF more(5) i64_range(1)])
  ultimately show ?case by linarith
qed simp

lemma stream_loop_source:
  assumes "stream_loop wr r mx buf tot w = Some ((tot', e), w')" "e = Some (SourceError x)" "length buf = K"
    "0 \<le> mx" "0 \<le> tot \<and> tot \<le> mx" "mx + int K \<le> max_int64"
  shows "tot + (int (length (delivered w')) - int (length (delivered w))) \<le> mx"
  using assms
proof (induction rule: stream_loop_rule)
  case (source buf tot w n eof e buf' w1)
  note f = fill_delivers [OF source(1)]
  have n: "n \<le> K" using f(2) source(4) by simp
  from limit_step(1) [OF _ source(2) n source(7)] source(5,6) have "tot + int n \<le> mx" by simp
  moreover have "int (length (delivered w1)) - int (length (delivered w)) = int n" using f(1-3) by simp
  ultimately show ?case by simp
next
  case (cut buf tot w n eof buf' w1 e w2)
  from write_frame_SinkError [OF cut(4)] cut.prems(1) show ?case by auto
next
  case (last buf tot w n buf' w1 w2 e w3)
  then show ?case using write_frame_SinkError [of wr terminator w2 _ w3] by auto
next
  case (more buf tot w n buf' w1 w2 tot' e w')
  note f = fill_delivers [OF more(1)] and s = sent_chunk [OF more(1,3)]
  have n: "n \<le> K" using f(2) more(6) by simp
  have lim: "i64 (tot + int n) = tot + int n" "0 \<le> tot + int n \<and> tot + int n \<le> mx"
    using limit_step(1) [OF _ more(2) n more(9)] more(7,8) by simp_all
  have "int (length (delivered w2)) = int (length (delivered w)) + int n" using s by simp
  moreover have "i64 (tot + int n) + (int (length (delivered w')) - int (length (delivered w2))) \<le> mx"
    by (rule more(4)) (use more.prems f(1) lim in simp_all)
  ultimately show ?case using lim(1) by simp
qed simp_all

lemma StreamAll_limit:
  assumes "StreamAll wr r chunkSize mx w = Some ((n, e), w')"
  defines "new \<equiv> int (length (delivered w')) - int (length (delivered w))"
  shows "e = Some ProtoErrSizeLimitExceeded \<Longrightarrow> 0 \<le> mx \<and> mx < new"
    "e = Some (SourceError x) \<Longrightarrow> mx \<le> max_int64 - MaxChunkSize \<Longrightarrow> 0 \<le> mx \<Longrightarrow> new \<le> mx"
proof -
  note run = assms(1) [unfolded StreamAll_def]
  show "0 \<le> mx \<and> mx < new" if "e = Some ProtoErrSizeLimitExceeded"
    using stream_loop_over [OF run that] by (simp add: new_def)
  show "new \<le> mx" if "e = Some (SourceError x)" "mx \<le> max_int64 - MaxChunkSize" "0 \<le> mx"
    using stream_loop_source [OF run that(1) refl that(3)] that(2,3) clamp_chunk_range [of chunkSize]
    by (simp add: new_def)
qed

end

subsection \<open>A source that fails\<close>

text \<open>
  The failure of a source is the error its last read gave, with a count that is possible, or one
  with which the reader refuses to read on (\<open>own\<close>). Nothing is read after it, and the stream ends
  with it, unless the bytes that came with it already exceed the limit.
\<close>

locale failing_source =
  fixes wr :: "'w writer" and r :: "'w reader" and failed :: "'w \<Rightarrow> goerr option" and own :: "goerr \<Rightarrow> bool"
  assumes read_failed: "r w k = ((nn, data, e), w') \<Longrightarrow>
      failed w' = (if 0 \<le> nn \<and> nn \<le> int k \<and> e \<noteq> None \<and> e \<noteq> Some IoEOF then e else failed w) \<or>
      failed w' = failed w \<and> (\<exists>x. e = Some x \<and> own x)"
    and write_failed: "wr w bs = (ans, w') \<Longrightarrow> failed w' = failed w"
begin

lemma fill_loop_failed:
  assumes "fill_loop r buf n empties w = ((n', eof, err, buf'), w')"
  shows "failed w' = failed w \<and> (\<forall>x. err = Some x \<longrightarrow> x = ErrInvalidRead \<or> x = IoErrNoProgress \<or> own x) \<or>
    (\<exists>x. err = Some x \<and> failed w' = Some x)"
  using assms
proof (induction rule: fill_loop_rule)
  case (bad buf n w nn data rerr w1)
  then show ?case using read_failed [OF bad(2)] by auto
next
  case (stop buf n w m data e w1)
  then show ?case using read_failed [OF stop(2)] by (auto split: if_splits)
next
  case (stall buf n w data w1)
  then show ?case using read_failed [OF stall(2)] by auto
next
  case (more buf n w m data w1 n' eof err buf' w')
  then show ?case using read_failed [OF more(2)] by auto
qed auto

lemma write_frame_failed: "write_frame wr bs w = (e, w') \<Longrightarrow> failed w' = failed w"
  using write_failed by (auto simp: write_frame_def split: if_splits prod.splits option.splits)

lemma stream_loop_failed:
  assumes "stream_loop wr r mx buf tot w = Some ((tot', e), w')"
  shows "failed w' = failed w \<and> (\<forall>x. e = Some (SourceError x) \<longrightarrow> x = ErrInvalidRead \<or> x = IoErrNoProgress \<or> own x) \<or>
    (\<exists>x. failed w' = Some x \<and> (e = Some (SourceError x) \<or> e = Some ProtoErrSizeLimitExceeded \<and> 0 \<le> mx))"
  using assms
proof (induction rule: stream_loop_rule)
  case (over buf tot w n eof rerr buf' w1)
  then show ?case using fill_loop_failed [OF over(1) [unfolded fill_def]] by auto
next
  case (source buf tot w n eof e buf' w1)
  then show ?case using fill_loop_failed [OF source(1) [unfolded fill_def]] by auto
next
  case (cut buf tot w n eof buf' w1 e w2)
  then show ?case
    using fill_loop_failed [OF cut(1) [unfolded fill_def]] write_frame_failed [OF cut(4)]
      write_frame_SinkError [OF cut(4)] by auto
next
  case (last buf tot w n buf' w1 w2 e w3)
  then show ?case
    using fill_loop_failed [OF last(1) [unfolded fill_def]] write_frame_failed [OF last(4)]
      write_frame_SinkError [of wr terminator w2 _ w3] write_frame_failed [of "chunk_frame (take n buf')" w1 None w2]
    by auto
next
  case (more buf tot w n buf' w1 w2 tot' e w')
  then show ?case
    using fill_loop_failed [OF more(1) [unfolded fill_def]] write_frame_failed [of "chunk_frame (take n buf')" w1 None w2]
    by auto
qed

lemma StreamAll_failed:
  assumes "StreamAll wr r chunkSize mx w = Some ((n, e), w')"
  shows "failed w' = failed w \<and> (\<forall>x. e = Some (SourceError x) \<longrightarrow> x = ErrInvalidRead \<or> x = IoErrNoProgress \<or> own x) \<or>
    (\<exists>x. failed w' = Some x \<and> (e = Some (SourceError x) \<or> e = Some ProtoErrSizeLimitExceeded \<and> 0 \<le> mx))"
  using stream_loop_failed [OF assms [unfolded StreamAll_def]] .

end

subsection \<open>A source that ends\<close>

text \<open>
  Without a limit the loop returns when the source can only deliver so much: \<open>left\<close> bytes, which
  every read that reports no error uses up.
\<close>

locale ending_source =
  fixes wr :: "'w writer" and r :: "'w reader" and left :: "'w \<Rightarrow> nat"
  assumes read_uses: "r w k = ((n, data, None), w') \<Longrightarrow> 0 \<le> n \<Longrightarrow> n \<le> int k \<Longrightarrow> left w' + nat n \<le> left w"
    and read_keeps: "r w k = (res, w') \<Longrightarrow> left w' \<le> left w"
    and write_keeps: "wr w bs = (ans, w') \<Longrightarrow> left w' \<le> left w"
begin

lemma fill_loop_uses:
  assumes "fill_loop r buf n empties w = ((n', eof, err, buf'), w')"
  shows "left w' \<le> left w \<and> (err = None \<and> \<not> eof \<longrightarrow> left w' + n' \<le> left w + n)"
  using assms
proof (induction rule: fill_loop_rule)
  case (more buf n w m data w1 n' eof err buf' w')
  from read_uses [OF more(2)] more(1,3) have "left w1 + m \<le> left w" by simp
  with more.IH show ?case by auto
qed (use read_keeps in auto)

lemma stream_loop_ends:
  assumes "0 < length buf"
  shows "stream_loop wr r mx buf tot w \<noteq> None"
  using assms
proof (induction "left w" arbitrary: buf tot w rule: less_induct)
  case less
  obtain n eof rerr buf' w1 where f: "fill r buf w = ((n, eof, rerr, buf'), w1)"
    by (metis prod.collapse)
  note sh = fill_shape [OF f]
  have rec: "stream_loop wr r mx buf' (i64 (tot + int n)) w2 \<noteq> None"
    if "rerr = None" "\<not> eof" "left w2 \<le> left w1" for w2
  proof (rule less.hyps)
    show "0 < length buf'" using sh(1) less.prems by simp
    show "left w2 < left w"
      using fill_loop_uses [OF f [unfolded fill_def]] sh(3) [OF that(2,1)] that less.prems
      by (cases buf) auto
  qed
  show ?case
  proof
    assume "stream_loop wr r mx buf tot w = None"
    then obtain e w2 where "rerr = None" "\<not> eof"
      "(if n > 0 then write_frame wr (chunk_frame (take n buf')) w1 else (None, w1)) = (e, w2)"
      "stream_loop wr r mx buf' (i64 (tot + int n)) w2 = None"
      by (subst (asm) stream_loop.simps) (auto simp: f split: option.splits prod.splits if_splits)
    moreover from this(3) have "left w2 \<le> left w1"
      using write_keeps by (auto simp: write_frame_def split: if_splits prod.splits option.splits)
    ultimately show False using rec by blast
  qed
qed

lemma StreamAll_ends: "StreamAll wr r chunkSize mx w \<noteq> None"
  unfolding StreamAll_def
  by (rule stream_loop_ends) (use clamp_chunk_range [of chunkSize] in simp)

end

subsection \<open>A run in which nothing fails\<close>

fun chunks_of :: "nat \<Rightarrow> bytes \<Rightarrow> bytes list" where
  "chunks_of k xs = (if k = 0 \<or> xs = [] then [] else take k xs # chunks_of k (drop k xs))"

declare chunks_of.simps [simp del]

lemma chunks_of_Nil [simp]: "chunks_of k [] = []"
  by (simp add: chunks_of.simps)

lemma chunks_of_step: "0 < k \<Longrightarrow> xs \<noteq> [] \<Longrightarrow> chunks_of k xs = take k xs # chunks_of k (drop k xs)"
  by (subst chunks_of.simps) simp

lemma concat_chunks_of: "0 < k \<Longrightarrow> concat (chunks_of k xs) = xs"
  by (induction k xs rule: chunks_of.induct) (auto simp: chunks_of.simps [of k xs for k xs])

lemma chunks_of_ok: "c \<in> set (chunks_of k xs) \<Longrightarrow> chunk_ok k c"
proof (induction k xs rule: chunks_of.induct)
  case (1 k xs)
  show ?case
  proof (cases "k = 0 \<or> xs = []")
    case True
    with "1.prems" show ?thesis by (auto simp: chunks_of.simps [of k xs])
  next
    case False
    with "1.prems" have "c = take k xs \<or> c \<in> set (chunks_of k (drop k xs))"
      by (simp add: chunks_of_step)
    with False 1 show ?thesis by (auto simp: chunk_ok_def)
  qed
qed

lemma decode_chunks:
  "decode_frames (frames (chunks_of (nat (clamp_chunk c)) data) @ terminator @ rest) = Some (data, rest)"
proof -
  have "\<forall>p \<in> set (chunks_of (nat (clamp_chunk c)) data). chunk_ok (nat (clamp_chunk c)) p"
    using chunks_of_ok by blast
  from decode_frames_append [OF this clamp_chunk_bound(2), of "terminator @ rest"] show ?thesis
    by (simp add: decode_terminator concat_chunks_of [OF clamp_chunk_bound(1)])
qed

text \<open>
  \<open>good\<close> marks the states in which every write is accepted and the reader hands out the
  bytes \<open>rest\<close> to their end.
\<close>

locale flowing = streaming +
  fixes rest :: "'a \<Rightarrow> bytes" and good :: "'a \<Rightarrow> bool"
  assumes read_good:
    "good w \<Longrightarrow> 0 < k \<Longrightarrow> \<exists>m e w'. r w k = ((int m, take m (rest w), e), w') \<and> m \<le> k \<and>
       m \<le> length (rest w) \<and> rest w' = drop m (rest w) \<and> good w' \<and>
       (e = None \<and> 0 < m \<or> e = Some IoEOF \<and> rest w' = [])"
    and write_good:
    "good w \<Longrightarrow> \<exists>w'. wr w bs = ((int (length bs), None), w') \<and> good w' \<and> rest w' = rest w"
begin

lemma fill_loop_flows:
  assumes "good w" "n \<le> length buf"
  shows "\<exists>eof buf' w'. fill_loop r buf n empties w =
      ((n + min (length buf - n) (length (rest w)), eof, None, buf'), w') \<and>
    take (n + min (length buf - n) (length (rest w))) buf' = take n buf @ take (length buf - n) (rest w) \<and>
    rest w' = drop (length buf - n) (rest w) \<and> good w' \<and>
    (length (rest w) < length buf - n \<longrightarrow> eof) \<and> (eof \<longrightarrow> rest w' = [])"
  using assms
proof (induction "length buf - n" arbitrary: buf n empties w rule: less_induct)
  case less
  show ?case
  proof (cases "n < length buf")
    case False
    with less.prems(2) have n: "n = length buf" by simp
    show ?thesis using less.prems(1) by (auto simp: n fill_loop.simps [of r buf "length buf"])
  next
    case True
    let ?k = "length buf - n"
    from True less.prems(1) read_good [of w ?k] obtain m e w1 where
      rd: "r w ?k = ((int m, take m (rest w), e), w1)" and m: "m \<le> ?k" "m \<le> length (rest w)"
      and w1: "rest w1 = drop m (rest w)" "good w1"
      and e: "e = None \<and> 0 < m \<or> e = Some IoEOF \<and> rest w1 = []" by auto
    let ?b = "store buf n (take m (rest w))"
    have tk: "take (n + m) ?b = take n buf @ take m (rest w)"
      using m True by (subst take_store) auto
    from e show ?thesis
    proof
      assume e: "e = Some IoEOF \<and> rest w1 = []"
      then have len: "length (rest w) = m" using m w1 by simp
      from True rd m e have "fill_loop r buf n empties w = ((n + m, True, None, ?b), w1)"
        by (simp add: fill_loop.simps [of r buf n] Let_def)
      with e len m tk w1 show ?thesis by auto
    next
      assume e: "e = None \<and> 0 < m"
      have go: "fill_loop r buf n empties w = fill_loop r ?b (n + m) 0 w1"
        using fill_loop_more [of n buf r w "int m" "take m (rest w)" w1 empties] True rd m e by simp
      have "\<exists>eof buf' w'. fill_loop r ?b (n + m) 0 w1 =
          ((n + m + min (length ?b - (n + m)) (length (rest w1)), eof, None, buf'), w') \<and>
        take (n + m + min (length ?b - (n + m)) (length (rest w1))) buf' =
          take (n + m) ?b @ take (length ?b - (n + m)) (rest w1) \<and>
        rest w' = drop (length ?b - (n + m)) (rest w1) \<and> good w' \<and>
        (length (rest w1) < length ?b - (n + m) \<longrightarrow> eof) \<and> (eof \<longrightarrow> rest w' = [])"
        by (rule less.hyps) (use True m e w1 in auto)
      moreover have "n + m + min (length ?b - (n + m)) (length (rest w1)) = n + min ?k (length (rest w))"
        using True m w1 by simp
      moreover have "take (n + m) ?b @ take (length ?b - (n + m)) (rest w1) =
          take n buf @ take ?k (rest w)"
        using tk True m w1 take_add [of m "?k - m" "rest w"] by (simp add: add.commute)
      moreover have "drop (length ?b - (n + m)) (rest w1) = drop ?k (rest w)"
        using True m w1 by simp
      moreover have "(length (rest w1) < length ?b - (n + m)) = (length (rest w) < ?k)"
        using True m w1 by auto
      ultimately show ?thesis unfolding go by simp
    qed
  qed
qed

lemma fill_flows:
  assumes "good w"
  obtains eof buf' w' where
    "fill r buf w = ((min (length buf) (length (rest w)), eof, None, buf'), w')"
    "take (min (length buf) (length (rest w))) buf' = take (length buf) (rest w)"
    "rest w' = drop (length buf) (rest w)" "good w'"
    "length (rest w) < length buf \<Longrightarrow> eof" "eof \<Longrightarrow> rest w' = []"
proof -
  obtain eof buf' w' where
    "fill_loop r buf 0 0 w = ((0 + min (length buf - 0) (length (rest w)), eof, None, buf'), w')"
    "take (0 + min (length buf - 0) (length (rest w))) buf' = take 0 buf @ take (length buf - 0) (rest w)"
    "rest w' = drop (length buf - 0) (rest w)" "good w'"
    "length (rest w) < length buf - 0 \<longrightarrow> eof" "eof \<longrightarrow> rest w' = []"
    using fill_loop_flows [of w 0 buf 0] assms by blast
  then show thesis by (intro that [of eof buf' w']) (auto simp: fill_def)
qed

lemma write_frame_flows:
  "good w \<Longrightarrow> \<exists>w'. write_frame wr bs w = (None, w') \<and> good w' \<and> rest w' = rest w \<and>
     accepted w' = accepted w @ bs"
  using write_good [of w bs] write_frame_ok [of bs w] by (auto simp: write_frame_def)

lemma stream_loop_flows:
  assumes "good w" "0 < length buf" "0 \<le> mx \<longrightarrow> tot + int (length (rest w)) \<le> mx"
    "0 \<le> tot" "tot + int (length (rest w)) \<le> max_int64"
  shows "\<exists>w'. stream_loop wr r mx buf tot w = Some ((tot + int (length (rest w)), None), w') \<and>
    good w' \<and> rest w' = [] \<and>
    accepted w' = accepted w @ frames (chunks_of (length buf) (rest w)) @ terminator"
  using assms
proof (induction "length (rest w)" arbitrary: buf tot w rule: less_induct)
  case less
  let ?K = "length buf" and ?n = "min (length buf) (length (rest w))"
  obtain eof buf' w1 where f: "fill r buf w = ((?n, eof, None, buf'), w1)"
    "take ?n buf' = take ?K (rest w)" "rest w1 = drop ?K (rest w)" "good w1"
    "length (rest w) < ?K \<Longrightarrow> eof" "eof \<Longrightarrow> rest w1 = []"
    by (rule fill_flows [OF less.prems(1), where buf = buf]) blast
  have tot: "i64 (tot + int ?n) = tot + int ?n" using less.prems by simp
  have lim: "\<not> (0 \<le> mx \<and> mx < i64 (tot + int ?n))" unfolding tot using less.prems by auto
  obtain w2 where w2:
    "(if 0 < ?n then write_frame wr (chunk_frame (take ?n buf')) w1 else (None, w1)) = (None, w2)"
    "good w2" "rest w2 = rest w1"
    "accepted w2 = accepted w @ (if rest w = [] then [] else chunk_frame (take ?K (rest w)))"
    using write_frame_flows [OF f(4), of "chunk_frame (take ?n buf')"] f less.prems(2)
      fill_delivers(6) [OF f(1)] by (cases "rest w = []") auto
  show ?case
  proof (cases eof)
    case True
    then have short: "length (rest w) \<le> ?K" using f by simp
    obtain w3 where w3: "write_frame wr terminator w2 = (None, w3)" "good w3" "rest w3 = rest w2"
      "accepted w3 = accepted w2 @ terminator"
      using write_frame_flows [OF w2(2), of terminator] by blast
    have "stream_loop wr r mx buf tot w = Some ((tot + int ?n, None), w3)"
      using f(1) lim w2(1) w3(1) True tot
      by (subst stream_loop.simps) (simp add: finish_stream_def)
    moreover have "frames (chunks_of ?K (rest w)) =
        (if rest w = [] then [] else chunk_frame (take ?K (rest w)))"
      using short less.prems(2) by (auto simp: chunks_of_step)
    ultimately show ?thesis using w2 w3 f True short by (simp add: min_absorb2)
  next
    case False
    then have full: "?K \<le> length (rest w)" using f(5) by linarith
    have smaller: "length (rest w2) < length (rest w)"
      using full less.prems(2) f(3) w2(3) by (metis diff_less length_drop order_less_le_trans)
    have len: "length buf' = ?K" using fill_delivers(1) [OF f(1)] .
    have go: "stream_loop wr r mx buf tot w = stream_loop wr r mx buf' (tot + int ?n) w2"
      using f(1) lim w2(1) False tot by (subst stream_loop.simps) auto
    have "\<exists>w'. stream_loop wr r mx buf' (tot + int ?n) w2 =
        Some (((tot + int ?n) + int (length (rest w2)), None), w') \<and> good w' \<and> rest w' = [] \<and>
        accepted w' = accepted w2 @ frames (chunks_of (length buf') (rest w2)) @ terminator"
      by (rule less.hyps [OF smaller]) (use f w2 full len less.prems in auto)
    moreover have "chunks_of ?K (rest w) = take ?K (rest w) # chunks_of ?K (rest w2)"
      using full less.prems(2) f w2 by (subst chunks_of_step) auto
    moreover have "rest w \<noteq> []" using full less.prems(2) by auto
    ultimately show ?thesis using full len w2 f(3) go by (auto simp: min_absorb1)
  qed
qed

lemma StreamAll_flows:
  assumes "good w" "0 \<le> mx \<longrightarrow> int (length (rest w)) \<le> mx" "int (length (rest w)) \<le> max_int64"
  shows "\<exists>w'. StreamAll wr r chunkSize mx w = Some ((int (length (rest w)), None), w') \<and>
    good w' \<and> rest w' = [] \<and>
    accepted w' = accepted w @
      frames (chunks_of (nat (clamp_chunk chunkSize)) (rest w)) @ terminator"
  unfolding StreamAll_def
  using stream_loop_flows [of w "replicate (nat (clamp_chunk chunkSize)) 0" mx 0]
    assms clamp_chunk_range(1) [of chunkSize] by simp

end

end
