(* ===== verification/GoStrings.thy ===== *)
theory GoStrings
  imports Prelude
begin

text \<open>
  The functions of Go's \<open>strings\<close> package the code uses, and \<open>net.SplitHostPort\<close>, on byte
  strings. \<open>Index\<close> and its kin return an option where Go returns -1.
\<close>

subsection \<open>Prefixes and suffixes\<close>

definition HasPrefix :: "string \<Rightarrow> string \<Rightarrow> bool" where
  "HasPrefix s p \<longleftrightarrow> length p \<le> length s \<and> take (length p) s = p"

definition HasSuffix :: "string \<Rightarrow> string \<Rightarrow> bool" where
  "HasSuffix s p \<longleftrightarrow> length p \<le> length s \<and> drop (length s - length p) s = p"

definition TrimPrefix :: "string \<Rightarrow> string \<Rightarrow> string" where
  "TrimPrefix s p = (if HasPrefix s p then drop (length p) s else s)"

definition TrimSuffix :: "string \<Rightarrow> string \<Rightarrow> string" where
  "TrimSuffix s p = (if HasSuffix s p then take (length s - length p) s else s)"

lemma HasPrefix_iff: "HasPrefix s p \<longleftrightarrow> (\<exists>t. s = p @ t)"
  by (auto simp: HasPrefix_def) (metis append_take_drop_id)

lemma HasSuffix_iff: "HasSuffix s p \<longleftrightarrow> (\<exists>t. s = t @ p)"
  by (auto simp: HasSuffix_def) (metis append_take_drop_id)

lemma HasPrefix_append [simp]: "HasPrefix (p @ t) p"
  by (auto simp: HasPrefix_iff)

lemma HasSuffix_append [simp]: "HasSuffix (t @ p) p"
  by (auto simp: HasSuffix_iff)

lemma TrimPrefix_append [simp]: "TrimPrefix (p @ t) p = t"
  by (simp add: TrimPrefix_def)

lemma TrimSuffix_append [simp]: "TrimSuffix (t @ p) p = t"
  by (simp add: TrimSuffix_def)

lemma HasSuffix_code [code]: "HasSuffix s p = HasPrefix (rev s) (rev p)"
  by (auto simp: HasSuffix_iff HasPrefix_iff) (metis rev_append rev_rev_ident)

subsection \<open>Search\<close>

definition IndexByte :: "string \<Rightarrow> char \<Rightarrow> nat option" where
  "IndexByte s c = (if c \<in> set s then Some (length (takeWhile (\<lambda>x. x \<noteq> c) s)) else None)"

definition LastIndexByte :: "string \<Rightarrow> char \<Rightarrow> nat option" where
  "LastIndexByte s c =
     (if c \<in> set s then Some (length s - 1 - length (takeWhile (\<lambda>x. x \<noteq> c) (rev s))) else None)"

fun Index :: "string \<Rightarrow> string \<Rightarrow> nat option" where
  "Index [] p = (if p = [] then Some 0 else None)"
| "Index (c # s) p = (if HasPrefix (c # s) p then Some 0 else map_option Suc (Index s p))"

definition Contains :: "string \<Rightarrow> string \<Rightarrow> bool" where
  "Contains s p \<longleftrightarrow> Index s p \<noteq> None"

definition ContainsAny :: "string \<Rightarrow> string \<Rightarrow> bool" where
  "ContainsAny s cs \<longleftrightarrow> list_ex (\<lambda>c. c \<in> set cs) s"

lemma Index_SomeD: "Index s p = Some i \<Longrightarrow> s = take i s @ p @ drop (i + length p) s \<and> i + length p \<le> length s"
proof (induction s p arbitrary: i rule: Index.induct)
  case (1 p)
  then show ?case by (auto split: if_splits)
next
  case (2 c s p)
  then show ?case
    by (auto simp: HasPrefix_def split: if_splits) (metis append_take_drop_id length_Cons)
qed

lemma Index_None_iff: "Index s p = None \<longleftrightarrow> (\<nexists>a b. s = a @ p @ b)"
proof (induction s p rule: Index.induct)
  case (1 p)
  then show ?case by auto
next
  case (2 c s p)
  have "(\<exists>a b. c # s = a @ p @ b) \<longleftrightarrow> HasPrefix (c # s) p \<or> (\<exists>a b. s = a @ p @ b)"
  proof
    assume "\<exists>a b. c # s = a @ p @ b"
    then obtain a b where ab: "c # s = a @ p @ b" by blast
    then show "HasPrefix (c # s) p \<or> (\<exists>a b. s = a @ p @ b)"
      by (cases a) (auto simp: HasPrefix_iff)
  qed (auto simp: HasPrefix_iff intro: exI [of _ "[]"] append_Cons [symmetric])
  with 2 show ?case by auto
qed

lemma Contains_iff: "Contains s p \<longleftrightarrow> (\<exists>a b. s = a @ p @ b)"
  by (auto simp: Contains_def Index_None_iff)

lemma Contains_map: "Contains (map f s) p \<longleftrightarrow> (\<exists>a m b. s = a @ m @ b \<and> map f m = p)"
proof
  assume "Contains (map f s) p"
  then obtain a b where "map f s = a @ p @ b" by (auto simp: Contains_iff)
  then show "\<exists>a m b. s = a @ m @ b \<and> map f m = p"
    by (fastforce simp: map_eq_append_conv append_eq_map_conv)
next
  assume "\<exists>a m b. s = a @ m @ b \<and> map f m = p"
  then show "Contains (map f s) p" unfolding Contains_iff by (metis map_append)
qed

lemma Index_append_first:
  assumes "\<not> Contains (a @ butlast p) p" "p \<noteq> []"
  shows "Index (a @ p @ b) p = Some (length a)"
  using assms(1)
proof (induction a)
  case Nil
  have "Index (p @ b) p = Some 0"
    using assms(2) HasPrefix_append [of p b] by (cases "p @ b") auto
  then show ?case by simp
next
  case (Cons c a)
  have no: "\<not> HasPrefix (c # a @ p @ b) p"
  proof
    assume "HasPrefix (c # a @ p @ b) p"
    then have pre: "take (length p) (c # a @ p @ b) = p" by (simp add: HasPrefix_def)
    have le: "length p \<le> length (c # a @ butlast p)" by simp
    have "c # a @ p @ b = (c # a @ butlast p) @ last p # b"
      using append_butlast_last_id [OF assms(2)] by (metis append_Cons append_assoc append_Nil)
    then have "take (length p) (c # a @ p @ b) = take (length p) (c # a @ butlast p)"
      using le by (metis take_append append_Nil2 diff_is_0_eq take0)
    with pre have "take (length p) (c # a @ butlast p) = p" by simp
    then have "c # a @ butlast p = p @ drop (length p) (c # a @ butlast p)"
      by (metis append_take_drop_id)
    with Cons.prems show False by (auto simp: Contains_iff) (metis append_Nil)
  qed
  have "\<not> Contains (a @ butlast p) p"
    using Cons.prems by (auto simp: Contains_iff) (metis append_Cons)
  then have "Index (a @ p @ b) p = Some (length a)" by (rule Cons.IH)
  with no show ?case by simp
qed

lemma ContainsAny_iff: "ContainsAny s cs \<longleftrightarrow> set s \<inter> set cs \<noteq> {}"
  by (auto simp: ContainsAny_def list_ex_iff)

subsection \<open>Trimming\<close>

definition TrimRight :: "string \<Rightarrow> string \<Rightarrow> string" where
  "TrimRight s cutset = rev (dropWhile (\<lambda>c. c \<in> set cutset) (rev s))"

text \<open>
  \<open>TrimSpace\<close> removes the runes for which \<open>unicode.IsSpace\<close> holds. Go strings are UTF-8, so
  these are the byte sequences below; UTF-8 is self-synchronising, so a string starts
  (ends) with one of the runes exactly when it starts (ends) with its bytes.
\<close>

definition space_runes :: "string list" where
  "space_runes =
     [[CHR 0x09], [CHR 0x0A], [CHR 0x0B], [CHR 0x0C], [CHR 0x0D], [CHR 0x20],
      [CHR 0xC2, CHR 0x85], [CHR 0xC2, CHR 0xA0], [CHR 0xE1, CHR 0x9A, CHR 0x80],
      [CHR 0xE2, CHR 0x80, CHR 0x80], [CHR 0xE2, CHR 0x80, CHR 0x81],
      [CHR 0xE2, CHR 0x80, CHR 0x82], [CHR 0xE2, CHR 0x80, CHR 0x83],
      [CHR 0xE2, CHR 0x80, CHR 0x84], [CHR 0xE2, CHR 0x80, CHR 0x85],
      [CHR 0xE2, CHR 0x80, CHR 0x86], [CHR 0xE2, CHR 0x80, CHR 0x87],
      [CHR 0xE2, CHR 0x80, CHR 0x88], [CHR 0xE2, CHR 0x80, CHR 0x89],
      [CHR 0xE2, CHR 0x80, CHR 0x8A], [CHR 0xE2, CHR 0x80, CHR 0xA8],
      [CHR 0xE2, CHR 0x80, CHR 0xA9], [CHR 0xE2, CHR 0x80, CHR 0xAF],
      [CHR 0xE2, CHR 0x81, CHR 0x9F], [CHR 0xE3, CHR 0x80, CHR 0x80]]"

function trim_runes :: "string list \<Rightarrow> string \<Rightarrow> string" where
  "trim_runes rs s =
     (case List.find (\<lambda>r. r \<noteq> [] \<and> HasPrefix s r) rs of
        None \<Rightarrow> s
      | Some r \<Rightarrow> trim_runes rs (drop (length r) s))"
  by pat_completeness auto
termination
proof (relation "measure (\<lambda>(rs, s). length s)")
  fix rs s r
  assume "List.find (\<lambda>r. r \<noteq> [] \<and> HasPrefix s r) rs = Some r"
  then have "r \<noteq> []" "length r \<le> length s"
    by (auto simp: find_Some_iff HasPrefix_def)
  then have "length (drop (length r) s) < length s" by (cases r) auto
  then show "((rs, drop (length r) s), rs, s) \<in> measure (\<lambda>(rs, s). length s)" by simp
qed simp

declare trim_runes.simps [simp del]

definition TrimSpace :: "string \<Rightarrow> string" where
  "TrimSpace s = rev (trim_runes (map rev space_runes) (rev (trim_runes space_runes s)))"

lemma TrimRight_append: "\<exists>t. s = TrimRight s cs @ t \<and> set t \<subseteq> set cs"
proof -
  let ?t = "rev (takeWhile (\<lambda>c. c \<in> set cs) (rev s))"
  have "s = TrimRight s cs @ ?t"
    unfolding TrimRight_def by (metis rev_append rev_rev_ident takeWhile_dropWhile_id)
  moreover have "set ?t \<subseteq> set cs" by (auto dest: set_takeWhileD)
  ultimately show ?thesis by blast
qed

lemma TrimRight_last: "TrimRight s cs \<noteq> [] \<Longrightarrow> last (TrimRight s cs) \<notin> set cs"
  using hd_dropWhile [of "\<lambda>c. c \<in> set cs" "rev s"] by (simp add: TrimRight_def last_rev)

lemma TrimRight_id: "s = [] \<or> last s \<notin> set cs \<Longrightarrow> TrimRight s cs = s"
  by (cases s rule: rev_cases) (auto simp: TrimRight_def)

lemma TrimRight_append_cut: "set t \<subseteq> set cs \<Longrightarrow> TrimRight (s @ t) cs = TrimRight s cs"
  by (simp add: TrimRight_def dropWhile_append subset_eq)

lemma TrimRight_TrimRight: "set c1 \<subseteq> set c2 \<Longrightarrow> TrimRight (TrimRight s c1) c2 = TrimRight s c2"
  using TrimRight_append [of s c1] TrimRight_append_cut [of _ c2 "TrimRight s c1"]
  by (metis subset_trans)

lemma TrimRight_subset: "set (TrimRight s cs) \<subseteq> set s"
  unfolding TrimRight_def by (auto dest: set_dropWhileD)

lemma length_TrimRight_le: "length (TrimRight s cs) \<le> length s"
  by (simp add: TrimRight_def length_dropWhile_le [of _ "rev s", simplified])

definition graphic :: "char \<Rightarrow> bool" where
  "graphic c \<longleftrightarrow> 33 \<le> (of_char c :: nat) \<and> (of_char c :: nat) \<le> 126"

lemma trim_runes_id:
  assumes "\<And>r. r \<in> set rs \<Longrightarrow> r \<noteq> [] \<Longrightarrow> \<not> HasPrefix s r"
  shows "trim_runes rs s = s"
proof -
  have "List.find (\<lambda>r. r \<noteq> [] \<and> HasPrefix s r) rs = None"
    using assms by (auto simp: find_None_iff)
  then show ?thesis by (simp add: trim_runes.simps [of rs s])
qed

lemma space_runes_edges: "r \<in> set space_runes \<Longrightarrow> r \<noteq> [] \<and> \<not> graphic (hd r) \<and> \<not> graphic (last r)"
  by (auto simp: space_runes_def graphic_def)

lemma TrimSpace_id:
  assumes "s = [] \<or> graphic (hd s) \<and> graphic (last s)"
  shows "TrimSpace s = s"
proof (cases "s = []")
  case True
  have "trim_runes rs [] = []" for rs
    by (rule trim_runes_id) (auto simp: HasPrefix_def)
  with True show ?thesis by (simp add: TrimSpace_def)
next
  case False
  with assms have hd: "graphic (hd s)" and last: "graphic (last s)" by auto
  have l: "trim_runes space_runes s = s"
  proof (rule trim_runes_id)
    fix r assume "r \<in> set space_runes" "r \<noteq> []"
    with hd show "\<not> HasPrefix s r"
      using space_runes_edges [of r] by (auto simp: HasPrefix_iff)
  qed
  have r: "trim_runes (map rev space_runes) (rev s) = rev s"
  proof (rule trim_runes_id)
    fix r assume "r \<in> set (map rev space_runes)" "r \<noteq> []"
    then obtain r' where r': "r' \<in> set space_runes" "r = rev r'" by auto
    show "\<not> HasPrefix (rev s) r"
    proof
      assume "HasPrefix (rev s) r"
      then obtain t where "rev s = rev r' @ t" using r'(2) by (auto simp: HasPrefix_iff)
      then have "s = rev t @ r'" by (metis rev_append rev_rev_ident)
      then show False using last space_runes_edges [OF r'(1)] by auto
    qed
  qed
  show ?thesis by (simp add: TrimSpace_def l r)
qed

subsection \<open>Lower case\<close>

text \<open>
  \<open>ToLower\<close> as far as an ASCII pattern can tell: the ASCII letters, and the two runes outside
  ASCII that Unicode lowers to an ASCII letter (U+0130 to \<open>i\<close>, U+212A to \<open>k\<close>). Every other
  rune outside ASCII is lowered to runes outside ASCII, which no ASCII pattern contains; it
  is left as it is.
\<close>

definition lower_char :: "char \<Rightarrow> char" where
  "lower_char c =
     (let n = of_char c :: nat in if 65 \<le> n \<and> n \<le> 90 then char_of (n + 32) else c)"

fun ToLower :: "string \<Rightarrow> string" where
  "ToLower [] = []"
| "ToLower (c # s) =
     (if HasPrefix (c # s) [CHR 0xC4, CHR 0xB0] then CHR ''i'' # ToLower (drop 1 s)
      else if HasPrefix (c # s) [CHR 0xE2, CHR 0x84, CHR 0xAA] then CHR ''k'' # ToLower (drop 2 s)
      else lower_char c # ToLower s)"

lemma ToLower_ascii:
  assumes "\<forall>c \<in> set s. (of_char c :: nat) < 128"
  shows "ToLower s = map lower_char s"
  using assms by (induction s) (auto simp: HasPrefix_iff)

subsection \<open>net.SplitHostPort\<close>

text \<open>
  The host and the port of \<open>host:port\<close> or \<open>[host]:port\<close>; on the left the reason of the
  \<open>*net.AddrError\<close>. As in Go, \<open>j\<close> and \<open>k\<close> are where the search for a stray bracket starts.
\<close>

definition SplitHostPort :: "string \<Rightarrow> string + (string \<times> string)" where
  "SplitHostPort hostport =
     (case LastIndexByte hostport (CHR '':'') of
        None \<Rightarrow> Inl ''missing port in address''
      | Some i \<Rightarrow>
          (let brackets = (\<lambda>host j k.
             if IndexByte (drop j hostport) (CHR ''['') \<noteq> None
             then Inl ''unexpected '[' in address''
             else if IndexByte (drop k hostport) (CHR '']'') \<noteq> None
             then Inl ''unexpected ']' in address''
             else Inr (host, drop (i + 1) hostport))
           in if hd hostport = CHR ''[''
              then (case IndexByte hostport (CHR '']'') of
                      None \<Rightarrow> Inl ''missing ']' in address''
                    | Some e \<Rightarrow>
                        if e + 1 = length hostport then Inl ''missing port in address''
                        else if e + 1 = i then brackets (take (e - 1) (drop 1 hostport)) 1 (e + 1)
                        else if hostport ! (e + 1) = CHR '':'' then Inl ''too many colons in address''
                        else Inl ''missing port in address'')
              else (let host = take i hostport
                    in if IndexByte host (CHR '':'') \<noteq> None then Inl ''too many colons in address''
                       else brackets host 0 0)))"

end
