(* ===== verification/ReplyReader.thy ===== *)
theory ReplyReader
  imports GoErrors GoStrings
begin

text \<open>
  The receiving half of the wire protocol (\<open>internal/proto/response.go\<close>): \<open>ReadLine\<close>,
  \<open>finishLine\<close>, \<open>trimEOL\<close> and \<open>ReadBlock\<close>, over a model of \<open>bufio.Reader\<close>.

  The connection below the buffer is a function that is asked for at most \<open>k\<close> bytes and
  answers bytes and an error (\<open>net.Conn\<close> honours the count). The locale
  \<open>logged_conn\<close> says that a state records what was received; it yields, for any peer,
  what a line that was returned says about the bytes that arrived; \<open>ended_conn\<close> also records the
  end, so that a reply is all that came before its NUL or the end. The locale
  \<open>byte_stream\<close> is a connection that delivers a fixed stream in any fragments; it yields
  that the fragments do not matter.
\<close>

type_synonym 'w conn_reader = "'w \<Rightarrow> nat \<Rightarrow> (bytes \<times> goerr option) \<times> 'w"

subsection \<open>bufio.Reader\<close>

record bufio =
  br_buf :: bytes
  br_err :: "goerr option"

definition new_bufio :: bufio where
  "new_bufio = \<lparr>br_buf = [], br_err = None\<rparr>"

definition bufio_size :: nat where
  "bufio_size = 4096"

definition bufio_retries :: nat where
  "bufio_retries = 100"

fun bufio_fill :: "'w conn_reader \<Rightarrow> nat \<Rightarrow> bufio \<Rightarrow> 'w \<Rightarrow> bufio \<times> 'w" where
  "bufio_fill rd 0 b w = (b\<lparr>br_err := Some IoErrNoProgress\<rparr>, w)"
| "bufio_fill rd (Suc i) b w =
     (case rd w (bufio_size - length (br_buf b)) of ((bs, e), w') \<Rightarrow>
        let b' = b\<lparr>br_buf := br_buf b @ take (bufio_size - length (br_buf b)) bs\<rparr> in
        if e \<noteq> None then (b'\<lparr>br_err := e\<rparr>, w')
        else if take (bufio_size - length (br_buf b)) bs \<noteq> [] then (b', w')
        else bufio_fill rd i b' w')"

lemma bufio_fill_progress:
  "bufio_fill rd i b w = (b', w') \<Longrightarrow> br_buf b' \<noteq> [] \<or> br_err b' \<noteq> None"
proof (induction rd i b w rule: bufio_fill.induct)
  case (2 rd i b w)
  obtain bs e w1 where "rd w (bufio_size - length (br_buf b)) = ((bs, e), w1)"
    by (metis prod.collapse)
  with 2 show ?case by (auto simp: Let_def split: if_splits)
qed auto

text \<open>\<open>ReadByte\<close>: the loop \<open>for b.r == b.w\<close>.\<close>

function ReadByte :: "'w conn_reader \<Rightarrow> bufio \<Rightarrow> 'w \<Rightarrow> (goerr + byte) \<times> bufio \<times> 'w" where
  "ReadByte rd b w =
     (case br_buf b of
        c # cs \<Rightarrow> (Inr c, b\<lparr>br_buf := cs\<rparr>, w)
      | [] \<Rightarrow>
          (case br_err b of
             Some e \<Rightarrow> (Inl e, b\<lparr>br_err := None\<rparr>, w)
           | None \<Rightarrow> (case bufio_fill rd bufio_retries b w of (b', w') \<Rightarrow> ReadByte rd b' w')))"
  by pat_completeness auto
termination
proof (relation "measure (\<lambda>(rd, b, w). if br_buf b = [] \<and> br_err b = None then 1 else 0)", goal_cases)
  case (2 rd b w b' w')
  have "br_buf b' \<noteq> [] \<or> br_err b' \<noteq> None"
    by (rule bufio_fill_progress [of rd bufio_retries b w b' w']) (use 2 in simp)
  with 2(1,2) show ?case by auto
qed simp

declare ReadByte.simps [simp del]

subsection \<open>ReadLine and ReadBlock\<close>

definition MaxLineResponse :: int where
  "MaxLineResponse = 4 * 2 ^ 10"

definition MaxBlockResponse :: int where
  "MaxBlockResponse = 2 ^ 20"

definition eol :: string where
  "eol = [CHR 0x0D, CHR 0x0A]"

definition trimEOL :: "string \<Rightarrow> string" where
  "trimEOL s = TrimRight s eol"

definition finishLine :: "string \<Rightarrow> string \<times> goerr option" where
  "finishLine s =
     (let s = trimEOL s in
      if ContainsAny s eol then ([], Some ErrMalformedReply) else (s, None))"

text \<open>The results \<open>line\<close>, \<open>terminated\<close> and \<open>err\<close>; then the buffer and the state.\<close>

type_synonym line_result = "string \<times> bool \<times> goerr option"

function ReadLine_loop ::
  "'w conn_reader \<Rightarrow> int \<Rightarrow> bytes \<Rightarrow> bufio \<Rightarrow> 'w \<Rightarrow> line_result \<times> bufio \<times> 'w" where
  "ReadLine_loop rd mx buf b w =
     (case ReadByte rd b w of
        (Inl e, b', w') \<Rightarrow>
          if e = IoEOF \<and> length buf > 0
          then (case finishLine (string_of buf) of (line, err) \<Rightarrow> ((line, False, err), b', w'))
          else (([], False, Some e), b', w')
      | (Inr c, b', w') \<Rightarrow>
          if c = 0
          then (case finishLine (string_of buf) of (line, err) \<Rightarrow> ((line, err = None, err), b', w'))
          else if int (length buf) \<ge> mx then (([], False, Some ErrResponseTooLarge), b', w')
          else ReadLine_loop rd mx (buf @ [c]) b' w')"
  by pat_completeness auto
termination
  by (relation "measure (\<lambda>(rd, mx, buf, b, w). nat (mx - int (length buf)))") auto

declare ReadLine_loop.simps [simp del]

definition ReadLine :: "'w conn_reader \<Rightarrow> int \<Rightarrow> bufio \<Rightarrow> 'w \<Rightarrow> line_result \<times> bufio \<times> 'w" where
  "ReadLine rd mx b w = ReadLine_loop rd mx [] b w"

function ReadBlock_loop ::
  "'w conn_reader \<Rightarrow> int \<Rightarrow> bytes \<Rightarrow> bufio \<Rightarrow> 'w \<Rightarrow> (string \<times> goerr option) \<times> bufio \<times> 'w" where
  "ReadBlock_loop rd mx buf b w =
     (case ReadByte rd b w of
        (Inl e, b', w') \<Rightarrow>
          if e = IoEOF \<and> length buf > 0 then ((string_of buf, None), b', w')
          else (([], Some e), b', w')
      | (Inr c, b', w') \<Rightarrow>
          if c = 0 then ((string_of buf, None), b', w')
          else if int (length buf) \<ge> mx then (([], Some ErrResponseTooLarge), b', w')
          else ReadBlock_loop rd mx (buf @ [c]) b' w')"
  by pat_completeness auto
termination
  by (relation "measure (\<lambda>(rd, mx, buf, b, w). nat (mx - int (length buf)))") auto

declare ReadBlock_loop.simps [simp del]

definition ReadBlock ::
  "'w conn_reader \<Rightarrow> int \<Rightarrow> bufio \<Rightarrow> 'w \<Rightarrow> (string \<times> goerr option) \<times> bufio \<times> 'w" where
  "ReadBlock rd mx b w = ReadBlock_loop rd mx [] b w"

subsection \<open>What the connection's reads keep, a reply's reading keeps\<close>

lemma bufio_fill_preserves:
  assumes rd: "\<And>w k res w'. Q w \<Longrightarrow> rd w k = (res, w') \<Longrightarrow> Q w'"
    and "bufio_fill rd i b w = (b', w')" "Q w"
  shows "Q w'"
  using assms(2,3)
proof (induction i arbitrary: b w)
  case (Suc i)
  let ?k = "bufio_size - length (br_buf b)"
  obtain bs e w1 where r: "rd w ?k = ((bs, e), w1)" by (metis prod.collapse)
  have Q1: "Q w1" using rd [OF Suc.prems(2) r] .
  show ?case
  proof (cases "e = None \<and> take ?k bs = []")
    case True
    with Suc.prems r have "bufio_fill rd i (b\<lparr>br_buf := br_buf b @ take ?k bs\<rparr>) w1 = (b', w')"
      by (simp only: bufio_fill.simps Let_def) simp
    then show ?thesis using Suc.IH Q1 by blast
  next
    case False
    with Suc.prems r Q1 show ?thesis by (auto simp: Let_def split: if_splits)
  qed
qed simp

lemma ReadByte_preserves:
  assumes rd: "\<And>w k res w'. Q w \<Longrightarrow> rd w k = (res, w') \<Longrightarrow> Q w'"
    and run: "ReadByte rd b w = (res, b', w')" and Q: "Q w"
  shows "Q w'"
proof -
  have once: "Q v'" if "br_buf x \<noteq> [] \<or> br_err x \<noteq> None" "ReadByte rd x v = (res, b', v')" "Q v" for x v v'
    using that by (auto simp: ReadByte.simps [of rd x v] split: list.splits option.splits)
  show ?thesis
  proof (cases "br_buf b \<noteq> [] \<or> br_err b \<noteq> None")
    case True
    then show ?thesis using run Q by (rule once)
  next
    case False
    obtain b1 w1 where f: "bufio_fill rd bufio_retries b w = (b1, w1)" by (metis prod.collapse)
    have "Q w1" by (rule bufio_fill_preserves [of Q rd, OF _ f Q]) (rule rd)
    moreover have "ReadByte rd b1 w1 = (res, b', w')"
      using run False f by (simp add: ReadByte.simps [of rd b w])
    ultimately show ?thesis using once bufio_fill_progress [OF f] by blast
  qed
qed

lemma ReadLine_loop_preserves:
  assumes rd: "\<And>w k res w'. Q w \<Longrightarrow> rd w k = (res, w') \<Longrightarrow> Q w'"
    and "ReadLine_loop rd mx buf b w = (res, b', w')" "Q w"
  shows "Q w'"
  using assms(2,3)
proof (induction "nat (mx - int (length buf))" arbitrary: buf b w rule: less_induct)
  case less
  obtain x b1 w1 where rb: "ReadByte rd b w = (x, b1, w1)" by (metis prod.collapse)
  have Q1: "Q w1" by (rule ReadByte_preserves [of Q rd, OF _ rb less.prems(2)]) (rule rd)
  show ?case
  proof (cases "\<exists>c. x = Inr c \<and> c \<noteq> 0 \<and> int (length buf) < mx")
    case True
    then obtain c where c: "x = Inr c" "c \<noteq> 0" "int (length buf) < mx" by blast
    with less.prems(1) rb have "ReadLine_loop rd mx (buf @ [c]) b1 w1 = (res, b', w')"
      by (simp add: ReadLine_loop.simps [of rd mx buf b w])
    then show ?thesis using less.hyps [of "buf @ [c]"] c(3) Q1 by simp
  next
    case False
    with less.prems(1) rb Q1 show ?thesis
      by (auto simp: ReadLine_loop.simps [of rd mx buf b w] split: sum.splits if_splits prod.splits)
  qed
qed

lemma ReadBlock_loop_preserves:
  assumes rd: "\<And>w k res w'. Q w \<Longrightarrow> rd w k = (res, w') \<Longrightarrow> Q w'"
    and "ReadBlock_loop rd mx buf b w = (res, b', w')" "Q w"
  shows "Q w'"
  using assms(2,3)
proof (induction "nat (mx - int (length buf))" arbitrary: buf b w rule: less_induct)
  case less
  obtain x b1 w1 where rb: "ReadByte rd b w = (x, b1, w1)" by (metis prod.collapse)
  have Q1: "Q w1" by (rule ReadByte_preserves [of Q rd, OF _ rb less.prems(2)]) (rule rd)
  show ?case
  proof (cases "\<exists>c. x = Inr c \<and> c \<noteq> 0 \<and> int (length buf) < mx")
    case True
    then obtain c where c: "x = Inr c" "c \<noteq> 0" "int (length buf) < mx" by blast
    with less.prems(1) rb have "ReadBlock_loop rd mx (buf @ [c]) b1 w1 = (res, b', w')"
      by (simp add: ReadBlock_loop.simps [of rd mx buf b w])
    then show ?thesis using less.hyps [of "buf @ [c]"] c(3) Q1 by simp
  next
    case False
    with less.prems(1) rb Q1 show ?thesis
      by (auto simp: ReadBlock_loop.simps [of rd mx buf b w] split: sum.splits if_splits prod.splits)
  qed
qed

lemma ReadLine_preserves:
  assumes "\<And>w k res w'. Q w \<Longrightarrow> rd w k = (res, w') \<Longrightarrow> Q w'"
    "ReadLine rd mx b w = (res, b', w')" "Q w"
  shows "Q w'"
  using assms(2,3) by (auto simp: ReadLine_def intro: ReadLine_loop_preserves [of Q rd, OF assms(1)])

lemma ReadBlock_preserves:
  assumes "\<And>w k res w'. Q w \<Longrightarrow> rd w k = (res, w') \<Longrightarrow> Q w'"
    "ReadBlock rd mx b w = (res, b', w')" "Q w"
  shows "Q w'"
  using assms(2,3) by (auto simp: ReadBlock_def intro: ReadBlock_loop_preserves [of Q rd, OF assms(1)])

subsection \<open>The same functions on a whole stream of bytes\<close>

text \<open>
  The reference: what a line and a block are on the bytes the peer sends before it closes.
\<close>

fun line_of :: "int \<Rightarrow> bytes \<Rightarrow> bytes \<Rightarrow> line_result" where
  "line_of mx buf [] =
     (if buf \<noteq> [] then (case finishLine (string_of buf) of (line, err) \<Rightarrow> (line, False, err))
      else ([], False, Some IoEOF))"
| "line_of mx buf (c # cs) =
     (if c = 0 then (case finishLine (string_of buf) of (line, err) \<Rightarrow> (line, err = None, err))
      else if int (length buf) \<ge> mx then ([], False, Some ErrResponseTooLarge)
      else line_of mx (buf @ [c]) cs)"

fun block_of :: "int \<Rightarrow> bytes \<Rightarrow> bytes \<Rightarrow> string \<times> goerr option" where
  "block_of mx buf [] = (if buf \<noteq> [] then (string_of buf, None) else ([], Some IoEOF))"
| "block_of mx buf (c # cs) =
     (if c = 0 then (string_of buf, None)
      else if int (length buf) \<ge> mx then ([], Some ErrResponseTooLarge)
      else block_of mx (buf @ [c]) cs)"

lemma finishLine_ok:
  "finishLine s = (line, None) \<Longrightarrow> line = trimEOL s \<and> CHR 0x0D \<notin> set line \<and> CHR 0x0A \<notin> set line"
  by (auto simp: finishLine_def Let_def ContainsAny_iff eol_def split: if_splits)

lemma finishLine_simple:
  assumes "set s \<inter> set eol = {}"
  shows "finishLine s = (s, None)"
proof -
  have "trimEOL s = s" unfolding trimEOL_def
    by (rule TrimRight_id) (use assms last_in_set [of s] in blast)
  with assms show ?thesis by (simp add: finishLine_def ContainsAny_iff Let_def)
qed

lemma finishLine_error: "finishLine s = (line, Some e) \<Longrightarrow> e = ErrMalformedReply \<and> line = []"
  by (auto simp: finishLine_def Let_def split: if_splits)

lemma line_of_content:
  assumes "0 \<notin> set content" "int (length (buf @ content)) \<le> mx"
  shows "line_of mx buf (content @ 0 # rest) =
    (case finishLine (string_of (buf @ content)) of (line, err) \<Rightarrow> (line, err = None, err))"
  using assms by (induction content arbitrary: buf) auto

lemma block_of_content:
  assumes "0 \<notin> set content" "int (length (buf @ content)) \<le> mx"
  shows "block_of mx buf (content @ 0 # rest) = (string_of (buf @ content), None)"
  using assms by (induction content arbitrary: buf) auto

text \<open>A reply as the server sends it: its text, and the NUL.\<close>

lemma line_of_reply:
  assumes "CHR 0x00 \<notin> set s" "set s \<inter> set eol = {}" "int (length s) \<le> mx"
  shows "line_of mx [] (bytes_of s @ 0 # rest) = (s, True, None)"
  using assms line_of_content [of "bytes_of s" "[]" mx rest] by (simp add: finishLine_simple)

text \<open>The memory bound: however much the peer sends, at most \<open>mx\<close> bytes are kept.\<close>

lemma line_of_too_long:
  assumes "0 \<notin> set content" "int (length buf) \<le> mx" "mx < int (length (buf @ content))"
  shows "line_of mx buf (content @ rest) = ([], False, Some ErrResponseTooLarge)"
  using assms by (induction content arbitrary: buf) auto

text \<open>
  What a line that was read says about the bytes \<open>avail\<close> that arrived: it is the trimmed text of
  their beginning, at most \<open>mx\<close> bytes with what was read before; if it is reported as terminated, a
  NUL arrived right after them.
\<close>

definition line_from :: "int \<Rightarrow> bytes \<Rightarrow> bytes \<Rightarrow> string \<Rightarrow> bool \<Rightarrow> goerr option \<Rightarrow> bytes \<Rightarrow> bool" where
  "line_from mx buf avail line term err left \<longleftrightarrow> (term \<longrightarrow> err = None) \<and> (err \<noteq> None \<longrightarrow> line = []) \<and>
     (err = None \<longrightarrow> (\<exists>content. avail = content @ (if term then 0 # left else []) \<and>
       0 \<notin> set content \<and> finishLine (string_of (buf @ content)) = (line, None) \<and>
       int (length (buf @ content)) \<le> mx))"

lemma line_from_more:
  assumes "line_from mx (buf @ [c]) avail line term err left" "c \<noteq> 0"
  shows "line_from mx buf (c # avail) line term err left"
proof -
  have "\<exists>content. c # avail = content @ (if term then 0 # left else []) \<and> 0 \<notin> set content \<and>
      finishLine (string_of (buf @ content)) = (line, None) \<and> int (length (buf @ content)) \<le> mx" if "err = None"
  proof -
    from assms(1) that obtain d where "avail = d @ (if term then 0 # left else [])" "0 \<notin> set d"
      "finishLine (string_of ((buf @ [c]) @ d)) = (line, None)" "int (length ((buf @ [c]) @ d)) \<le> mx"
      unfolding line_from_def by blast
    with assms(2) show ?thesis by (intro exI [of _ "c # d"]) simp
  qed
  with assms(1) show ?thesis by (auto simp: line_from_def)
qed

subsection \<open>The connection, as interfaces\<close>

locale logged_conn =
  fixes rd :: "'w conn_reader" and got :: "'w \<Rightarrow> bytes"
  assumes rd_got: "rd w k = ((bs, e), w') \<Longrightarrow> got w' = got w @ take k bs"
begin

lemma bufio_fill_got:
  "bufio_fill rd i b w = (b', w') \<Longrightarrow> \<exists>x. got w' = got w @ x \<and> br_buf b' = br_buf b @ x"
proof (induction i arbitrary: b w)
  case 0
  then show ?case by auto
next
  case (Suc i)
  let ?k = "bufio_size - length (br_buf b)"
  obtain bs e w1 where rd: "rd w ?k = ((bs, e), w1)" by (metis prod.collapse)
  note g = rd_got [OF rd]
  show ?case
  proof (cases "e = None \<and> take ?k bs = []")
    case True
    then have "b\<lparr>br_buf := br_buf b @ take ?k bs\<rparr> = b" by simp
    with Suc.prems rd True have "bufio_fill rd i b w1 = (b', w')"
      by (simp add: Let_def)
    from Suc.IH [OF this] True g show ?thesis by simp
  next
    case False
    with Suc.prems rd g show ?thesis by (auto simp: Let_def split: if_splits)
  qed
qed

lemma bufio_fill_fits:
  "bufio_fill rd i b w = (b', w') \<Longrightarrow> length (br_buf b) \<le> bufio_size \<Longrightarrow> length (br_buf b') \<le> bufio_size"
proof (induction rd i b w rule: bufio_fill.induct)
  case (2 rd i b w)
  obtain bs e w1 where "rd w (bufio_size - length (br_buf b)) = ((bs, e), w1)"
    by (metis prod.collapse)
  with 2 show ?case by (auto simp: Let_def split: if_splits)
qed auto

lemma ReadByte_fits:
  assumes "ReadByte rd b w = (res, b', w')" "length (br_buf b) \<le> bufio_size"
  shows "length (br_buf b') \<le> bufio_size"
proof -
  have once: "length (br_buf y') \<le> bufio_size"
    if "ReadByte rd y v = (res, y', v')" "length (br_buf y) \<le> bufio_size" "br_buf y \<noteq> [] \<or> br_err y \<noteq> None"
    for y y' v v'
    using that by (auto simp: ReadByte.simps [of rd y v] split: list.splits option.splits)
  show ?thesis
  proof (cases "br_buf b \<noteq> [] \<or> br_err b \<noteq> None")
    case True
    then show ?thesis using once assms by blast
  next
    case False
    obtain b1 w1 where f: "bufio_fill rd bufio_retries b w = (b1, w1)" by (metis prod.collapse)
    from assms(1) False f have "ReadByte rd b1 w1 = (res, b', w')" by (simp add: ReadByte.simps [of rd b w])
    then show ?thesis using once bufio_fill_fits [OF f assms(2)] bufio_fill_progress [OF f] by blast
  qed
qed

lemma ReadByte_got:
  assumes "ReadByte rd b w = (res, b', w')"
  shows "\<exists>x. got w' = got w @ x \<and>
    (case res of Inr c \<Rightarrow> br_buf b @ x = c # br_buf b' | Inl e \<Rightarrow> br_buf b @ x = [] \<and> br_buf b' = [])"
proof -
  have once: ?thesis if "br_buf b \<noteq> [] \<or> br_err b \<noteq> None"
    using that assms by (auto simp: ReadByte.simps [of rd b w] split: list.splits option.splits)
  show ?thesis
  proof (cases "br_buf b \<noteq> [] \<or> br_err b \<noteq> None")
    case True
    then show ?thesis by (rule once)
  next
    case False
    obtain b1 w1 where f: "bufio_fill rd bufio_retries b w = (b1, w1)" by (metis prod.collapse)
    from bufio_fill_got [OF f] obtain x where x: "got w1 = got w @ x" "br_buf b1 = br_buf b @ x"
      by blast
    from assms False f have run: "ReadByte rd b1 w1 = (res, b', w')"
      by (simp add: ReadByte.simps [of rd b w])
    have "\<exists>y. got w' = got w1 @ y \<and>
      (case res of Inr c \<Rightarrow> br_buf b1 @ y = c # br_buf b' | Inl e \<Rightarrow> br_buf b1 @ y = [] \<and> br_buf b' = [])"
      using run bufio_fill_progress [OF f]
      by (auto simp: ReadByte.simps [of rd b1 w1] split: list.splits option.splits)
    then show ?thesis using x by (auto split: sum.splits)
  qed
qed

lemma ReadLine_loop_got:
  assumes "ReadLine_loop rd mx buf b w = ((line, term, err), b', w')" "int (length buf) \<le> mx"
  shows "\<exists>x. got w' = got w @ x \<and> line_from mx buf (br_buf b @ x) line term err (br_buf b')"
  using assms
proof (induction rd\<equiv>rd mx buf b w arbitrary: line err rule: ReadLine_loop.induct)
  case (1 mx buf b w)
  obtain res b1 w1 where rb: "ReadByte rd b w = (res, b1, w1)" by (metis prod.collapse)
  from ReadByte_got [OF rb] obtain x where x: "got w1 = got w @ x"
    "case res of Inr c \<Rightarrow> br_buf b @ x = c # br_buf b1 | Inl e \<Rightarrow> br_buf b @ x = [] \<and> br_buf b1 = []"
    by blast
  show ?case
  proof (cases res)
    case (Inl e)
    with x have nil: "br_buf b = []" "x = []" "br_buf b1 = []" by auto
    with "1.prems" rb Inl x show ?thesis
      by (auto simp: line_from_def ReadLine_loop.simps [of rd mx buf b w] split: if_splits prod.splits dest: finishLine_error)
  next
    case (Inr c)
    with x have c: "br_buf b @ x = c # br_buf b1" by simp
    consider (nul) "c = 0" | (big) "c \<noteq> 0" "mx \<le> int (length buf)" | (more) "c \<noteq> 0" "int (length buf) < mx" by linarith
    then show ?thesis
    proof cases
      case more
      have run: "ReadLine_loop rd mx (buf @ [c]) b1 w1 = ((line, term, err), b', w')"
        using "1.prems"(1) rb Inr more by (simp add: ReadLine_loop.simps [of rd mx buf b w])
      have "int (length (buf @ [c])) \<le> mx" "\<not> mx \<le> int (length buf)" using more by simp_all
      with 1(1) [OF rb [symmetric] Inr refl more(1) _ run] obtain y where
        "got w' = got w1 @ y" "line_from mx (buf @ [c]) (br_buf b1 @ y) line term err (br_buf b')" by auto
      with line_from_more [OF this(2) more(1)] x(1) c show ?thesis
        by (intro exI [of _ "x @ y"]) (metis append_Cons append_assoc)
    next
      case nul
      then show ?thesis using "1.prems" rb Inr x c
        by (cases "finishLine (string_of buf)")
          (auto simp: line_from_def ReadLine_loop.simps [of rd mx buf b w] dest: finishLine_error intro!: exI [of _ x])
    next
      case big
      with "1.prems"(1) rb Inr have "line = []" "\<not> term" "err = Some ErrResponseTooLarge" "w' = w1"
        by (simp_all add: ReadLine_loop.simps [of rd mx buf b w])
      with x(1) show ?thesis by (auto simp: line_from_def)
    qed
  qed
qed

lemma ReadLine_got:
  assumes "ReadLine rd mx new_bufio w = ((line, term, None), b', w')" "0 \<le> mx"
  shows "\<exists>content rest. got w' = got w @ bytes_of content @ (if term then 0 # rest else []) \<and>
    CHR 0x00 \<notin> set content \<and> line = trimEOL content \<and> int (length content) \<le> mx \<and>
    CHR 0x0D \<notin> set line \<and> CHR 0x0A \<notin> set line"
proof -
  from ReadLine_loop_got [OF assms(1) [unfolded ReadLine_def]] assms(2)
  obtain x content where x: "got w' = got w @ x"
    "x = content @ (if term then 0 # br_buf b' else [])" "0 \<notin> set content"
    "finishLine (string_of content) = (line, None)" "int (length content) \<le> mx"
    by (auto simp: new_bufio_def line_from_def)
  have "CHR 0x00 \<notin> set (string_of content)"
    using x(3) zero_in_bytes_of [of "string_of content"] by simp
  with x finishLine_ok [OF x(4)] show ?thesis
    by (intro exI [of _ "string_of content"] exI [of _ "br_buf b'"]) auto
qed

text \<open>
  The memory bound: however much the peer sends, no more than the limit, one byte and a buffer is
  received, and no more than the limit is returned.
\<close>

lemma ReadByte_received:
  assumes "ReadByte rd b w = (res, b', w')"
  shows "length (got w') + length (br_buf b) =
    length (got w) + length (br_buf b') + (case res of Inr _ \<Rightarrow> 1 | Inl _ \<Rightarrow> 0)"
proof -
  from ReadByte_got [OF assms] obtain x where x: "got w' = got w @ x"
    "case res of Inr c \<Rightarrow> br_buf b @ x = c # br_buf b' | Inl e \<Rightarrow> br_buf b @ x = [] \<and> br_buf b' = []" by blast
  then have "length (br_buf b @ x) = length (br_buf b') + (case res of Inr _ \<Rightarrow> 1 | Inl _ \<Rightarrow> 0)"
    by (cases res) auto
  with x(1) show ?thesis by simp
qed

lemma ReadLine_loop_received:
  assumes "ReadLine_loop rd mx buf b w = (r, b', w')" "length (br_buf b) \<le> bufio_size" "int (length buf) \<le> mx"
  shows "int (length (got w')) + int (length (br_buf b) + length buf) \<le> int (length (got w)) + mx + 1 + int bufio_size"
  using assms
proof (induction rd\<equiv>rd mx buf b w rule: ReadLine_loop.induct)
  case (1 mx buf b w)
  obtain res b1 w1 where rb: "ReadByte rd b w = (res, b1, w1)" by (metis prod.collapse)
  note fits = ReadByte_fits [OF rb "1.prems"(2)] and rec = ReadByte_received [OF rb]
  show ?case
  proof (cases "\<exists>c. res = Inr c \<and> c \<noteq> 0 \<and> int (length buf) < mx")
    case True
    then obtain c where c: "res = Inr c" "c \<noteq> 0" "int (length buf) < mx" by blast
    with "1.prems"(1) rb have run: "ReadLine_loop rd mx (buf @ [c]) b1 w1 = (r, b', w')"
      by (auto simp: ReadLine_loop.simps [of rd mx buf b w])
    from 1(1) [OF rb [symmetric] c(1) refl c(2) _ run fits] c rec show ?thesis by simp
  next
    case False
    with "1.prems"(1) rb have "w' = w1"
      by (cases res; auto simp: ReadLine_loop.simps [of rd mx buf b w] split: if_splits prod.splits)+
    with fits rec "1.prems"(3) show ?thesis by (cases res) simp_all
  qed
qed

lemma ReadBlock_loop_received:
  assumes "ReadBlock_loop rd mx buf b w = (r, b', w')" "length (br_buf b) \<le> bufio_size" "int (length buf) \<le> mx"
  shows "int (length (got w')) + int (length (br_buf b) + length buf) \<le> int (length (got w)) + mx + 1 + int bufio_size \<and>
    int (length (fst r)) \<le> mx"
  using assms
proof (induction rd\<equiv>rd mx buf b w rule: ReadBlock_loop.induct)
  case (1 mx buf b w)
  obtain res b1 w1 where rb: "ReadByte rd b w = (res, b1, w1)" by (metis prod.collapse)
  note fits = ReadByte_fits [OF rb "1.prems"(2)] and rec = ReadByte_received [OF rb]
  show ?case
  proof (cases "\<exists>c. res = Inr c \<and> c \<noteq> 0 \<and> int (length buf) < mx")
    case True
    then obtain c where c: "res = Inr c" "c \<noteq> 0" "int (length buf) < mx" by blast
    with "1.prems"(1) rb have run: "ReadBlock_loop rd mx (buf @ [c]) b1 w1 = (r, b', w')"
      by (auto simp: ReadBlock_loop.simps [of rd mx buf b w])
    from 1(1) [OF rb [symmetric] c(1) refl c(2) _ run fits] c rec show ?thesis by simp
  next
    case False
    with "1.prems"(1,3) rb have "w' = w1 \<and> int (length (fst r)) \<le> mx"
      by (cases res; auto simp: ReadBlock_loop.simps [of rd mx buf b w] split: if_splits prod.splits)+
    with fits rec "1.prems"(3) show ?thesis by (cases res) simp_all
  qed
qed

lemma received_bounds:
  assumes "0 \<le> mx"
  shows "ReadLine rd mx new_bufio w = (r, b', w') \<Longrightarrow>
      int (length (got w')) \<le> int (length (got w)) + mx + 1 + int bufio_size"
    and "ReadBlock rd mx new_bufio w = (r', b', w') \<Longrightarrow>
      int (length (got w')) \<le> int (length (got w)) + mx + 1 + int bufio_size \<and> int (length (fst r')) \<le> mx"
  using assms ReadLine_loop_received [of mx "[]" new_bufio w r b' w'] ReadBlock_loop_received [of mx "[]" new_bufio w r' b' w']
  by (simp_all add: ReadLine_def ReadBlock_def new_bufio_def)

lemma ReadLine_error:
  assumes "ReadLine rd mx b w = ((line, term, Some e), b', w')" "0 \<le> mx"
  shows "line = [] \<and> \<not> term"
  using ReadLine_loop_got [OF assms(1) [unfolded ReadLine_def]] assms(2) by (auto simp: line_from_def)

end

text \<open>
  A connection that also records whether a read has reported its end. A reply that was not ended by
  its NUL was ended by that: nothing that was received is left out of it.
\<close>

locale ended_conn = logged_conn rd got for rd :: "'w conn_reader" and got +
  fixes ended :: "'w \<Rightarrow> bool"
  assumes rd_ends: "rd w k = ((bs, Some IoEOF), w') \<Longrightarrow> ended w'"
    and rd_stays: "ended w \<Longrightarrow> rd w k = (r, w') \<Longrightarrow> ended w'"
begin

lemma bufio_fill_ended:
  "bufio_fill rd i b w = (b', w') \<Longrightarrow> (br_err b = Some IoEOF \<longrightarrow> ended w) \<Longrightarrow> br_err b' = Some IoEOF \<Longrightarrow> ended w'"
proof (induction i arbitrary: b w)
  case (Suc i)
  let ?k = "bufio_size - length (br_buf b)"
  obtain bs e w1 where rd: "rd w ?k = ((bs, e), w1)" by (metis prod.collapse)
  have e: "br_err b = Some IoEOF \<longrightarrow> ended w1" "e = Some IoEOF \<longrightarrow> ended w1"
    using Suc.prems(2) rd rd_stays rd_ends by blast+
  show ?case
  proof (cases "e = None \<and> take ?k bs = []")
    case True
    with Suc.prems(1) rd have "bufio_fill rd i (b\<lparr>br_buf := br_buf b @ take ?k bs\<rparr>) w1 = (b', w')"
      by (simp only: bufio_fill.simps Let_def) simp
    from Suc.IH [OF this] Suc.prems(3) e(1) show ?thesis by simp
  next
    case False
    with Suc.prems rd e show ?thesis by (auto simp: Let_def split: if_splits)
  qed
qed auto

lemma ReadByte_ended:
  assumes "ReadByte rd b w = (res, b', w')" "br_err b = Some IoEOF \<longrightarrow> ended w"
  shows "br_err b' = Some IoEOF \<longrightarrow> ended w'" "res = Inl IoEOF \<Longrightarrow> ended w'"
proof -
  have once: "(br_err b' = Some IoEOF \<longrightarrow> ended w') \<and> (res = Inl IoEOF \<longrightarrow> ended w')"
    if "ReadByte rd y v = (res, b', w')" "br_err y = Some IoEOF \<longrightarrow> ended v" "br_buf y \<noteq> [] \<or> br_err y \<noteq> None"
    for y v
    using that by (auto simp: ReadByte.simps [of rd y v] split: list.splits option.splits)
  have "(br_err b' = Some IoEOF \<longrightarrow> ended w') \<and> (res = Inl IoEOF \<longrightarrow> ended w')"
  proof (cases "br_buf b \<noteq> [] \<or> br_err b \<noteq> None")
    case True
    then show ?thesis using once assms by blast
  next
    case False
    obtain b1 w1 where f: "bufio_fill rd bufio_retries b w = (b1, w1)" by (metis prod.collapse)
    from assms(1) False f have "ReadByte rd b1 w1 = (res, b', w')" by (simp add: ReadByte.simps [of rd b w])
    then show ?thesis using once bufio_fill_ended [OF f assms(2)] bufio_fill_progress [OF f] by blast
  qed
  then show "br_err b' = Some IoEOF \<longrightarrow> ended w'" "res = Inl IoEOF \<Longrightarrow> ended w'" by simp_all
qed

lemma ReadLine_loop_ended:
  assumes "ReadLine_loop rd mx buf b w = ((line, False, None), b', w')" "br_err b = Some IoEOF \<longrightarrow> ended w"
  shows "ended w'"
  using assms
proof (induction rd\<equiv>rd mx buf b w rule: ReadLine_loop.induct)
  case (1 mx buf b w)
  obtain res b1 w1 where rb: "ReadByte rd b w = (res, b1, w1)" by (metis prod.collapse)
  note e = ReadByte_ended [OF rb "1.prems"(2)]
  show ?case
  proof (cases "\<exists>c. res = Inr c \<and> c \<noteq> 0 \<and> int (length buf) < mx")
    case True
    then obtain c where c: "res = Inr c" "c \<noteq> 0" "int (length buf) < mx" by blast
    with "1.prems"(1) rb have run: "ReadLine_loop rd mx (buf @ [c]) b1 w1 = ((line, False, None), b', w')"
      by (auto simp: ReadLine_loop.simps [of rd mx buf b w])
    from 1(1) [OF rb [symmetric] c(1) refl c(2) _ run e(1)] c(3) show ?thesis by simp
  next
    case False
    with "1.prems"(1) rb have "res = Inl IoEOF \<and> w' = w1"
      by (cases res; auto simp: ReadLine_loop.simps [of rd mx buf b w] split: if_splits prod.splits)
    with e(2) show ?thesis by simp
  qed
qed

lemma ReadLine_ended: "ReadLine rd mx new_bufio w = ((line, False, None), b', w') \<Longrightarrow> ended w'"
  using ReadLine_loop_ended unfolding ReadLine_def by (force simp: new_bufio_def)

lemma ReadBlock_loop_got:
  assumes "ReadBlock_loop rd mx buf b w = ((reply, None), b', w')" "br_err b = Some IoEOF \<longrightarrow> ended w"
  shows "\<exists>x content. got w' = got w @ x \<and> 0 \<notin> set content \<and> reply = string_of (buf @ content) \<and>
    (br_buf b @ x = content @ 0 # br_buf b' \<or> br_buf b @ x = content \<and> ended w')"
  using assms
proof (induction rd\<equiv>rd mx buf b w rule: ReadBlock_loop.induct)
  case (1 mx buf b w)
  obtain res b1 w1 where rb: "ReadByte rd b w = (res, b1, w1)" by (metis prod.collapse)
  from ReadByte_got [OF rb] obtain x where x: "got w1 = got w @ x"
    "case res of Inr c \<Rightarrow> br_buf b @ x = c # br_buf b1 | Inl e \<Rightarrow> br_buf b @ x = [] \<and> br_buf b1 = []" by blast
  note e = ReadByte_ended [OF rb "1.prems"(2)]
  show ?case
  proof (cases "\<exists>c. res = Inr c \<and> c \<noteq> 0")
    case True
    then obtain c where c: "res = Inr c" "c \<noteq> 0" by blast
    with "1.prems"(1) rb have small: "\<not> mx \<le> int (length buf)"
      and run: "ReadBlock_loop rd mx (buf @ [c]) b1 w1 = ((reply, None), b', w')"
      by (auto simp: ReadBlock_loop.simps [of rd mx buf b w] split: if_splits)
    from 1(1) [OF rb [symmetric] c(1) refl c(2) small run e(1)] obtain y d where
      y: "got w' = got w1 @ y" "0 \<notin> set d" "reply = string_of ((buf @ [c]) @ d)"
        "br_buf b1 @ y = d @ 0 # br_buf b' \<or> br_buf b1 @ y = d \<and> ended w'" by blast
    have "br_buf b @ x = c # br_buf b1" using x(2) c(1) by simp
    from arg_cong [OF this, of "\<lambda>z. z @ y"] have xy: "br_buf b @ x @ y = c # br_buf b1 @ y" by simp
    from y(4) have "br_buf b @ x @ y = (c # d) @ 0 # br_buf b' \<or> br_buf b @ x @ y = c # d \<and> ended w'"
      by (elim disjE) (simp_all add: xy)
    moreover have "0 \<notin> set (c # d)" "reply = string_of (buf @ c # d)" "got w' = got w @ x @ y" using x(1) c(2) y by simp_all
    ultimately show ?thesis by blast
  next
    case False
    with "1.prems"(1) rb have "w' = w1 \<and> b' = b1 \<and> reply = string_of buf \<and> (res = Inr 0 \<or> res = Inl IoEOF)"
      by (cases res; auto simp: ReadBlock_loop.simps [of rd mx buf b w] split: if_splits)
    then have "got w' = got w @ x" "reply = string_of (buf @ [])"
      "br_buf b @ x = [] @ 0 # br_buf b' \<or> br_buf b @ x = [] \<and> ended w'" using x e(2) by auto
    moreover have "0 \<notin> set ([] :: bytes)" by simp
    ultimately show ?thesis by blast
  qed
qed

lemma ReadBlock_got:
  assumes "ReadBlock rd mx new_bufio w = ((reply, None), b', w')"
  shows "CHR 0x00 \<notin> set reply \<and>
    ((\<exists>rest. got w' = got w @ bytes_of reply @ 0 # rest) \<or> got w' = got w @ bytes_of reply \<and> ended w')"
proof -
  have "br_err new_bufio = Some IoEOF \<longrightarrow> ended w" by (simp add: new_bufio_def)
  from ReadBlock_loop_got [OF assms [unfolded ReadBlock_def] this] obtain content where
    "0 \<notin> set content" "reply = string_of content"
    "got w' = got w @ content @ 0 # br_buf b' \<or> got w' = got w @ content \<and> ended w'"
    by (auto simp: new_bufio_def)
  with zero_in_bytes_of [of "string_of content"] show ?thesis by auto
qed

end

text \<open>
  A connection on which the bytes \<open>pending\<close> arrive, cut anywhere, and which then ends.
\<close>

locale byte_stream =
  fixes rd :: "'w conn_reader" and pending :: "'w \<Rightarrow> bytes" and live :: "'w \<Rightarrow> bool"
  assumes rd_pending:
    "live w \<Longrightarrow> 0 < k \<Longrightarrow> \<exists>m e w'. rd w k = ((take m (pending w), e), w') \<and> m \<le> k \<and>
       m \<le> length (pending w) \<and> pending w' = drop m (pending w) \<and> live w' \<and>
       (e = None \<and> 0 < m \<or> e = Some IoEOF \<and> pending w' = [])"
begin

definition in_step :: "bufio \<Rightarrow> 'w \<Rightarrow> bool" where
  "in_step b w \<longleftrightarrow> live w \<and> (br_err b = None \<or> br_err b = Some IoEOF \<and> pending w = [])"

lemma ReadByte_buffered:
  "br_buf b = c # cs \<Longrightarrow> ReadByte rd b w = (Inr c, b\<lparr>br_buf := cs\<rparr>, w)"
  by (simp add: ReadByte.simps [of rd b w])

text \<open>Filling an empty buffer brings some of the pending bytes, or the end.\<close>

lemma ReadByte_fills:
  assumes "in_step b w" "br_buf b = []" "br_err b = None"
  obtains m e w1 where "ReadByte rd b w = ReadByte rd (b\<lparr>br_buf := take m (pending w), br_err := e\<rparr>) w1"
    "pending w1 = drop m (pending w)" "live w1" "m \<le> length (pending w)"
    "e = None \<and> 0 < m \<or> e = Some IoEOF \<and> pending w1 = []"
proof -
  have "0 < bufio_size" by (simp add: bufio_size_def)
  with assms rd_pending [of w bufio_size] obtain m e w1 where
    rd: "rd w bufio_size = ((take m (pending w), e), w1)" and m: "m \<le> bufio_size" "m \<le> length (pending w)"
    and w1: "pending w1 = drop m (pending w)" "live w1" and e: "e = None \<and> 0 < m \<or> e = Some IoEOF \<and> pending w1 = []"
    by (auto simp: in_step_def)
  have "bufio_fill rd bufio_retries b w = (b\<lparr>br_buf := take m (pending w), br_err := e\<rparr>, w1)"
    using rd m e assms(2,3) by (cases b) (auto simp: bufio_retries_def numeral_eq_Suc Let_def min_absorb1)
  then show thesis
    using that w1 m(2) e assms(2,3) by (simp add: ReadByte.simps [of rd b w])
qed

lemma ReadByte_stream:
  assumes "in_step b w"
  shows "\<exists>b' w'. in_step b' w' \<and>
    (case br_buf b @ pending w of
       c # cs \<Rightarrow> ReadByte rd b w = (Inr c, b', w') \<and> br_buf b' @ pending w' = cs
     | [] \<Rightarrow> ReadByte rd b w = (Inl IoEOF, b', w'))"
proof -
  consider c cs where "br_buf b = c # cs" | e where "br_buf b = []" "br_err b = Some e" | (fill) "br_buf b = []" "br_err b = None"
    by (metis neq_Nil_conv not_None_eq)
  then show ?thesis
  proof cases
    case 1
    with assms ReadByte_buffered [OF 1, of w] show ?thesis
      by (intro exI [of _ "b\<lparr>br_buf := cs\<rparr>"] exI [of _ w]) (simp add: in_step_def)
  next
    case 2
    with assms show ?thesis
      by (intro exI [of _ "b\<lparr>br_err := None\<rparr>"] exI [of _ w]) (simp add: in_step_def ReadByte.simps [of rd b w])
  next
    case fill
    from ReadByte_fills [OF assms fill] obtain m e w1 where
      go: "ReadByte rd b w = ReadByte rd (b\<lparr>br_buf := take m (pending w), br_err := e\<rparr>) w1"
      and w1: "pending w1 = drop m (pending w)" "live w1" "m \<le> length (pending w)"
      and e: "e = None \<and> 0 < m \<or> e = Some IoEOF \<and> pending w1 = []" .
    show ?thesis
    proof (cases "take m (pending w)")
      case Nil
      with e w1 have ep: "e = Some IoEOF" "pending w = []" by auto
      have "ReadByte rd b w = (Inl IoEOF, b\<lparr>br_buf := [], br_err := None\<rparr>, w1)"
        unfolding go by (subst ReadByte.simps) (simp add: ep)
      with fill w1 ep show ?thesis
        by (intro exI [of _ "b\<lparr>br_buf := [], br_err := None\<rparr>"] exI [of _ w1]) (simp add: in_step_def)
    next
      case (Cons c cs)
      let ?b = "b\<lparr>br_buf := cs, br_err := e\<rparr>"
      have p: "pending w = c # cs @ pending w1" using Cons w1(1) by (metis append_Cons append_take_drop_id)
      have "in_step ?b w1" using e w1 by (auto simp: in_step_def)
      moreover have "ReadByte rd b w = (Inr c, ?b, w1)" unfolding go by (subst ReadByte_buffered [of _ c cs]) (use Cons in \<open>cases b; simp\<close>)+
      ultimately show ?thesis using fill p by (intro exI [of _ ?b] exI [of _ w1]) simp
    qed
  qed
qed

lemma ReadByte_end:
  assumes "in_step b w" "br_buf b @ pending w = []"
  shows "\<exists>b' w'. ReadByte rd b w = (Inl IoEOF, b', w') \<and> in_step b' w'"
  using ReadByte_stream [OF assms(1)] assms(2) by auto

lemma ReadByte_next:
  assumes "in_step b w" "br_buf b @ pending w = c # cs"
  shows "\<exists>b' w'. ReadByte rd b w = (Inr c, b', w') \<and> in_step b' w' \<and> br_buf b' @ pending w' = cs"
  using ReadByte_stream [OF assms(1)] unfolding assms(2) by auto

text \<open>Whatever the fragments, a line is the line of the stream, and a block the block.\<close>

lemma ReadLine_loop_stream:
  assumes "in_step b w"
  shows "\<exists>b' w'. ReadLine_loop rd mx buf b w = (line_of mx buf (br_buf b @ pending w), b', w') \<and>
    in_step b' w'"
  using assms
proof (induction "br_buf b @ pending w" arbitrary: buf b w)
  case Nil
  from ReadByte_end [OF Nil.prems Nil.hyps [symmetric]] obtain b' w' where
    "ReadByte rd b w = (Inl IoEOF, b', w')" "in_step b' w'" by blast
  with Nil.hyps show ?case
    by (auto simp: ReadLine_loop.simps [of rd mx buf b w] Nil.hyps [symmetric] split: prod.splits)
next
  case (Cons c cs)
  from ReadByte_next [OF Cons.prems Cons.hyps(2) [symmetric]] obtain b' w' where
    rb: "ReadByte rd b w = (Inr c, b', w')" "in_step b' w'" "br_buf b' @ pending w' = cs" by blast
  have rec: "\<exists>b'' w''. ReadLine_loop rd mx (buf @ [c]) b' w' =
      (line_of mx (buf @ [c]) (br_buf b' @ pending w'), b'', w'') \<and> in_step b'' w''"
    by (rule Cons.hyps(1)) (use rb in auto)
  then show ?case
    using rb by (auto simp: ReadLine_loop.simps [of rd mx buf b w] Cons.hyps(2) [symmetric]
        split: prod.splits)
qed

lemma ReadBlock_loop_stream:
  assumes "in_step b w"
  shows "\<exists>b' w'. ReadBlock_loop rd mx buf b w = (block_of mx buf (br_buf b @ pending w), b', w') \<and>
    in_step b' w'"
  using assms
proof (induction "br_buf b @ pending w" arbitrary: buf b w)
  case Nil
  from ReadByte_end [OF Nil.prems Nil.hyps [symmetric]] obtain b' w' where
    "ReadByte rd b w = (Inl IoEOF, b', w')" "in_step b' w'" by blast
  with Nil.hyps show ?case
    by (auto simp: ReadBlock_loop.simps [of rd mx buf b w] Nil.hyps [symmetric])
next
  case (Cons c cs)
  from ReadByte_next [OF Cons.prems Cons.hyps(2) [symmetric]] obtain b' w' where
    rb: "ReadByte rd b w = (Inr c, b', w')" "in_step b' w'" "br_buf b' @ pending w' = cs" by blast
  have rec: "\<exists>b'' w''. ReadBlock_loop rd mx (buf @ [c]) b' w' =
      (block_of mx (buf @ [c]) (br_buf b' @ pending w'), b'', w'') \<and> in_step b'' w''"
    by (rule Cons.hyps(1)) (use rb in auto)
  then show ?case
    using rb by (auto simp: ReadBlock_loop.simps [of rd mx buf b w] Cons.hyps(2) [symmetric])
qed

lemma ReadLine_stream:
  assumes "live w"
  shows "fst (ReadLine rd mx new_bufio w) = line_of mx [] (pending w)"
  using ReadLine_loop_stream [of new_bufio w mx "[]"] assms
  by (auto simp: in_step_def new_bufio_def ReadLine_def)

lemma ReadBlock_stream:
  assumes "live w"
  shows "fst (ReadBlock rd mx new_bufio w) = block_of mx [] (pending w)"
  using ReadBlock_loop_stream [of new_bufio w mx "[]"] assms
  by (auto simp: in_step_def new_bufio_def ReadBlock_def)

end

end
