(* ===== verification/World.thy ===== *)
theory World
  imports Framing ReplyReader
begin

text \<open>
  What a call of the library runs in: the clock, the caller's \<open>context.Context\<close>, the
  connection of the command in progress, the caller's reader and the watcher goroutine
  that \<open>context.AfterFunc\<close> starts.

  The outside world is an argument, never a definition. \<open>env\<close> gives the time and the
  scheduler's choices, a \<open>go_context\<close> says when it is done and why, a \<open>conn\<close> and a
  \<open>source\<close> answer each call as they like, knowing everything that happened so far (they
  are given the whole \<open>world\<close>). Every interaction first ticks the clock, so the context
  may become done, and the watcher may run, between any two steps of the code.

  The \<open>world\<close> records what matters to the theorems: the bytes accepted by and received
  from the connection and whether a \<open>Read\<close> on it has reported its end, the bytes the source has
  delivered and its failure, the connection's deadline, how many connections, slots and files are
  held, and how many slots and files were ever taken and opened.
\<close>

subsection \<open>State\<close>

type_synonym time = int

datatype watcher = Unarmed | Armed | Fired | Stopped

record world =
  clock :: nat
  conn_deadline :: "time option"
  watch :: watcher
  slammed :: bool
  wire_out :: bytes
  wire_in :: bytes
  wire_eof :: bool
  opened :: nat
  closed :: nat
  src_log :: bytes
  src_eof :: bool
  src_failed :: "goerr option"
  slots_held :: nat
  slots_taken :: nat
  files_open :: nat
  files_opened :: nat

definition fresh_world :: world where
  "fresh_world = \<lparr>clock = 0, conn_deadline = None, watch = Unarmed, slammed = False,
     wire_out = [], wire_in = [], wire_eof = False, opened = 0, closed = 0, src_log = [], src_eof = False,
     src_failed = None, slots_held = 0, slots_taken = 0, files_open = 0, files_opened = 0\<rparr>"

datatype ctx_cause = ByCancel | ByDeadline

record go_context =
  ctx_done_at :: "nat option"
  ctx_because :: ctx_cause
  ctx_deadline :: "time option"

text \<open>\<open>context.Background()\<close>.\<close>

definition background :: go_context where
  "background = \<lparr>ctx_done_at = None, ctx_because = ByCancel, ctx_deadline = None\<rparr>"

text \<open>
  \<open>e_fire k\<close>: whether the scheduler runs the watcher at tick \<open>k\<close>, and then whether its
  \<open>SetDeadline\<close> succeeds; \<open>e_others k\<close>: the slots other calls hold; \<open>e_select k\<close>: the
  choice of a \<open>select\<close> with two ready cases; \<open>e_timer k\<close>: the tick at which a timer
  started at tick \<open>k\<close> expires.
\<close>

record env =
  e_now :: "nat \<Rightarrow> time"
  e_fire :: "nat \<Rightarrow> bool option"
  e_others :: "nat \<Rightarrow> nat"
  e_select :: "nat \<Rightarrow> bool"
  e_timer :: "nat \<Rightarrow> nat option"

text \<open>
  A connection: \<open>Write\<close> answers the count it accepted, \<open>Read\<close> the bytes it got.
\<close>

record conn =
  conn_write :: "world \<Rightarrow> bytes \<Rightarrow> int \<times> goerr option"
  conn_read :: "world \<Rightarrow> nat \<Rightarrow> bytes \<times> goerr option"
  conn_set_deadline :: "world \<Rightarrow> time \<Rightarrow> goerr option"

text \<open>
  A caller's reader stores bytes and reports their number, which may be more than were
  asked for, or reports a negative number.
\<close>

datatype src_answer = Stored bytes | Negative nat

type_synonym source = "world \<Rightarrow> nat \<Rightarrow> src_answer \<times> goerr option"

subsection \<open>Time, contexts and the watcher\<close>

definition abortDeadline :: time where
  "abortDeadline = 1000000000"

definition ctx_done :: "go_context \<Rightarrow> world \<Rightarrow> bool" where
  "ctx_done ctx w = (case ctx_done_at ctx of None \<Rightarrow> False | Some k \<Rightarrow> k \<le> clock w)"

definition ctx_reason :: "go_context \<Rightarrow> goerr" where
  "ctx_reason ctx = (case ctx_because ctx of ByCancel \<Rightarrow> CtxCanceled | ByDeadline \<Rightarrow> CtxDeadlineExceeded)"

definition tick :: "env \<Rightarrow> go_context \<Rightarrow> world \<Rightarrow> world" where
  "tick env ctx w =
     (let w1 = w\<lparr>clock := Suc (clock w)\<rparr> in
      if watch w1 = Armed \<and> ctx_done ctx w1
      then (case e_fire env (clock w1) of
              None \<Rightarrow> w1
            | Some False \<Rightarrow> w1\<lparr>watch := Fired\<rparr>
            | Some True \<Rightarrow> w1\<lparr>watch := Fired, slammed := True, conn_deadline := Some abortDeadline\<rparr>)
      else w1)"

text \<open>\<open>ctx.Err()\<close> and \<open>time.Now()\<close>.\<close>

definition ctx_Err :: "env \<Rightarrow> go_context \<Rightarrow> world \<Rightarrow> goerr option \<times> world" where
  "ctx_Err env ctx w =
     (let w1 = tick env ctx w in (if ctx_done ctx w1 then Some (ctx_reason ctx) else None, w1))"

definition time_Now :: "env \<Rightarrow> go_context \<Rightarrow> world \<Rightarrow> time \<times> world" where
  "time_Now env ctx w = (let w1 = tick env ctx w in (e_now env (clock w1), w1))"

text \<open>\<open>context.WithTimeout\<close>: done with its parent, or when its own timer expires.\<close>

definition WithTimeout :: "env \<Rightarrow> go_context \<Rightarrow> time \<Rightarrow> world \<Rightarrow> go_context \<times> world" where
  "WithTimeout env ctx d w =
     (case time_Now env ctx w of (now, w1) \<Rightarrow>
        let dl = (case ctx_deadline ctx of Some p \<Rightarrow> min p (now + d) | None \<Rightarrow> now + d) in
        (case (e_timer env (clock w1), ctx_done_at ctx) of
           (Some t, Some p) \<Rightarrow>
             if t < p then (ctx\<lparr>ctx_deadline := Some dl, ctx_done_at := Some t, ctx_because := ByDeadline\<rparr>, w1)
             else (ctx\<lparr>ctx_deadline := Some dl\<rparr>, w1)
         | (Some t, None) \<Rightarrow>
             (ctx\<lparr>ctx_deadline := Some dl, ctx_done_at := Some t, ctx_because := ByDeadline\<rparr>, w1)
         | (None, _) \<Rightarrow> (ctx\<lparr>ctx_deadline := Some dl\<rparr>, w1)))"

text \<open>\<open>conn.SetDeadline\<close>, \<open>context.AfterFunc\<close> on a new connection, its \<open>stop\<close>, \<open>conn.Close\<close>.\<close>

definition set_deadline ::
  "env \<Rightarrow> go_context \<Rightarrow> conn \<Rightarrow> time \<Rightarrow> world \<Rightarrow> goerr option \<times> world" where
  "set_deadline env ctx cn t w =
     (let w1 = tick env ctx w in
      (case conn_set_deadline cn w1 t of
         Some e \<Rightarrow> (Some e, w1)
       | None \<Rightarrow> (None, w1\<lparr>conn_deadline := Some t\<rparr>)))"

definition connected :: "world \<Rightarrow> world" where
  "connected w = w\<lparr>opened := Suc (opened w), wire_out := [], wire_in := [], wire_eof := False, conn_deadline := None,
     watch := Unarmed, slammed := False\<rparr>"

definition AfterFunc_abort :: "world \<Rightarrow> world" where
  "AfterFunc_abort w = w\<lparr>watch := Armed\<rparr>"

definition stop_watch :: "world \<Rightarrow> world" where
  "stop_watch w = (if watch w = Armed then w\<lparr>watch := Stopped\<rparr> else w)"

definition close_conn :: "world \<Rightarrow> world" where
  "close_conn w = w\<lparr>closed := Suc (closed w)\<rparr>"

subsection \<open>What a tick leaves alone\<close>

lemma tick_frame [simp]:
  "wire_out (tick env ctx w) = wire_out w" "wire_in (tick env ctx w) = wire_in w" "wire_eof (tick env ctx w) = wire_eof w"
  "opened (tick env ctx w) = opened w" "closed (tick env ctx w) = closed w"
  "src_log (tick env ctx w) = src_log w" "src_eof (tick env ctx w) = src_eof w"
  "src_failed (tick env ctx w) = src_failed w"
  "slots_held (tick env ctx w) = slots_held w" "files_open (tick env ctx w) = files_open w"
  "slots_taken (tick env ctx w) = slots_taken w" "files_opened (tick env ctx w) = files_opened w"
  "clock (tick env ctx w) = Suc (clock w)"
  by (auto simp: tick_def Let_def split: option.splits bool.splits)

lemma ctx_done_mono: "ctx_done ctx w \<Longrightarrow> clock w \<le> clock w' \<Longrightarrow> ctx_done ctx w'"
  by (auto simp: ctx_done_def split: option.splits)

lemma ctx_done_tick: "ctx_done ctx w \<Longrightarrow> ctx_done ctx (tick env ctx w)"
  by (erule ctx_done_mono) simp

lemma background_live [simp]: "ctx_done_at background = None" "ctx_deadline background = None"
  by (simp_all add: background_def)

text \<open>A record of the world: fields that an interaction which is not theirs leaves alone.\<close>

definition same_books :: "world \<Rightarrow> world \<Rightarrow> bool" where
  "same_books w w' \<longleftrightarrow> opened w' = opened w \<and> closed w' = closed w \<and>
     slots_held w' = slots_held w \<and> files_open w' = files_open w"

lemma same_books_refl [simp]: "same_books w w"
  by (simp add: same_books_def)

lemma same_books_trans [trans]: "same_books w w' \<Longrightarrow> same_books w' w'' \<Longrightarrow> same_books w w''"
  by (simp add: same_books_def)

lemma same_books_tick [simp]: "same_books w (tick env ctx w)"
  by (simp add: same_books_def)

end
