(* ===== verification/Connection.thy ===== *)
theory Connection
  imports World
begin

text \<open>
  The connection wrapper (\<open>conn.go\<close>: \<open>deadlineConn\<close> with \<open>refresh\<close>, \<open>Read\<close> and
  \<open>Write\<close>) and the source wrapper (\<open>client.go\<close>: \<open>ctxReader\<close>).

  They provide the interfaces of \<open>Proto\<close> and \<open>ReplyReader\<close>: the interpretations below
  discharge the laws of \<open>streaming\<close> and \<open>ended_conn\<close> for them, so that every lemma of
  the protocol holds of the bytes on this connection. The invariant \<open>abort_kept\<close> says
  that the abort deadline set by the watcher is never lost to the race with a refresh.
\<close>

subsection \<open>deadlineConn\<close>

definition refresh :: "env \<Rightarrow> go_context \<Rightarrow> conn \<Rightarrow> time \<Rightarrow> world \<Rightarrow> goerr option \<times> world" where
  "refresh env ctx cn ioTimeout w =
     (case ctx_Err env ctx w of
        (Some e, w1) \<Rightarrow> (Some e, w1)
      | (None, w1) \<Rightarrow>
          (case time_Now env ctx w1 of (now, w2) \<Rightarrow>
             let t = now + ioTimeout;
                 t = (case ctx_deadline ctx of Some dl \<Rightarrow> if dl < t then dl else t | None \<Rightarrow> t) in
             (case set_deadline env ctx cn t w2 of
                (Some e, w3) \<Rightarrow> (Some e, w3)
              | (None, w3) \<Rightarrow>
                  (case ctx_Err env ctx w3 of
                     (Some e, w4) \<Rightarrow> (Some e, snd (set_deadline env ctx cn abortDeadline w4))
                   | (None, w4) \<Rightarrow> (None, w4)))))"

definition dc_read :: "env \<Rightarrow> go_context \<Rightarrow> conn \<Rightarrow> time \<Rightarrow> world conn_reader" where
  "dc_read env ctx cn ioTimeout w k =
     (case refresh env ctx cn ioTimeout w of
        (Some e, w1) \<Rightarrow> (([], Some e), w1\<lparr>wire_eof := (wire_eof w1 \<or> e = IoEOF)\<rparr>)
      | (None, w1) \<Rightarrow>
          let w2 = tick env ctx w1 in
          (case conn_read cn w2 k of (bs, e) \<Rightarrow>
             ((take k bs, e), w2\<lparr>wire_in := wire_in w2 @ take k bs, wire_eof := (wire_eof w2 \<or> e = Some IoEOF)\<rparr>)))"

definition dc_write :: "env \<Rightarrow> go_context \<Rightarrow> conn \<Rightarrow> time \<Rightarrow> world writer" where
  "dc_write env ctx cn ioTimeout w p =
     (case refresh env ctx cn ioTimeout w of
        (Some e, w1) \<Rightarrow> ((0, Some e), w1)
      | (None, w1) \<Rightarrow>
          let w2 = tick env ctx w1 in
          (case conn_write cn w2 p of (n, e) \<Rightarrow>
             ((n, e), w2\<lparr>wire_out := wire_out w2 @ take (nat n) p\<rparr>)))"

subsection \<open>ctxReader\<close>

definition src_count :: "src_answer \<Rightarrow> int" where
  "src_count a = (case a of Stored bs \<Rightarrow> int (length bs) | Negative m \<Rightarrow> - int (Suc m))"

definition src_bytes :: "src_answer \<Rightarrow> bytes" where
  "src_bytes a = (case a of Stored bs \<Rightarrow> bs | Negative _ \<Rightarrow> [])"

definition ctx_read :: "env \<Rightarrow> go_context \<Rightarrow> source \<Rightarrow> world reader" where
  "ctx_read env ctx src w k =
     (case ctx_Err env ctx w of
        (Some e, w1) \<Rightarrow> ((0, [], Some (SourceAborted e)), w1)
      | (None, w1) \<Rightarrow>
          let w2 = tick env ctx w1 in
          (case src w2 k of (a, e) \<Rightarrow>
             ((src_count a, src_bytes a, e),
              if 0 \<le> src_count a \<and> src_count a \<le> int k
              then w2\<lparr>src_log := src_log w2 @ src_bytes a, src_eof := (src_eof w2 \<or> e = Some IoEOF),
                     src_failed := (if e = None \<or> e = Some IoEOF then src_failed w2 else e)\<rparr>
              else w2)))"

subsection \<open>What these steps leave alone\<close>

lemma ctx_Err_world [simp]: "snd (ctx_Err env ctx w) = tick env ctx w"
  by (simp add: ctx_Err_def Let_def)

lemma ctx_ErrD: "ctx_Err env ctx w = (r, w') \<Longrightarrow>
    w' = tick env ctx w \<and> (r = None \<longleftrightarrow> \<not> ctx_done ctx w') \<and> (r \<noteq> None \<longrightarrow> r = Some (ctx_reason ctx))"
  by (auto simp: ctx_Err_def Let_def split: if_splits)

lemma set_deadlineD: "set_deadline env ctx cn t w = (r, w') \<Longrightarrow>
    (r = None \<and> w' = (tick env ctx w)\<lparr>conn_deadline := Some t\<rparr>) \<or> (r \<noteq> None \<and> w' = tick env ctx w)"
  by (auto simp: set_deadline_def Let_def split: option.splits)

text \<open>
  What holds of a tick and of a change of the deadline holds of the whole refresh.
\<close>

lemma refresh_preserves:
  assumes "refresh env ctx cn d w = (r, w')" "P w"
    and tick: "\<And>v. P v \<Longrightarrow> P (tick env ctx v)"
    and dl: "\<And>v t. P v \<Longrightarrow> P (v\<lparr>conn_deadline := t\<rparr>)"
  shows "P w'"
proof -
  have s: "P (snd (set_deadline env ctx cn t v))" if "P v" for t v
    using that tick dl by (simp add: set_deadline_def Let_def split: option.splits)
  show ?thesis
    using assms(1,2)
    by (auto simp: refresh_def time_Now_def Let_def intro!: s tick
        split: prod.splits option.splits dest!: ctx_ErrD set_deadlineD intro: dl)
qed

lemma refresh_frame:
  assumes "refresh env ctx cn d w = (r, w')"
  shows "wire_out w' = wire_out w" "wire_in w' = wire_in w" "src_log w' = src_log w"
    "src_eof w' = src_eof w" "same_books w w'" "src_failed w' = src_failed w" "wire_eof w' = wire_eof w"
  using refresh_preserves [OF assms, of "\<lambda>v. wire_out v = wire_out w \<and> wire_in v = wire_in w \<and>
      src_log v = src_log w \<and> src_eof v = src_eof w \<and> same_books w v \<and> src_failed v = src_failed w \<and> wire_eof v = wire_eof w"]
  by (auto simp: same_books_def)

lemma dc_read_frame:
  assumes "dc_read env ctx cn d w k = (r, w')"
  shows "wire_out w' = wire_out w" "src_log w' = src_log w" "src_eof w' = src_eof w" "same_books w w'" "src_failed w' = src_failed w"
  using assms refresh_frame
  by (fastforce simp: dc_read_def Let_def same_books_def split: prod.splits option.splits)+

lemma dc_write_frame:
  assumes "dc_write env ctx cn d w p = (r, w')"
  shows "wire_in w' = wire_in w" "src_log w' = src_log w" "src_eof w' = src_eof w" "same_books w w'" "src_failed w' = src_failed w"
    "wire_eof w' = wire_eof w"
  using assms refresh_frame
  by (fastforce simp: dc_write_def Let_def same_books_def split: prod.splits option.splits)+

lemma ctx_read_frame:
  assumes "ctx_read env ctx src w k = (r, w')"
  shows "wire_out w' = wire_out w" "wire_in w' = wire_in w" "same_books w w'"
  using assms
  by (fastforce simp: ctx_read_def Let_def same_books_def split: prod.splits option.splits if_splits
      dest: ctx_ErrD)+

lemma dc_write_accepts:
  assumes "dc_write env ctx cn d w p = ((n, e), w')"
  shows "\<exists>k \<le> length p. wire_out w' = wire_out w @ take k p \<and>
    (e = None \<and> n = int (length p) \<longrightarrow> k = length p)"
proof (cases "refresh env ctx cn d w")
  case (Pair r w1)
  note f = refresh_frame [OF Pair]
  show ?thesis
  proof (cases r)
    case (Some x)
    with assms Pair f show ?thesis by (intro exI [of _ 0]) (auto simp: dc_write_def)
  next
    case None
    with assms Pair f have "wire_out w' = wire_out w @ take (min (nat n) (length p)) p"
      by (auto simp: dc_write_def Let_def min_def split: prod.splits)
    then show ?thesis by (intro exI [of _ "min (nat n) (length p)"]) auto
  qed
qed

lemma dc_read_got:
  "dc_read env ctx cn d w k = ((bs, e), w') \<Longrightarrow> wire_in w' = wire_in w @ take k bs"
  using refresh_frame(2) by (fastforce simp: dc_read_def Let_def split: prod.splits option.splits)

lemma dc_read_eof:
  assumes "dc_read env ctx cn d w k = ((bs, e), w')"
  shows "wire_eof w' \<longleftrightarrow> wire_eof w \<or> e = Some IoEOF"
  using assms refresh_frame(7) by (fastforce simp: dc_read_def Let_def split: prod.splits option.splits)

lemma src_answer_laws [simp]:
  "0 \<le> src_count a \<Longrightarrow> nat (src_count a) = length (src_bytes a)"
  by (cases a) (auto simp: src_count_def src_bytes_def)

lemma ctx_read_delivers:
  assumes "ctx_read env ctx src w k = ((nn, data, e), w')"
  shows "0 \<le> nn \<Longrightarrow> nn \<le> int k \<Longrightarrow> nat nn \<le> length data \<and>
      src_log w' = src_log w @ take (nat nn) data \<and> (e = Some IoEOF \<longrightarrow> src_eof w')"
    "nn < 0 \<or> nn > int k \<Longrightarrow> src_log w' = src_log w"
  using assms by (auto simp: ctx_read_def Let_def split: prod.splits option.splits if_splits
      dest!: ctx_ErrD)

subsection \<open>The interfaces, provided\<close>

interpretation dc_sink: frame_sink "dc_write env ctx cn d" wire_out for env ctx cn d
  by unfold_locales (rule dc_write_accepts)

interpretation caller: data_source "ctx_read env ctx src" src_log src_eof for env ctx src
  by unfold_locales (use ctx_read_delivers in blast)+

interpretation dc_stream: streaming "dc_write env ctx cn d" wire_out "ctx_read env ctx src" src_log src_eof
  for env ctx cn d src
  by unfold_locales (use dc_write_frame ctx_read_frame in auto)

text \<open>A caller's reader that delivers at most \<open>N\<close> bytes in all before it reports an error or its end.\<close>

definition finite_source :: "nat \<Rightarrow> source \<Rightarrow> bool" where
  "finite_source N src \<longleftrightarrow>
     (\<forall>w k a. src w k = (a, None) \<and> 0 \<le> src_count a \<and> src_count a \<le> int k \<longrightarrow>
        length (src_log w) + nat (src_count a) \<le> N)"

lemma caller_ends:
  assumes "finite_source N src"
  shows "ending_source (dc_write env ctx cn d) (ctx_read env ctx src) (\<lambda>w. N - length (src_log w))"
proof
  fix w k n data w' assume r: "ctx_read env ctx src w k = ((n, data, None), w')" "0 \<le> n" "n \<le> int k"
  let ?w = "tick env ctx (tick env ctx w)"
  from r obtain a where a: "src ?w k = (a, None)" "n = src_count a" "src_log w' = src_log w @ src_bytes a"
    by (auto simp: ctx_read_def ctx_Err_def Let_def split: if_splits prod.splits)
  with assms r have "length (src_log ?w) + nat n \<le> N" unfolding finite_source_def by metis
  then show "N - length (src_log w') + nat n \<le> N - length (src_log w)"
    using a(2,3) r(2) by (simp add: src_answer_laws)
next
  fix w k res w' assume "ctx_read env ctx src w k = (res, w')"
  then have "length (src_log w) \<le> length (src_log w')"
    by (auto simp: ctx_read_def ctx_Err_def Let_def split: if_splits prod.splits)
  then show "N - length (src_log w') \<le> N - length (src_log w)" by (rule diff_le_mono2)
next
  fix w bs res w' assume "dc_write env ctx cn d w bs = (res, w')"
  then show "N - length (src_log w') \<le> N - length (src_log w)" using dc_write_frame(2) by simp
qed

text \<open>The source's failure, and the library's own stop.\<close>

interpretation caller_failure: failing_source "dc_write env ctx cn d" "ctx_read env ctx src" src_failed
  "\<lambda>x. \<exists>e. x = SourceAborted e" for env ctx cn d src
proof
  fix w k nn data e w' assume "ctx_read env ctx src w k = ((nn, data, e), w')"
  then show "src_failed w' = (if 0 \<le> nn \<and> nn \<le> int k \<and> e \<noteq> None \<and> e \<noteq> Some IoEOF then e else src_failed w) \<or>
      src_failed w' = src_failed w \<and> (\<exists>x. e = Some x \<and> (\<exists>c. x = SourceAborted c))"
    by (auto simp: ctx_read_def ctx_Err_def Let_def split: if_splits prod.splits)
next
  fix w bs ans w' assume "dc_write env ctx cn d w bs = (ans, w')"
  then show "src_failed w' = src_failed w" by (rule dc_write_frame)
qed

interpretation dc_conn: ended_conn "dc_read env ctx cn d" wire_in wire_eof for env ctx cn d
  by unfold_locales (auto simp: dc_read_got dest: dc_read_eof)

text \<open>Filling a buffer from the caller's source touches neither direction of the wire.\<close>

lemma caller_fill_frame:
  assumes "fill (ctx_read env ctx src) buf w = (res, w')"
  shows "wire_out w' = wire_out w \<and> wire_in w' = wire_in w"
proof (rule fill_loop_preserves [where Q = "\<lambda>v. wire_out v = wire_out w \<and> wire_in v = wire_in w"])
  show "fill_loop (ctx_read env ctx src) buf 0 0 w = (res, w')" using assms by (simp add: fill_def)
  show "wire_out v = wire_out w \<and> wire_in v = wire_in w \<Longrightarrow> ctx_read env ctx src v k = (r, v') \<Longrightarrow>
      wire_out v' = wire_out w \<and> wire_in v' = wire_in w" for v k r v'
    using ctx_read_frame(1,2) [of env ctx src v k r v'] by simp
qed simp

lemma caller_fill_length:
  "fill (ctx_read env ctx src) buf w = ((n, eof, e, buf'), w') \<Longrightarrow> length buf' = length buf"
  by (rule dc_stream.fill_delivers(1))

subsection \<open>The race between a refresh and the watcher\<close>

text \<open>
  Once the watcher has slammed the deadline shut, it stays shut: every later \<open>Read\<close>,
  \<open>Write\<close> and refresh, also one that was in progress, leaves the abort deadline in
  place. The connection must not refuse to set the abort deadline.
\<close>

definition abort_kept :: "go_context \<Rightarrow> world \<Rightarrow> bool" where
  "abort_kept ctx w \<longleftrightarrow> (slammed w \<longrightarrow> ctx_done ctx w \<and> conn_deadline w = Some abortDeadline)"

definition settable :: "conn \<Rightarrow> bool" where
  "settable cn \<longleftrightarrow> (\<forall>w t. conn_set_deadline cn w t = None)"

lemma tick_cases:
  "(watch (tick env ctx w) = watch w \<and> slammed (tick env ctx w) = slammed w \<and>
      conn_deadline (tick env ctx w) = conn_deadline w) \<or>
   (watch (tick env ctx w) = Fired \<and> ctx_done ctx (tick env ctx w) \<and>
      (slammed (tick env ctx w) = slammed w \<and> conn_deadline (tick env ctx w) = conn_deadline w \<or>
       slammed (tick env ctx w) \<and> conn_deadline (tick env ctx w) = Some abortDeadline))"
proof -
  have "ctx_done ctx (tick env ctx w)" if "ctx_done ctx (w\<lparr>clock := Suc (clock w)\<rparr>)"
    using ctx_done_mono [OF that, of "tick env ctx w"] by simp
  then show ?thesis
    by (auto simp: tick_def Let_def split: option.splits bool.splits)
qed

lemma tick_abort_kept: "abort_kept ctx w \<Longrightarrow> abort_kept ctx (tick env ctx w)"
  using tick_cases [of env ctx w] ctx_done_tick [of ctx w env] by (auto simp: abort_kept_def)

lemma refresh_abort_kept:
  assumes "abort_kept ctx w" "settable cn" "refresh env ctx cn d w = (r, w')"
  shows "abort_kept ctx w' \<and> (slammed w \<longrightarrow> r \<noteq> None)"
proof (cases "ctx_done ctx (tick env ctx w)")
  case True
  with assms(1,3) tick_abort_kept [OF assms(1), of env] show ?thesis
    by (auto simp: refresh_def ctx_Err_def Let_def)
next
  case False
  define w2 where "w2 = tick env ctx (tick env ctx w)"
  have not_slammed: "\<not> slammed w"
    using False assms(1) ctx_done_tick by (auto simp: abort_kept_def)
  obtain t where run: "refresh env ctx cn d w =
     (case ctx_Err env ctx ((tick env ctx w2)\<lparr>conn_deadline := Some t\<rparr>) of
        (Some e, w4) \<Rightarrow> (Some e, snd (set_deadline env ctx cn abortDeadline w4))
      | (None, w4) \<Rightarrow> (None, w4))"
    using False assms(2)
    by (auto simp: refresh_def ctx_Err_def time_Now_def set_deadline_def settable_def Let_def w2_def)
  define w4 where "w4 = tick env ctx ((tick env ctx w2)\<lparr>conn_deadline := Some t\<rparr>)"
  show ?thesis
  proof (cases "ctx_done ctx w4")
    case True
    then have "w' = (tick env ctx w4)\<lparr>conn_deadline := Some abortDeadline\<rparr>" "r \<noteq> None"
      using assms(2,3) run by (auto simp: ctx_Err_def set_deadline_def settable_def Let_def w4_def)
    moreover have "ctx_done ctx ((tick env ctx w4)\<lparr>conn_deadline := Some abortDeadline\<rparr>)"
      using ctx_done_mono [OF True] by simp
    ultimately show ?thesis by (simp add: abort_kept_def)
  next
    case False
    then have w': "w' = w4" "r = None"
      using assms(3) run by (auto simp: ctx_Err_def Let_def w4_def)
    have "\<not> slammed w4"
    proof
      assume s: "slammed w4"
      have step: "slammed v" if "slammed (tick env ctx v)" "\<not> ctx_done ctx (tick env ctx v)" for v
        using tick_cases [of env ctx v] that by auto
      have d: "\<not> ctx_done ctx v" if "clock v \<le> clock w4" for v
        using False ctx_done_mono [of ctx v w4] that by blast
      have "slammed ((tick env ctx w2)\<lparr>conn_deadline := Some t\<rparr>)"
        using step s False by (simp add: w4_def)
      then have "slammed (tick env ctx w2)" by simp
      then have "slammed w2" by (rule step) (rule d, simp add: w4_def)
      then have "slammed (tick env ctx w)" unfolding w2_def
        by (rule step) (rule d, simp add: w4_def w2_def)
      then have "slammed w" by (rule step) (rule d, simp add: w4_def w2_def)
      with not_slammed show False ..
    qed
    with w' not_slammed show ?thesis by (simp add: abort_kept_def)
  qed
qed

lemma dc_read_abort_kept:
  assumes "abort_kept ctx w" "settable cn" "dc_read env ctx cn d w k = (r, w')"
  shows "abort_kept ctx w' \<and> (slammed w \<longrightarrow> (\<exists>e. r = ([], Some e)))"
proof (cases "refresh env ctx cn d w")
  case (Pair x w1)
  from refresh_abort_kept [OF assms(1,2) Pair] tick_abort_kept [of ctx w1 env] assms(3) Pair
  show ?thesis by (auto simp: dc_read_def Let_def abort_kept_def ctx_done_def split: option.splits prod.splits)
qed

lemma dc_write_abort_kept:
  assumes "abort_kept ctx w" "settable cn" "dc_write env ctx cn d w p = (r, w')"
  shows "abort_kept ctx w' \<and> (slammed w \<longrightarrow> (\<exists>e. r = (0, Some e)))"
proof (cases "refresh env ctx cn d w")
  case (Pair x w1)
  from refresh_abort_kept [OF assms(1,2) Pair] tick_abort_kept [of ctx w1 env] assms(3) Pair
  show ?thesis by (auto simp: dc_write_def Let_def abort_kept_def ctx_done_def split: option.splits prod.splits)
qed

subsection \<open>No read or write without a deadline\<close>

text \<open>
  The deadline in force when the connection is touched: computed for this very read or write, three
  ticks ago, at most \<open>iot\<close> from then and not after the deadline of the context; or the abort's.
\<close>

definition io_guarded :: "env \<Rightarrow> go_context \<Rightarrow> time \<Rightarrow> world \<Rightarrow> bool" where
  "io_guarded env ctx iot w \<longleftrightarrow>
     (case conn_deadline w of
        None \<Rightarrow> False
      | Some d \<Rightarrow> d = abortDeadline \<or>
          d \<le> e_now env (clock w - 3) + iot \<and> (\<forall>dl. ctx_deadline ctx = Some dl \<longrightarrow> d \<le> dl))"

lemma io_guarded_mono: "io_guarded env ctx iot w \<Longrightarrow> iot \<le> iot' \<Longrightarrow> io_guarded env ctx iot' w"
  by (auto simp: io_guarded_def split: option.splits)

lemma tick_deadline:
  "conn_deadline (tick env ctx w) = conn_deadline w \<or> conn_deadline (tick env ctx w) = Some abortDeadline"
  using tick_cases [of env ctx w] by auto

lemma refresh_guards:
  assumes "refresh env ctx cn iot w = (None, w')"
  shows "io_guarded env ctx iot (tick env ctx w')"
proof -
  let ?w2 = "tick env ctx (tick env ctx w)"
  let ?t = "e_now env (clock ?w2) + iot"
  define t where "t = (case ctx_deadline ctx of Some dl \<Rightarrow> if dl < ?t then dl else ?t | None \<Rightarrow> ?t)"
  have t: "t \<le> ?t" "\<forall>dl. ctx_deadline ctx = Some dl \<longrightarrow> t \<le> dl" by (auto simp: t_def split: option.splits)
  obtain r1 where c1: "ctx_Err env ctx w = (r1, tick env ctx w)" by (metis ctx_Err_world prod.collapse)
  obtain r2 w3 where s: "set_deadline env ctx cn t ?w2 = (r2, w3)" by (metis prod.collapse)
  obtain r3 where c3: "ctx_Err env ctx w3 = (r3, tick env ctx w3)" by (metis ctx_Err_world prod.collapse)
  have "r1 = None" using assms c1 by (cases r1) (simp_all add: refresh_def)
  with c1 have "refresh env ctx cn iot w =
      (case set_deadline env ctx cn t ?w2 of
         (Some e, w3) \<Rightarrow> (Some e, w3)
       | (None, w3) \<Rightarrow>
           (case ctx_Err env ctx w3 of
              (Some e, w4) \<Rightarrow> (Some e, snd (set_deadline env ctx cn abortDeadline w4))
            | (None, w4) \<Rightarrow> (None, w4)))"
    by (simp add: refresh_def time_Now_def Let_def t_def del: tick_frame)
  with assms s c3 have "r2 = None \<and> w' = tick env ctx w3" by (auto split: option.splits)
  with set_deadlineD [OF s] have w3: "w3 = (tick env ctx ?w2)\<lparr>conn_deadline := Some t\<rparr>" "w' = tick env ctx w3" by auto
  have "conn_deadline (tick env ctx w') = Some t \<or> conn_deadline (tick env ctx w') = Some abortDeadline"
    using tick_deadline [of env ctx w'] tick_deadline [of env ctx w3] w3 by auto
  moreover have "clock (tick env ctx w') - 3 = clock ?w2" using w3 by simp
  ultimately show ?thesis using t by (auto simp: io_guarded_def)
qed

text \<open>Two connections that differ only where no deadline guards the access cannot be told apart.\<close>

definition same_guarded :: "env \<Rightarrow> go_context \<Rightarrow> time \<Rightarrow> conn \<Rightarrow> conn \<Rightarrow> bool" where
  "same_guarded env ctx iot cn cn' \<longleftrightarrow> conn_set_deadline cn = conn_set_deadline cn' \<and>
     (\<forall>w. io_guarded env ctx iot w \<longrightarrow> conn_read cn w = conn_read cn' w \<and> conn_write cn w = conn_write cn' w)"

lemma same_guarded_refresh: "same_guarded env ctx iot cn cn' \<Longrightarrow> refresh env ctx cn d w = refresh env ctx cn' d w"
proof -
  assume "same_guarded env ctx iot cn cn'"
  then have "set_deadline env ctx cn = set_deadline env ctx cn'"
    by (simp add: fun_eq_iff set_deadline_def same_guarded_def)
  then show "refresh env ctx cn d w = refresh env ctx cn' d w" by (simp only: refresh_def)
qed

lemma same_guarded_io:
  assumes "same_guarded env ctx iot cn cn'" "d \<le> iot"
  shows "dc_read env ctx cn d = dc_read env ctx cn' d" "dc_write env ctx cn d = dc_write env ctx cn' d"
proof -
  have g: "conn_read cn (tick env ctx w1) = conn_read cn' (tick env ctx w1) \<and>
      conn_write cn (tick env ctx w1) = conn_write cn' (tick env ctx w1)"
    if "refresh env ctx cn d w = (None, w1)" for w w1
    using io_guarded_mono [OF refresh_guards [OF that] assms(2)] assms(1) by (simp add: same_guarded_def)
  show "dc_read env ctx cn d = dc_read env ctx cn' d"
    using g by (auto simp: fun_eq_iff dc_read_def same_guarded_refresh [OF assms(1), symmetric] Let_def split: prod.split option.split)
  show "dc_write env ctx cn d = dc_write env ctx cn' d"
    using g by (auto simp: fun_eq_iff dc_write_def same_guarded_refresh [OF assms(1), symmetric] Let_def split: prod.split option.split)
qed

end
