(* ===== verification/Setup.thy ===== *)
theory Setup
  imports World GoStrings
begin

text \<open>
  Building a client: the address (\<open>address.go\<close>), the configuration and its options
  (\<open>options.go\<close>) and \<open>New\<close> (\<open>client.go\<close>). The network dialer that \<open>defaultDial\<close> calls
  is an argument (\<open>net_dial\<close>). An \<open>Option\<close> is a function on the configuration; a nil one is
  \<open>None\<close>. The lemmas say which addresses and configurations are accepted, that \<open>New\<close> only
  returns clients with a valid configuration, and that the last option of a kind wins.
\<close>

subsection \<open>Addresses\<close>

definition parseAddress :: "string \<Rightarrow> goerr + (string \<times> string)" where
  "parseAddress addr =
     (if HasPrefix addr ''unix://''
      then (let path = TrimPrefix addr ''unix://'' in
            if path = [] then Inl (NewError ''clamav: address %q has an empty socket path'' [FStr addr])
            else if hd path \<noteq> CHR ''/'' \<and> hd path \<noteq> CHR ''@''
            then Inl (NewError ''clamav: unix socket path in %q must be absolute or abstract (start with '/' or '@')'' [FStr addr])
            else Inr (''unix'', path))
      else if HasPrefix addr ''tcp://''
      then (let hostport = TrimPrefix addr ''tcp://'' in
            (case SplitHostPort hostport of
               Inl why \<Rightarrow> Inl (Errorf ''clamav: invalid tcp address %q: %w'' [FStr addr] [Foreign why []])
             | Inr (host, port) \<Rightarrow>
                 if host = [] \<or> port = []
                 then Inl (NewError ''clamav: tcp address %q must include both host and port'' [FStr addr])
                 else Inr (''tcp'', hostport)))
      else Inl (NewError ''clamav: address %q must use the unix:// or tcp:// scheme'' [FStr addr]))"

subsection \<open>Configuration\<close>

type_synonym dial_func = "go_context \<Rightarrow> string \<Rightarrow> string \<Rightarrow> world \<Rightarrow> conn option \<times> goerr option"

record config =
  dialTimeout :: time
  ioTimeout :: time
  chunkSize :: int
  maxStreamSize :: int
  maxConcurrentScans :: int
  dialFunc :: "dial_func option"

definition second :: time where
  "second = 1000000000"

definition DefaultDialTimeout :: time where
  "DefaultDialTimeout = 10 * second"

definition DefaultIOTimeout :: time where
  "DefaultIOTimeout = 30 * second"

definition DefaultChunkSize :: int where
  "DefaultChunkSize = 32 * 2 ^ 10"

definition DefaultMaxStreamSize :: int where
  "DefaultMaxStreamSize = 25 * 2 ^ 20"

definition NoSizeLimit :: int where
  "NoSizeLimit = -1"

text \<open>The default \<open>DialFunc\<close> asks a \<open>net.Dialer\<close> of its own; \<open>net_dial\<close> is its \<open>DialContext\<close>.\<close>

definition defaultDial :: "dial_func \<Rightarrow> dial_func" where
  [simp]: "defaultDial net_dial ctx net addr w = net_dial ctx net addr w"

lemma defaultDial_eq [simp]: "defaultDial net_dial = net_dial"
  by (simp add: fun_eq_iff)

definition defaultConfig :: "dial_func \<Rightarrow> config" where
  "defaultConfig net_dial =
     \<lparr>dialTimeout = DefaultDialTimeout, ioTimeout = DefaultIOTimeout, chunkSize = DefaultChunkSize,
      maxStreamSize = DefaultMaxStreamSize, maxConcurrentScans = 0, dialFunc = Some (defaultDial net_dial)\<rparr>"

definition validate :: "config \<Rightarrow> goerr option" where
  "validate c =
     (if dialTimeout c \<le> 0
      then Some (NewError ''clamav: dial timeout must be positive, got %v'' [FDur (dialTimeout c)])
      else if ioTimeout c \<le> 0
      then Some (NewError ''clamav: I/O timeout must be positive, got %v'' [FDur (ioTimeout c)])
      else if chunkSize c < 1 \<or> chunkSize c > MaxChunkSize
      then Some (NewError ''clamav: chunk size must be in [1, %d], got %d'' [FInt MaxChunkSize, FInt (chunkSize c)])
      else if maxStreamSize c \<noteq> NoSizeLimit \<and> maxStreamSize c \<le> 0
      then Some (NewError ''clamav: max stream size must be positive or NoSizeLimit, got %d'' [FInt (maxStreamSize c)])
      else if maxConcurrentScans c < 0
      then Some (NewError ''clamav: max concurrent scans must be >= 0, got %d'' [FInt (maxConcurrentScans c)])
      else if dialFunc c = None
      then Some (NewError ''clamav: dial function must not be nil'' [])
      else None)"

type_synonym opt = "config \<Rightarrow> config"

definition WithDialTimeout :: "time \<Rightarrow> opt" where
  "WithDialTimeout d = (\<lambda>c. c\<lparr>dialTimeout := d\<rparr>)"

definition WithIOTimeout :: "time \<Rightarrow> opt" where
  "WithIOTimeout d = (\<lambda>c. c\<lparr>ioTimeout := d\<rparr>)"

definition WithChunkSize :: "int \<Rightarrow> opt" where
  "WithChunkSize n = (\<lambda>c. c\<lparr>chunkSize := n\<rparr>)"

definition WithMaxStreamSize :: "int \<Rightarrow> opt" where
  "WithMaxStreamSize n = (\<lambda>c. c\<lparr>maxStreamSize := n\<rparr>)"

definition WithMaxConcurrentScans :: "int \<Rightarrow> opt" where
  "WithMaxConcurrentScans n = (\<lambda>c. c\<lparr>maxConcurrentScans := n\<rparr>)"

definition WithDialFunc :: "dial_func option \<Rightarrow> opt" where
  "WithDialFunc fn = (\<lambda>c. c\<lparr>dialFunc := fn\<rparr>)"

subsection \<open>Clients\<close>

text \<open>\<open>sem\<close> is the capacity of the channel that limits concurrent scans; nil is \<open>None\<close>.\<close>

record client =
  network :: string
  target :: string
  cfg :: config
  sem :: "nat option"

fun apply_options :: "config \<Rightarrow> opt option list \<Rightarrow> goerr + config" where
  "apply_options c [] = Inr c"
| "apply_options c (None # opts) = Inl (NewError ''clamav: nil Option'' [])"
| "apply_options c (Some opt # opts) = apply_options (opt c) opts"

definition New :: "dial_func \<Rightarrow> string \<Rightarrow> opt option list \<Rightarrow> goerr + client" where
  "New net_dial addr opts =
     (case parseAddress addr of
        Inl e \<Rightarrow> Inl e
      | Inr (net, tgt) \<Rightarrow>
          (case apply_options (defaultConfig net_dial) opts of
             Inl e \<Rightarrow> Inl e
           | Inr c \<Rightarrow>
               (case validate c of
                  Some e \<Rightarrow> Inl e
                | None \<Rightarrow>
                    Inr \<lparr>network = net, target = tgt, cfg = c,
                      sem = (if maxConcurrentScans c > 0 then Some (nat (maxConcurrentScans c)) else None)\<rparr>)))"

subsection \<open>What a client promises\<close>

definition config_ok :: "config \<Rightarrow> bool" where
  "config_ok c \<longleftrightarrow> 0 < dialTimeout c \<and> 0 < ioTimeout c \<and> 1 \<le> chunkSize c \<and> chunkSize c \<le> MaxChunkSize \<and>
     (maxStreamSize c = NoSizeLimit \<or> 0 < maxStreamSize c) \<and> 0 \<le> maxConcurrentScans c \<and>
     dialFunc c \<noteq> None"

definition client_ok :: "client \<Rightarrow> bool" where
  "client_ok c \<longleftrightarrow> config_ok (cfg c) \<and>
     (sem c = None \<longleftrightarrow> maxConcurrentScans (cfg c) = 0) \<and>
     (\<forall>k. sem c = Some k \<longrightarrow> 0 < k \<and> int k = maxConcurrentScans (cfg c))"

lemma validate_iff: "validate c = None \<longleftrightarrow> config_ok c"
  by (auto simp: validate_def config_ok_def)

lemma defaultConfig_ok: "config_ok (defaultConfig net_dial)"
  by (simp add: config_ok_def defaultConfig_def DefaultDialTimeout_def DefaultIOTimeout_def
      second_def DefaultChunkSize_def MaxChunkSize_def DefaultMaxStreamSize_def)

lemma New_client_ok: "New net_dial addr opts = Inr c \<Longrightarrow> client_ok c"
  by (auto simp: New_def client_ok_def validate_iff split: sum.splits option.splits prod.splits if_splits)
    (auto simp: config_ok_def)

lemma New_address:
  "New net_dial addr opts = Inr c \<Longrightarrow> parseAddress addr = Inr (network c, target c)"
  by (auto simp: New_def split: sum.splits option.splits)

text \<open>Options are applied in order, so a later one of the same kind wins.\<close>

lemma apply_options_append:
  "apply_options c (xs @ ys) =
    (case apply_options c xs of Inl e \<Rightarrow> Inl e | Inr c' \<Rightarrow> apply_options c' ys)"
  by (induction c xs rule: apply_options.induct) auto

lemma apply_options_nil_iff: "(\<exists>e. apply_options c opts = Inl e) \<longleftrightarrow> None \<in> set opts"
  by (induction c opts rule: apply_options.induct) auto

lemma parseAddress_unix:
  "parseAddress addr = Inr (''unix'', p) \<longleftrightarrow>
    addr = ''unix://'' @ p \<and> p \<noteq> [] \<and> (hd p = CHR ''/'' \<or> hd p = CHR ''@'')"
proof (cases "HasPrefix addr ''unix://''")
  case True
  then obtain q where "addr = ''unix://'' @ q" by (auto simp: HasPrefix_iff)
  then show ?thesis
    using TrimPrefix_append [of "''unix://''" q] HasPrefix_append [of "''unix://''" q]
    by (auto simp: parseAddress_def Let_def)
next
  case False
  then have "addr \<noteq> ''unix://'' @ p" using HasPrefix_append [of "''unix://''" p] by auto
  with False show ?thesis
    by (auto simp: parseAddress_def Let_def split: sum.splits if_splits)
qed

lemma parseAddress_tcp:
  "parseAddress addr = Inr (''tcp'', hp) \<longleftrightarrow>
    addr = ''tcp://'' @ hp \<and>
    (\<exists>host port. SplitHostPort hp = Inr (host, port) \<and> host \<noteq> [] \<and> port \<noteq> [])"
proof (cases "HasPrefix addr ''tcp://''")
  case True
  then obtain q where q: "addr = ''tcp://'' @ q" by (auto simp: HasPrefix_iff)
  have "\<not> HasPrefix addr ''unix://''" by (simp add: q HasPrefix_iff)
  then show ?thesis
    using q TrimPrefix_append [of "''tcp://''" q] HasPrefix_append [of "''tcp://''" q]
    by (auto simp: parseAddress_def Let_def split: sum.splits)
next
  case False
  then have "addr \<noteq> ''tcp://'' @ hp" using HasPrefix_append [of "''tcp://''" hp] by auto
  with False show ?thesis
    by (auto simp: parseAddress_def Let_def split: if_splits)
qed

lemma parseAddress_network:
  "parseAddress addr = Inr (net, t) \<Longrightarrow> net = ''unix'' \<or> net = ''tcp''"
  by (auto simp: parseAddress_def Let_def split: if_splits sum.splits prod.splits)

subsection \<open>Properties\<close>

text \<open>
  C28: a client that \<open>New\<close> returns is usable. Its timeouts are positive, its chunk size is in
  range, its limit is positive or disabled, it has a dialer, and it has a semaphore of exactly
  \<open>maxConcurrentScans\<close> places when that is not zero. A nil option is always refused.
\<close>

theorem New_valid:
  assumes "New net_dial addr opts = Inr c"
  shows "0 < dialTimeout (cfg c) \<and> 0 < ioTimeout (cfg c) \<and> 1 \<le> chunkSize (cfg c) \<and>
    chunkSize (cfg c) \<le> MaxChunkSize \<and> (maxStreamSize (cfg c) = NoSizeLimit \<or> 0 < maxStreamSize (cfg c)) \<and>
    dialFunc (cfg c) \<noteq> None \<and>
    sem c = (if maxConcurrentScans (cfg c) = 0 then None else Some (nat (maxConcurrentScans (cfg c)))) \<and>
    0 \<le> maxConcurrentScans (cfg c) \<and> None \<notin> set opts \<and> parseAddress addr = Inr (network c, target c)"
proof -
  have "None \<notin> set opts"
    using assms apply_options_nil_iff [of "defaultConfig net_dial" opts]
    by (auto simp: New_def split: sum.splits prod.splits)
  moreover have "sem c = (if maxConcurrentScans (cfg c) = 0 then None else Some (nat (maxConcurrentScans (cfg c))))"
    using New_client_ok [OF assms] by (cases "sem c") (auto simp: client_ok_def)
  ultimately show ?thesis
    using New_client_ok [OF assms] New_address [OF assms] by (auto simp: client_ok_def config_ok_def)
qed

theorem New_valid_witness:
  "\<exists>c. New (\<lambda>_ _ _ _. (None, None)) ''tcp://127.0.0.1:3310'' [Some (WithMaxConcurrentScans 4), Some (WithChunkSize 1024)] = Inr c \<and>
    sem c = Some 4 \<and> chunkSize (cfg c) = 1024 \<and> network c = ''tcp''"
proof -
  let ?opts = "[Some (WithMaxConcurrentScans 4), Some (WithChunkSize 1024)]"
  have addr: "parseAddress ''tcp://127.0.0.1:3310'' = Inr (''tcp'', ''127.0.0.1:3310'')" by code_simp
  let ?cfg = "(defaultConfig (\<lambda>_ _ _ _. (None, None)))\<lparr>maxConcurrentScans := 4, chunkSize := 1024\<rparr>"
  have "config_ok ?cfg"
    using defaultConfig_ok [of "\<lambda>_ _ _ _. (None, None)"] by (simp add: config_ok_def MaxChunkSize_def)
  then have v: "validate ?cfg = None" by (simp only: validate_iff)
  have o: "apply_options (defaultConfig (\<lambda>_ _ _ _. (None, None))) ?opts = Inr ?cfg"
    by (simp add: WithMaxConcurrentScans_def WithChunkSize_def)
  obtain c where c: "New (\<lambda>_ _ _ _. (None, None)) ''tcp://127.0.0.1:3310'' ?opts = Inr c" "cfg c = ?cfg"
    unfolding New_def addr o sum.case prod.case v option.case by simp
  from New_valid [OF c(1)] c addr show ?thesis by auto
qed

text \<open>
  C29: the grammar of addresses, exactly. \<open>unix://\<close> takes an absolute or abstract path, \<open>tcp://\<close> a
  host and a port, both non-empty; the target is the text after the scheme; nothing else is
  accepted.
\<close>

theorem address_grammar:
  "parseAddress addr = Inr (net, t) \<longleftrightarrow>
     net = ''unix'' \<and> addr = ''unix://'' @ t \<and> t \<noteq> [] \<and> (hd t = CHR ''/'' \<or> hd t = CHR ''@'') \<or>
     net = ''tcp'' \<and> addr = ''tcp://'' @ t \<and>
       (\<exists>host port. SplitHostPort t = Inr (host, port) \<and> host \<noteq> [] \<and> port \<noteq> [])"
proof (cases "net = ''unix'' \<or> net = ''tcp''")
  case True
  then show ?thesis
  proof
    assume net: "net = ''unix''"
    show ?thesis unfolding net parseAddress_unix by simp
  next
    assume net: "net = ''tcp''"
    show ?thesis unfolding net parseAddress_tcp by simp
  qed
next
  case False
  then show ?thesis using parseAddress_network [of addr net t] by blast
qed

end
