(* ===== verification/Response.thy ===== *)
theory Response
  imports GoStrings
begin

text \<open>
  The classification of a reply line (\<open>internal/proto/response.go\<close>): \<open>Outcome\<close>,
  \<open>ScanResponse\<close>, \<open>ParseScanResponse\<close> and \<open>isSizeLimitMessage\<close>. The lemmas
  characterise each outcome exactly, so that no line can be read in two ways: a clean
  outcome is the exact allowlist, \<open>FOUND\<close> wins over everything, and what is left is
  unknown.
\<close>

subsection \<open>Model\<close>

datatype outcome = OutcomeUnknown | OutcomeClean | OutcomeInfected | OutcomeError

text \<open>The first of the constants is the zero value of the type.\<close>

instantiation outcome :: default
begin

definition default_outcome :: outcome where
  "default_outcome = OutcomeUnknown"

instance ..

end

declare default_outcome_def [simp]

record scan_response =
  Outcome :: outcome
  Signature :: string
  Message :: string
  SizeLimit :: bool

text \<open>The zero value, which the composite literals of the code start from.\<close>

definition zero_response :: scan_response where
  "zero_response = \<lparr>Outcome = default, Signature = [], Message = [], SizeLimit = False\<rparr>"

definition isSizeLimitMessage :: "string \<Rightarrow> bool" where
  "isSizeLimitMessage msg = Contains (ToLower msg) ''size limit exceeded''"

definition reply_padding :: string where
  "reply_padding = [CHR '' '', CHR 0x09, CHR 0x0D, CHR 0x0A, CHR 0x00]"

definition found_signature :: "string \<Rightarrow> string" where
  "found_signature line =
     (let sig = TrimSuffix line '' FOUND'';
          sig = (case Index sig '': '' of Some i \<Rightarrow> drop (i + 2) sig | None \<Rightarrow> sig)
      in TrimSpace sig)"

definition ParseScanResponse :: "string \<Rightarrow> scan_response" where
  "ParseScanResponse line =
     (let line = TrimRight line reply_padding in
      if HasSuffix line '' FOUND''
      then zero_response\<lparr>Outcome := OutcomeInfected, Signature := found_signature line\<rparr>
      else if line = ''ERROR''
      then zero_response\<lparr>Outcome := OutcomeError\<rparr>
      else if HasSuffix line '' ERROR''
      then (let msg = TrimSpace (TrimSuffix line '' ERROR'')
            in zero_response\<lparr>Outcome := OutcomeError, Message := msg,
                 SizeLimit := isSizeLimitMessage msg\<rparr>)
      else if line = ''OK'' \<or> line = ''stream: OK''
      then zero_response\<lparr>Outcome := OutcomeClean\<rparr>
      else zero_response\<lparr>Outcome := OutcomeUnknown, Message := line\<rparr>)"

subsection \<open>Every outcome, exactly\<close>

lemma suffixes_exclusive: "HasSuffix s '' FOUND'' \<Longrightarrow> \<not> HasSuffix s '' ERROR''"
  by (auto simp: HasSuffix_def)

lemma zero_response_simps [simp]:
  "Outcome zero_response = OutcomeUnknown" "Signature zero_response = []"
  "Message zero_response = []" "SizeLimit zero_response = False"
  by (simp_all add: zero_response_def)

lemma no_suffix_ok [simp]:
  "\<not> HasSuffix ''OK'' '' FOUND''" "\<not> HasSuffix ''OK'' '' ERROR''"
  "\<not> HasSuffix ''stream: OK'' '' FOUND''" "\<not> HasSuffix ''stream: OK'' '' ERROR''"
  "\<not> HasSuffix ''ERROR'' '' FOUND''"
  by (simp_all add: HasSuffix_def)

lemma parse_infected_iff:
  "Outcome (ParseScanResponse line) = OutcomeInfected \<longleftrightarrow>
     HasSuffix (TrimRight line reply_padding) '' FOUND''"
  by (simp add: ParseScanResponse_def Let_def)

lemma parse_error_iff:
  "Outcome (ParseScanResponse line) = OutcomeError \<longleftrightarrow>
     TrimRight line reply_padding = ''ERROR'' \<or> HasSuffix (TrimRight line reply_padding) '' ERROR''"
  using suffixes_exclusive [of "TrimRight line reply_padding"]
  by (auto simp: ParseScanResponse_def Let_def)

lemma parse_clean_iff:
  "Outcome (ParseScanResponse line) = OutcomeClean \<longleftrightarrow>
     TrimRight line reply_padding = ''OK'' \<or> TrimRight line reply_padding = ''stream: OK''"
  by (auto simp: ParseScanResponse_def Let_def)

lemma parse_message_unknown:
  "Outcome (ParseScanResponse line) = OutcomeUnknown \<Longrightarrow>
     Message (ParseScanResponse line) = TrimRight line reply_padding"
  by (auto simp: ParseScanResponse_def Let_def split: if_splits)

lemma parse_signature_only_infected:
  "Outcome (ParseScanResponse line) \<noteq> OutcomeInfected \<Longrightarrow> Signature (ParseScanResponse line) = []"
  by (auto simp: ParseScanResponse_def Let_def split: if_splits)

lemma parse_size_limit_only_error:
  "SizeLimit (ParseScanResponse line) \<Longrightarrow> Outcome (ParseScanResponse line) = OutcomeError"
  by (auto simp: ParseScanResponse_def Let_def split: if_splits)

text \<open>Padding after a reply never changes its reading.\<close>

lemma parse_padding:
  "set pad \<subseteq> set reply_padding \<Longrightarrow> ParseScanResponse (line @ pad) = ParseScanResponse line"
  by (simp add: ParseScanResponse_def TrimRight_append_cut)

text \<open>
  A clean line is its allowlisted text and padding; in particular whatever is put in
  front of the allowlisted text makes it unknown.
\<close>

lemma parse_clean_text:
  assumes "Outcome (ParseScanResponse line) = OutcomeClean"
  shows "\<exists>pad. set pad \<subseteq> set reply_padding \<and> (line = ''OK'' @ pad \<or> line = ''stream: OK'' @ pad)"
  using assms TrimRight_append [of line reply_padding] by (auto simp: parse_clean_iff)

subsection \<open>What the signature and the size-limit flag mean\<close>

lemma graphic_not_padding: "graphic c \<Longrightarrow> c \<notin> set reply_padding"
  by (auto simp: graphic_def reply_padding_def)

lemma found_signature_prefixed:
  assumes "\<not> Contains (p @ '':'') '': ''" "sig = [] \<or> graphic (hd sig) \<and> graphic (last sig)"
  shows "found_signature (p @ '': '' @ sig @ '' FOUND'') = sig"
proof -
  have "TrimSuffix (p @ '': '' @ sig @ '' FOUND'') '' FOUND'' = p @ '': '' @ sig"
    using TrimSuffix_append [of "p @ '': '' @ sig" "'' FOUND''"] by simp
  moreover have "Index (p @ '': '' @ sig) '': '' = Some (length p)"
    using assms(1) Index_append_first [of p "'': ''" sig] by simp
  ultimately show ?thesis
    using assms(2) by (simp add: found_signature_def TrimSpace_id)
qed

lemma TrimRight_found [simp]: "TrimRight (s @ '' FOUND'') reply_padding = s @ '' FOUND''"
  by (rule TrimRight_id) (simp add: reply_padding_def)

lemma TrimRight_error [simp]: "TrimRight (s @ '' ERROR'') reply_padding = s @ '' ERROR''"
  by (rule TrimRight_id) (simp add: reply_padding_def)

lemma parse_found:
  assumes "\<not> Contains (p @ '':'') '': ''" "sig = [] \<or> graphic (hd sig) \<and> graphic (last sig)"
  shows "ParseScanResponse (p @ '': '' @ sig @ '' FOUND'') =
     zero_response\<lparr>Outcome := OutcomeInfected, Signature := sig\<rparr>"
proof -
  have "TrimRight (p @ '': '' @ sig @ '' FOUND'') reply_padding = p @ '': '' @ sig @ '' FOUND''"
    using TrimRight_found [of "p @ '': '' @ sig"] by simp
  moreover have "HasSuffix (p @ '': '' @ sig @ '' FOUND'') '' FOUND''"
    using HasSuffix_append [of "p @ '': '' @ sig" "'' FOUND''"] by simp
  ultimately show ?thesis
    using found_signature_prefixed [OF assms] by (simp add: ParseScanResponse_def Let_def)
qed

lemma parse_error_message:
  assumes "msg = [] \<or> graphic (hd msg) \<and> graphic (last msg)"
  shows "ParseScanResponse (msg @ '' ERROR'') =
     zero_response\<lparr>Outcome := OutcomeError, Message := msg, SizeLimit := isSizeLimitMessage msg\<rparr>"
proof -
  have "\<not> HasSuffix (msg @ '' ERROR'') '' FOUND''"
    using suffixes_exclusive [of "msg @ '' ERROR''"] HasSuffix_append [of msg "'' ERROR''"] by blast
  moreover have "msg @ '' ERROR'' \<noteq> ''ERROR''" by (cases msg) auto
  ultimately show ?thesis
    using assms by (simp add: ParseScanResponse_def TrimSpace_id)
qed

text \<open>
  The size-limit flag of an ASCII message is a case-insensitive substring search.
\<close>

lemma isSizeLimitMessage_ascii:
  assumes "\<forall>c \<in> set msg. (of_char c :: nat) < 128"
  shows "isSizeLimitMessage msg \<longleftrightarrow>
    (\<exists>a m b. msg = a @ m @ b \<and> map lower_char m = ''size limit exceeded'')"
  by (simp only: isSizeLimitMessage_def ToLower_ascii [OF assms] Contains_map)

subsection \<open>Properties\<close>

text \<open>
  C16: every reply line is read in exactly one way. Up to trailing padding, infected means the
  suffix \<open>FOUND\<close>, error the word or suffix \<open>ERROR\<close>, clean one of the two allowlisted texts, and
  unknown everything else; padding never changes the reading.
\<close>

theorem parse_classification:
  "(Outcome (ParseScanResponse line) = OutcomeInfected \<longleftrightarrow> HasSuffix (TrimRight line reply_padding) '' FOUND'') \<and>
   (Outcome (ParseScanResponse line) = OutcomeError \<longleftrightarrow>
      TrimRight line reply_padding = ''ERROR'' \<or> HasSuffix (TrimRight line reply_padding) '' ERROR'') \<and>
   (Outcome (ParseScanResponse line) = OutcomeClean \<longleftrightarrow>
      TrimRight line reply_padding \<in> {''OK'', ''stream: OK''}) \<and>
   (Outcome (ParseScanResponse line) = OutcomeUnknown \<longrightarrow>
      Message (ParseScanResponse line) = TrimRight line reply_padding) \<and>
   (set pad \<subseteq> set reply_padding \<longrightarrow> ParseScanResponse (line @ pad) = ParseScanResponse line)"
  using parse_infected_iff parse_error_iff parse_clean_iff parse_message_unknown parse_padding by simp

theorem parse_classification_witness:
  "ParseScanResponse (''stream: OK'' @ [CHR 0x0A]) = ParseScanResponse ''stream: OK'' \<and>
   Outcome (ParseScanResponse ''/srv/upload: OK'') = OutcomeUnknown \<and>
   Message (ParseScanResponse ''/srv/upload: OK'') = ''/srv/upload: OK''"
proof -
  have "set [CHR 0x0A] \<subseteq> set reply_padding" by (simp add: reply_padding_def)
  then have "ParseScanResponse (''stream: OK'' @ [CHR 0x0A]) = ParseScanResponse ''stream: OK''"
    using parse_classification [of "''stream: OK''" "[CHR 0x0A]"] by blast
  moreover have "Outcome (ParseScanResponse ''/srv/upload: OK'') = OutcomeUnknown"
    "Message (ParseScanResponse ''/srv/upload: OK'') = ''/srv/upload: OK''" by code_simp+
  ultimately show ?thesis by blast
qed

text \<open>
  C17: the signature of a detection is recovered whole. For any prefix without \<open>": "\<close> and any
  signature that starts and ends with visible characters, spaces and colons inside it included,
  printing the reply and parsing it gives the signature back.
\<close>

theorem signature_round_trip:
  assumes "\<not> Contains (p @ '':'') '': ''" "sig = [] \<or> graphic (hd sig) \<and> graphic (last sig)"
  shows "Outcome (ParseScanResponse (p @ '': '' @ sig @ '' FOUND'')) = OutcomeInfected \<and>
    Signature (ParseScanResponse (p @ '': '' @ sig @ '' FOUND'')) = sig"
  using parse_found [OF assms] by simp

theorem signature_round_trip_witness:
  "Signature (ParseScanResponse (''stream'' @ '': '' @ ''Win.Test: EICAR HDB-1'' @ '' FOUND'')) = ''Win.Test: EICAR HDB-1''"
proof -
  have "\<not> Contains (''stream'' @ '':'') '': ''" by code_simp
  moreover have "graphic (hd ''Win.Test: EICAR HDB-1'')" "graphic (last ''Win.Test: EICAR HDB-1'')"
    by (simp_all add: graphic_def)
  ultimately show ?thesis using signature_round_trip [of "''stream''" "''Win.Test: EICAR HDB-1''"] by blast
qed

end
