(* ===== verification/Client.thy ===== *)
theory Client
  imports Connection Setup Response
begin

text \<open>
  The scan path of \<open>client.go\<close> with \<open>result.go\<close> and \<open>Client.dial\<close> of \<open>conn.go\<close>:
  \<open>Verdict\<close> and \<open>ScanResult\<close>, the mapping of replies and failures to the public
  result and error shapes, \<open>scanStream\<close> and \<open>recoverStreamError\<close>, the concurrency
  slot, and \<open>Scan\<close>, \<open>ScanBytes\<close> and \<open>ScanFile\<close>.

  A call that never returns (an endless source without a size limit, a queued scan whose
  context never ends, a nil dial function) is \<open>None\<close>; otherwise the Go results are a pair
  of the \<open>ScanResult\<close> and the \<open>error\<close>. \<open>defer\<close> is written out: what it releases is
  released on every path.
\<close>

subsection \<open>Results\<close>

datatype verdict = VerdictUnknown | VerdictClean | VerdictInfected

text \<open>Go's zero value of a type is \<open>default\<close>.\<close>

instantiation verdict :: default
begin

definition default_verdict :: verdict where
  "default_verdict = VerdictUnknown"

instance ..

end

declare default_verdict_def [simp]

fun Verdict_String :: "verdict \<Rightarrow> string" where
  "Verdict_String VerdictClean = ''clean''"
| "Verdict_String VerdictInfected = ''infected''"
| "Verdict_String VerdictUnknown = ''unknown''"

record scan_result =
  Verdict :: verdict
  ResultSignature :: string
  Raw :: string

definition zero_result :: scan_result where
  "zero_result = \<lparr>Verdict = default, ResultSignature = [], Raw = []\<rparr>"

definition Clean :: "scan_result \<Rightarrow> bool" where
  "Clean r \<longleftrightarrow> Verdict r = VerdictClean"

definition Infected :: "scan_result \<Rightarrow> bool" where
  "Infected r \<longleftrightarrow> Verdict r = VerdictInfected"

type_synonym scan_outcome = "scan_result \<times> goerr option"

definition clamdErrorFrom :: "scan_response \<Rightarrow> goerr" where
  "clamdErrorFrom resp =
     (let cerr = ClamdError (Message resp) in
      if SizeLimit resp
      then Errorf ''%w: %w (clamd StreamMaxLength)'' [] [ErrSizeLimitExceeded, cerr]
      else cerr)"

definition resultFromLine :: "string \<Rightarrow> bool \<Rightarrow> scan_outcome" where
  "resultFromLine line terminated =
     (let resp = ParseScanResponse line in
      (case Outcome resp of
         OutcomeClean \<Rightarrow>
           if \<not> terminated
           then (zero_result, Some (ProtocolError ''INSTREAM'' ''(OK reply without NUL terminator)''))
           else (\<lparr>Verdict = VerdictClean, ResultSignature = [], Raw = line\<rparr>, None)
       | OutcomeInfected \<Rightarrow>
           (\<lparr>Verdict = VerdictInfected, ResultSignature = Signature resp, Raw = line\<rparr>, None)
       | OutcomeError \<Rightarrow> (zero_result, Some (clamdErrorFrom resp))
       | OutcomeUnknown \<Rightarrow> (zero_result, Some (ProtocolError ''INSTREAM'' line))))"

subsection \<open>Failures\<close>

definition ctxError :: "env \<Rightarrow> go_context \<Rightarrow> world \<Rightarrow> goerr option \<times> world" where
  "ctxError env ctx w =
     (case ctx_Err env ctx w of
        (Some e, w1) \<Rightarrow> (Some e, w1)
      | (None, w1) \<Rightarrow>
          (case ctx_deadline ctx of
             None \<Rightarrow> (None, w1)
           | Some dl \<Rightarrow>
               (case time_Now env ctx w1 of (now, w2) \<Rightarrow>
                  (if \<not> now < dl then Some CtxDeadlineExceeded else None, w2))))"

definition wrapWriteErr :: "env \<Rightarrow> go_context \<Rightarrow> goerr \<Rightarrow> world \<Rightarrow> goerr \<times> world" where
  "wrapWriteErr env ctx err w =
     (case ctxError env ctx w of
        (Some ce, w1) \<Rightarrow> (Errorf ''clamav: write: %w'' [] [ce], w1)
      | (None, w1) \<Rightarrow> (ConnectionError ''write'' err, w1))"

definition wrapReadErr :: "env \<Rightarrow> go_context \<Rightarrow> string \<Rightarrow> goerr \<Rightarrow> world \<Rightarrow> goerr \<times> world" where
  "wrapReadErr env ctx command err w =
     (case ctxError env ctx w of
        (Some ce, w1) \<Rightarrow> (Errorf ''clamav: read: %w'' [] [ce], w1)
      | (None, w1) \<Rightarrow>
          (if errors_Is err ErrResponseTooLarge
           then ProtocolError command ''(reply exceeds read limit)''
           else if errors_Is err ErrMalformedReply
           then ProtocolError command ''(multi-line reply)''
           else ConnectionError ''read'' err, w1))"

text \<open>
  \<open>dial\<close>: the connection, or the error; \<open>None\<close> is the panic of calling a nil \<open>DialFunc\<close>,
  which \<open>validate\<close> rules out. \<open>defer cancel()\<close> ends the derived context, which nothing
  uses afterwards.
\<close>

definition dial :: "env \<Rightarrow> go_context \<Rightarrow> client \<Rightarrow> world \<Rightarrow> ((goerr + conn) \<times> world) option" where
  "dial env ctx c w =
     (case (if dialTimeout (cfg c) > 0 then WithTimeout env ctx (dialTimeout (cfg c)) w else (ctx, w)) of
        (dctx, w0) \<Rightarrow>
          (case dialFunc (cfg c) of
             None \<Rightarrow> None
           | Some fn \<Rightarrow>
               let w1 = tick env ctx w0 in
               (case fn dctx (network c) (target c) w1 of
                  (_, Some e) \<Rightarrow>
                    (case ctxError env ctx w1 of
                       (Some ce, w2) \<Rightarrow> Some (Inl (Errorf ''clamav: dial: %w'' [] [ce]), w2)
                     | (None, w2) \<Rightarrow> Some (Inl (ConnectionError ''dial'' e), w2))
                | (None, None) \<Rightarrow>
                    Some (Inl (ConnectionError ''dial'' (NewError ''dial function returned a nil connection'' [])), w1)
                | (Some cn, None) \<Rightarrow> Some (Inr cn, connected w1))))"

subsection \<open>scanStream\<close>

definition as_result :: "goerr \<times> world \<Rightarrow> scan_outcome \<times> world" where
  "as_result ew = (case ew of (e, w) \<Rightarrow> ((zero_result, Some e), w))"

text \<open>
  The end of \<open>recoverStreamError\<close>, for a failed write under a live context: a reply already
  in flight explains it better than the write error does.
\<close>

definition write_failure :: "env \<Rightarrow> go_context \<Rightarrow> goerr \<Rightarrow> world \<Rightarrow> scan_outcome \<times> world" where
  "write_failure env ctx streamErr w =
     (case as_SinkError streamErr of
        Some e \<Rightarrow> as_result (wrapWriteErr env ctx e w)
      | None \<Rightarrow> as_result (wrapWriteErr env ctx streamErr w))"

definition recover_reply ::
  "env \<Rightarrow> go_context \<Rightarrow> conn \<Rightarrow> time \<Rightarrow> bufio \<Rightarrow> goerr \<Rightarrow> world \<Rightarrow> scan_outcome \<times> world" where
  "recover_reply env ctx cn iot br streamErr w =
     (let iot' = min iot (2 * second) in
      (case ReadLine (dc_read env ctx cn iot') MaxLineResponse br w of
         ((line, _, Some _), _, w2) \<Rightarrow> write_failure env ctx streamErr w2
       | ((line, _, None), _, w2) \<Rightarrow>
           (let resp = ParseScanResponse line in
            (case Outcome resp of
               OutcomeError \<Rightarrow> ((zero_result, Some (clamdErrorFrom resp)), w2)
             | OutcomeInfected \<Rightarrow>
                 ((\<lparr>Verdict = VerdictInfected, ResultSignature = Signature resp, Raw = line\<rparr>, None), w2)
             | OutcomeClean \<Rightarrow> ((zero_result, Some (ProtocolError ''INSTREAM'' line)), w2)
             | OutcomeUnknown \<Rightarrow> write_failure env ctx streamErr w2))))"

definition recoverStreamError ::
  "env \<Rightarrow> go_context \<Rightarrow> client \<Rightarrow> conn \<Rightarrow> time \<Rightarrow> bufio \<Rightarrow> goerr \<Rightarrow> world \<Rightarrow> scan_outcome \<times> world" where
  "recoverStreamError env ctx c cn iot br streamErr w =
     (if errors_Is streamErr ProtoErrSizeLimitExceeded
      then ((zero_result, Some (Errorf ''%w: input exceeds client-side limit of %d bytes (WithMaxStreamSize)''
              [FInt (maxStreamSize (cfg c))] [ErrSizeLimitExceeded])), w)
      else (case as_SourceError streamErr of
          Some srcErr \<Rightarrow>
            (case as_SourceAborted srcErr of
               Some aborted \<Rightarrow>
                 ((zero_result, Some (Errorf ''clamav: scan aborted: %w'' [] [aborted])), w)
             | None \<Rightarrow> ((zero_result, Some (Errorf ''clamav: reading scan source: %w'' [] [srcErr])), w))
        | None \<Rightarrow>
            (case ctxError env ctx w of
               (Some ce, w1) \<Rightarrow> ((zero_result, Some (Errorf ''clamav: scan aborted: %w'' [] [ce])), w1)
             | (None, w1) \<Rightarrow> recover_reply env ctx cn iot br streamErr w1)))"

text \<open>What \<open>scanStream\<close> does on its connection, between \<open>dial\<close> and the deferred calls.\<close>

definition scan_exchange ::
  "env \<Rightarrow> go_context \<Rightarrow> client \<Rightarrow> conn \<Rightarrow> source \<Rightarrow> world \<Rightarrow> (scan_outcome \<times> world) option" where
  "scan_exchange env ctx c cn src w =
     (let iot = ioTimeout (cfg c); br = new_bufio in
      (case dc_write env ctx cn iot w (EncodeCommand ''INSTREAM'') of
         ((_, Some werr), w1) \<Rightarrow> Some (as_result (wrapWriteErr env ctx werr w1))
       | ((_, None), w1) \<Rightarrow>
           (case StreamAll (dc_write env ctx cn iot) (ctx_read env ctx src)
                   (chunkSize (cfg c)) (maxStreamSize (cfg c)) w1 of
              None \<Rightarrow> None
            | Some ((_, Some streamErr), w2) \<Rightarrow>
                Some (recoverStreamError env ctx c cn iot br streamErr w2)
            | Some ((_, None), w2) \<Rightarrow>
                (case ReadLine (dc_read env ctx cn iot) MaxLineResponse br w2 of
                   ((line, terminated, Some err), _, w3) \<Rightarrow>
                     Some (as_result (wrapReadErr env ctx ''INSTREAM'' err w3))
                 | ((line, terminated, None), _, w3) \<Rightarrow>
                     Some (resultFromLine line terminated, w3)))))"

definition scanStream ::
  "env \<Rightarrow> go_context \<Rightarrow> client \<Rightarrow> source \<Rightarrow> world \<Rightarrow> (scan_outcome \<times> world) option" where
  "scanStream env ctx c src w =
     (case dial env ctx c w of
        None \<Rightarrow> None
      | Some (Inl e, w1) \<Rightarrow> Some ((zero_result, Some e), w1)
      | Some (Inr cn, w1) \<Rightarrow>
          map_option (\<lambda>(res, w2). (res, close_conn (stop_watch w2)))
            (scan_exchange env ctx c cn src (AfterFunc_abort w1)))"

subsection \<open>The concurrency slot, Scan and ScanBytes\<close>

text \<open>
  The \<open>select\<close> of \<open>acquireScanSlot\<close>: a free place in the channel or a done context, either
  when both are ready; nothing ready means waiting for the next tick.
\<close>

partial_function (option) select_slot ::
  "env \<Rightarrow> go_context \<Rightarrow> nat \<Rightarrow> world \<Rightarrow> (goerr option \<times> world) option" where
  [code]: "select_slot env ctx cap w =
     (let w1 = tick env ctx w;
          free = e_others env (clock w1) + slots_held w1 < cap in
      if free \<and> (\<not> ctx_done ctx w1 \<or> e_select env (clock w1))
      then Some (None, w1\<lparr>slots_held := Suc (slots_held w1), slots_taken := Suc (slots_taken w1)\<rparr>)
      else if ctx_done ctx w1
      then Some (Some (Errorf ''clamav: waiting for scan slot: %w'' [] [ctx_reason ctx]), w1)
      else select_slot env ctx cap w1)"

definition acquireScanSlot ::
  "env \<Rightarrow> go_context \<Rightarrow> client \<Rightarrow> world \<Rightarrow> (goerr option \<times> world) option" where
  "acquireScanSlot env ctx c w =
     (case ctx_Err env ctx w of
        (Some e, w1) \<Rightarrow> Some (Some (Errorf ''clamav: %w'' [] [e]), w1)
      | (None, w1) \<Rightarrow>
          (case sem c of
             None \<Rightarrow> Some (None, w1)
           | Some cap \<Rightarrow> select_slot env ctx cap w1))"

definition releaseScanSlot :: "client \<Rightarrow> world \<Rightarrow> world" where
  "releaseScanSlot c w = (if sem c \<noteq> None then w\<lparr>slots_held := slots_held w - 1\<rparr> else w)"

definition Scan ::
  "env \<Rightarrow> go_context \<Rightarrow> client \<Rightarrow> source option \<Rightarrow> world \<Rightarrow> (scan_outcome \<times> world) option" where
  "Scan env ctx c r w =
     (case r of
        None \<Rightarrow> Some ((zero_result, Some (NewError ''clamav: nil reader'' [])), w)
      | Some src \<Rightarrow>
          (case acquireScanSlot env ctx c w of
             None \<Rightarrow> None
           | Some (Some e, w1) \<Rightarrow> Some ((zero_result, Some e), w1)
           | Some (None, w1) \<Rightarrow>
               map_option (\<lambda>(res, w2). (res, releaseScanSlot c w2)) (scanStream env ctx c src w1)))"

text \<open>
  \<open>bytes.NewReader\<close>: reads go on from what has been delivered since the reader was made,
  when \<open>start\<close> bytes were in the source's log.
\<close>

definition bytes_reader :: "nat \<Rightarrow> bytes \<Rightarrow> source" where
  "bytes_reader start data w k =
     (let rest = drop (length (src_log w) - start) data in
      if rest = [] then (Stored [], Some IoEOF) else (Stored (take k rest), None))"

definition ScanBytes ::
  "env \<Rightarrow> go_context \<Rightarrow> client \<Rightarrow> bytes \<Rightarrow> world \<Rightarrow> (scan_outcome \<times> world) option" where
  "ScanBytes env ctx c data w =
     (if maxStreamSize (cfg c) \<noteq> NoSizeLimit \<and> int (length data) > maxStreamSize (cfg c)
      then Some ((zero_result, Some (Errorf ''%w: input is %d bytes, client-side limit is %d (WithMaxStreamSize)''
             [FInt (int (length data)), FInt (maxStreamSize (cfg c))] [ErrSizeLimitExceeded])), w)
      else Scan env ctx c (Some (bytes_reader (length (src_log w)) data)) w)"

end
