(* ===== verification/ScanFacts.thy ===== *)
theory ScanFacts
  imports Client
begin

text \<open>
  What a scan does on every path: the fail-closed contract, the books (connections and
  slots are given back), the abort deadline, and what a verdict says about the bytes
  that were sent and received.
\<close>

subsection \<open>The fail-closed contract, function by function\<close>

definition fail_closed :: "scan_outcome \<Rightarrow> bool" where
  "fail_closed res \<longleftrightarrow>
     (case res of
        (r, Some _) \<Rightarrow> r = zero_result
      | (r, None) \<Rightarrow> Verdict r = VerdictClean \<or> Verdict r = VerdictInfected)"

named_theorems closed_intros \<open>functions whose outcome is fail-closed\<close>

lemma fail_closed_error [closed_intros]: "fail_closed (zero_result, Some e)"
  by (simp add: fail_closed_def)

lemma fail_closed_as_result [closed_intros]: "fail_closed (fst (as_result ew))"
  by (simp add: as_result_def fail_closed_def split: prod.splits)

lemma fail_closed_resultFromLine [closed_intros]: "fail_closed (resultFromLine line t)"
  by (simp add: resultFromLine_def fail_closed_def Let_def split: outcome.splits)

lemma fail_closed_infected [closed_intros]:
  "fail_closed (\<lparr>Verdict = VerdictInfected, ResultSignature = s, Raw = l\<rparr>, None)"
  by (simp add: fail_closed_def)

lemma fail_closed_write_failure [closed_intros]: "fail_closed (fst (write_failure env ctx e w))"
  by (simp add: write_failure_def fail_closed_as_result split: option.split)

lemma fail_closed_recover_reply [closed_intros]:
  "fail_closed (fst (recover_reply env ctx cn iot br e w))"
  by (simp add: recover_reply_def Let_def closed_intros split: prod.split option.split outcome.split)

lemma fail_closed_recover [closed_intros]:
  "fail_closed (fst (recoverStreamError env ctx c cn iot br e w))"
  by (simp add: recoverStreamError_def closed_intros split: prod.split option.split)

text \<open>The four ways an exchange ends, as a case rule.\<close>

lemma scan_exchange_cases [consumes 1, case_names unsent stream unread reply]:
  assumes "scan_exchange env ctx c cn src w = Some (res, w')"
  obtains (unsent) n e w1 where
      "dc_write env ctx cn (ioTimeout (cfg c)) w (EncodeCommand ''INSTREAM'') = ((n, Some e), w1)"
      "as_result (wrapWriteErr env ctx e w1) = (res, w')"
  | (stream) n w1 k e w2 where
      "dc_write env ctx cn (ioTimeout (cfg c)) w (EncodeCommand ''INSTREAM'') = ((n, None), w1)"
      "StreamAll (dc_write env ctx cn (ioTimeout (cfg c))) (ctx_read env ctx src)
         (chunkSize (cfg c)) (maxStreamSize (cfg c)) w1 = Some ((k, Some e), w2)"
      "recoverStreamError env ctx c cn (ioTimeout (cfg c)) new_bufio e w2 = (res, w')"
  | (unread) n w1 k w2 line t e b w3 where
      "dc_write env ctx cn (ioTimeout (cfg c)) w (EncodeCommand ''INSTREAM'') = ((n, None), w1)"
      "StreamAll (dc_write env ctx cn (ioTimeout (cfg c))) (ctx_read env ctx src)
         (chunkSize (cfg c)) (maxStreamSize (cfg c)) w1 = Some ((k, None), w2)"
      "ReadLine (dc_read env ctx cn (ioTimeout (cfg c))) MaxLineResponse new_bufio w2 = ((line, t, Some e), b, w3)"
      "as_result (wrapReadErr env ctx ''INSTREAM'' e w3) = (res, w')"
  | (reply) n w1 k w2 line t b where
      "dc_write env ctx cn (ioTimeout (cfg c)) w (EncodeCommand ''INSTREAM'') = ((n, None), w1)"
      "StreamAll (dc_write env ctx cn (ioTimeout (cfg c))) (ctx_read env ctx src)
         (chunkSize (cfg c)) (maxStreamSize (cfg c)) w1 = Some ((k, None), w2)"
      "ReadLine (dc_read env ctx cn (ioTimeout (cfg c))) MaxLineResponse new_bufio w2 = ((line, t, None), b, w')"
      "resultFromLine line t = res"
proof -
  obtain n we w1 where wr:
    "dc_write env ctx cn (ioTimeout (cfg c)) w (EncodeCommand ''INSTREAM'') = ((n, we), w1)"
    by (metis prod.collapse)
  show thesis
  proof (cases we)
    case (Some e)
    with wr assms unsent [of n e w1] show ?thesis by (simp add: scan_exchange_def)
  next
    case None
    note wr = wr [unfolded None]
    let ?S = "StreamAll (dc_write env ctx cn (ioTimeout (cfg c))) (ctx_read env ctx src)
         (chunkSize (cfg c)) (maxStreamSize (cfg c)) w1"
    have "?S \<noteq> None"
    proof
      assume "?S = None"
      with assms wr show False by (simp add: scan_exchange_def)
    qed
    then obtain k se w2 where st: "?S = Some ((k, se), w2)" by auto
    show ?thesis
    proof (cases se)
      case (Some e)
      with wr st assms stream [of n w1 k e w2] show ?thesis by (simp add: scan_exchange_def)
    next
      case None
      obtain line t re b w3 where rl:
        "ReadLine (dc_read env ctx cn (ioTimeout (cfg c))) MaxLineResponse new_bufio w2 = ((line, t, re), b, w3)"
        by (metis prod.collapse)
      show ?thesis
      proof (cases re)
        case (Some e)
        with wr st None rl assms unread [of n w1 k w2 line t e b w3]
        show ?thesis by (simp add: scan_exchange_def)
      next
        case re: None
        with wr st None rl assms reply [of n w1 k w2 line t b]
        show ?thesis by (simp add: scan_exchange_def)
      qed
    qed
  qed
qed

lemma fail_closed_exchange:
  assumes "scan_exchange env ctx c cn src w = Some (res, w')"
  shows "fail_closed res"
  using assms
proof (cases rule: scan_exchange_cases)
  case (unsent n e w1)
  then show ?thesis using fail_closed_as_result by (metis fst_conv)
next
  case (stream n w1 k e w2)
  then show ?thesis using fail_closed_recover by (metis fst_conv)
next
  case (unread n w1 k w2 line t e b w3)
  then show ?thesis using fail_closed_as_result by (metis fst_conv)
next
  case (reply n w1 k w2 line t b)
  then show ?thesis using fail_closed_resultFromLine by blast
qed

lemma fail_closed_scanStream:
  "scanStream env ctx c src w = Some (res, w') \<Longrightarrow> fail_closed res"
  by (auto simp: scanStream_def closed_intros split: option.splits sum.splits prod.splits
      dest: fail_closed_exchange)

lemma fail_closed_Scan: "Scan env ctx c r w = Some (res, w') \<Longrightarrow> fail_closed res"
  by (auto simp: Scan_def closed_intros split: option.splits prod.splits dest: fail_closed_scanStream)

lemma fail_closed_ScanBytes: "ScanBytes env ctx c data w = Some (res, w') \<Longrightarrow> fail_closed res"
  by (auto simp: ScanBytes_def closed_intros split: if_splits dest: fail_closed_Scan)

subsection \<open>What every step keeps, the exchange keeps\<close>

lemma ctxErrorD:
  assumes "ctxError env ctx w = (r, w')"
  shows "(w' = tick env ctx w \<or> w' = tick env ctx (tick env ctx w)) \<and>
    (r = None \<longrightarrow> \<not> ctx_done ctx (tick env ctx w)) \<and>
    (r \<noteq> None \<longrightarrow> r = Some CtxCanceled \<or> r = Some CtxDeadlineExceeded)"
  using assms
  by (auto simp: ctxError_def time_Now_def Let_def ctx_reason_def
      split: prod.splits option.splits if_splits ctx_cause.splits dest!: ctx_ErrD)

lemma wrapWriteErr_ticks:
  "wrapWriteErr env ctx e w = (e', w') \<Longrightarrow> w' = tick env ctx w \<or> w' = tick env ctx (tick env ctx w)"
  by (auto simp: wrapWriteErr_def split: prod.splits option.splits dest!: ctxErrorD)

lemma wrapReadErr_ticks:
  "wrapReadErr env ctx cmd e w = (e', w') \<Longrightarrow> w' = tick env ctx w \<or> w' = tick env ctx (tick env ctx w)"
  by (auto simp: wrapReadErr_def split: prod.splits option.splits if_splits dest!: ctxErrorD)

lemma as_resultD: "as_result (f, w) = (res, w') \<Longrightarrow> res = (zero_result, Some f) \<and> w' = w"
  by (simp add: as_result_def)

lemma as_result_ticks:
  "as_result (wrapWriteErr env ctx e w) = (res, w') \<Longrightarrow> w' = tick env ctx w \<or> w' = tick env ctx (tick env ctx w)"
  "as_result (wrapReadErr env ctx cmd e w) = (res, w') \<Longrightarrow> w' = tick env ctx w \<or> w' = tick env ctx (tick env ctx w)"
  using wrapWriteErr_ticks [of env ctx e w] wrapReadErr_ticks [of env ctx cmd e w]
  by (auto simp: as_result_def split: prod.splits)

lemma write_failure_ticks:
  assumes "write_failure env ctx e w = (res, w')"
  shows "w' = tick env ctx w \<or> w' = tick env ctx (tick env ctx w)"
  using assms as_result_ticks(1) by (auto simp: write_failure_def split: option.splits)

lemma recover_reply_world:
  assumes "recover_reply env ctx cn iot b e w = (res, w')"
  obtains r b' w2 where "ReadLine (dc_read env ctx cn (min iot (2 * second))) MaxLineResponse b w = (r, b', w2)"
    "w' = w2 \<or> w' = tick env ctx w2 \<or> w' = tick env ctx (tick env ctx w2)"
proof -
  obtain line t e' b' w2 where
    r: "ReadLine (dc_read env ctx cn (min iot (2 * second))) MaxLineResponse b w = ((line, t, e'), b', w2)"
    by (metis prod.collapse)
  show thesis
  proof (rule that [OF r])
    show "w' = w2 \<or> w' = tick env ctx w2 \<or> w' = tick env ctx (tick env ctx w2)"
    proof (cases "e' = None \<and> Outcome (ParseScanResponse line) \<noteq> OutcomeUnknown")
      case True
      with assms r show ?thesis
        by (auto simp: recover_reply_def Let_def split: outcome.splits)
    next
      case False
      with assms r have "write_failure env ctx e w2 = (res, w')"
        by (auto simp: recover_reply_def Let_def split: outcome.splits option.splits)
      then show ?thesis using write_failure_ticks by blast
    qed
  qed
qed

lemma recover_world:
  assumes "recoverStreamError env ctx c cn iot b e w = (res, w')"
  shows "w' = w \<or> w' = tick env ctx w \<or> w' = tick env ctx (tick env ctx w) \<or>
    (\<exists>w1. (w1 = tick env ctx w \<or> w1 = tick env ctx (tick env ctx w)) \<and>
       recover_reply env ctx cn iot b e w1 = (res, w'))"
  using assms
  by (auto simp: recoverStreamError_def split: if_splits option.splits prod.splits dest!: ctxErrorD)

lemma scan_exchange_preserves:
  assumes run: "scan_exchange env ctx c cn src w = Some (res, w')" and Q: "Q w"
    and t: "\<And>v. Q v \<Longrightarrow> Q (tick env ctx v)"
    and rd: "\<And>d v k r v'. Q v \<Longrightarrow> dc_read env ctx cn d v k = (r, v') \<Longrightarrow> Q v'"
    and wr: "\<And>d v p r v'. Q v \<Longrightarrow> dc_write env ctx cn d v p = (r, v') \<Longrightarrow> Q v'"
    and sr: "\<And>v k r v'. Q v \<Longrightarrow> ctx_read env ctx src v k = (r, v') \<Longrightarrow> Q v'"
  shows "Q w'"
proof -
  have line: "Q v'" if "ReadLine (dc_read env ctx cn d) mx b v = (r, b', v')" "Q v" for d mx b v r b' v'
    using ReadLine_preserves [where Q = Q, OF _ that] rd by meson
  have all: "Q v'" if "StreamAll (dc_write env ctx cn d) (ctx_read env ctx src) k mx v = Some ((n, e), v')" "Q v"
    for d k mx v n e v'
    using StreamAll_preserves [where Q = Q, OF _ _ that] sr wr by meson
  from run show ?thesis
  proof (cases rule: scan_exchange_cases)
    case (unsent n e w1)
    have "Q w1" using wr [OF Q unsent(1)] .
    then show ?thesis using as_result_ticks(1) [OF unsent(2)] t [of w1] t [of "tick env ctx w1"] by auto
  next
    case (stream n w1 k e w2)
    have Q2: "Q w2" using all [OF stream(2) wr [OF Q stream(1)]] .
    from recover_world [OF stream(3)] consider
        "w' = w2 \<or> w' = tick env ctx w2 \<or> w' = tick env ctx (tick env ctx w2)"
      | w3 where "w3 = tick env ctx w2 \<or> w3 = tick env ctx (tick env ctx w2)"
          "recover_reply env ctx cn (ioTimeout (cfg c)) new_bufio e w3 = (res, w')" by blast
    then show ?thesis
    proof cases
      case 1
      then show ?thesis using Q2 t by auto
    next
      case 2
      then have "Q w3" using Q2 t by auto
      from 2(2) obtain r b' w4 where
        "ReadLine (dc_read env ctx cn (min (ioTimeout (cfg c)) (2 * second))) MaxLineResponse new_bufio w3 = (r, b', w4)"
        "w' = w4 \<or> w' = tick env ctx w4 \<or> w' = tick env ctx (tick env ctx w4)"
        by (rule recover_reply_world)
      moreover from this(1) have "Q w4" using \<open>Q w3\<close> by (rule line)
      ultimately show ?thesis using t [of w4] t [of "tick env ctx w4"] by auto
    qed
  next
    case (unread n w1 k w2 line' tm e b w3)
    have "Q w3" using line [OF unread(3) all [OF unread(2) wr [OF Q unread(1)]]] .
    then show ?thesis using as_result_ticks(2) [OF unread(4)] t [of w3] t [of "tick env ctx w3"] by auto
  next
    case (reply n w1 k w2 line' tm b)
    show ?thesis using line [OF reply(3) all [OF reply(2) wr [OF Q reply(1)]]] .
  qed
qed

lemma scan_exchange_books:
  assumes "scan_exchange env ctx c cn src w = Some (res, w')"
  shows "same_books w w'"
proof (rule scan_exchange_preserves [OF assms, where Q = "same_books w"])
  show "same_books w v \<Longrightarrow> same_books w (tick env ctx v)" for v
    using same_books_trans same_books_tick by blast
  show "same_books w v \<Longrightarrow> dc_read env ctx cn d v k = (r, v') \<Longrightarrow> same_books w v'" for d v k r v'
    using same_books_trans dc_read_frame(4) by blast
  show "same_books w v \<Longrightarrow> dc_write env ctx cn d v p = (r, v') \<Longrightarrow> same_books w v'" for d v p r v'
    using same_books_trans dc_write_frame(4) by blast
  show "same_books w v \<Longrightarrow> ctx_read env ctx src v k = (r, v') \<Longrightarrow> same_books w v'" for v k r v'
    using same_books_trans ctx_read_frame(3) by blast
qed simp

lemma ctx_read_abort_kept:
  assumes "abort_kept ctx w" "ctx_read env ctx src w k = (r, w')"
  shows "abort_kept ctx w'"
proof -
  obtain e w1 where c: "ctx_Err env ctx w = (e, w1)" by (metis prod.collapse)
  with ctx_ErrD have k1: "abort_kept ctx w1" using tick_abort_kept [OF assms(1)] by blast
  have upd: "abort_kept ctx v \<Longrightarrow> abort_kept ctx (v\<lparr>src_log := l, src_eof := b, src_failed := x\<rparr>)" for v l b x
    by (simp add: abort_kept_def ctx_done_def split: option.splits)
  show ?thesis
    using assms(2) c k1 tick_abort_kept [OF k1, of env] upd [OF tick_abort_kept [OF k1, of env]]
    by (auto simp: ctx_read_def Let_def split: prod.splits option.splits if_splits)
qed

lemma scan_exchange_abort_kept:
  assumes "scan_exchange env ctx c cn src w = Some (res, w')" "settable cn" "abort_kept ctx w"
  shows "abort_kept ctx w'"
proof (rule scan_exchange_preserves [OF assms(1), where Q = "abort_kept ctx"])
  show "abort_kept ctx w" by fact
  show "abort_kept ctx v \<Longrightarrow> abort_kept ctx (tick env ctx v)" for v by (rule tick_abort_kept)
  show "abort_kept ctx v \<Longrightarrow> dc_read env ctx cn d v k = (r, v') \<Longrightarrow> abort_kept ctx v'" for d v k r v'
    using dc_read_abort_kept [OF _ assms(2)] by blast
  show "abort_kept ctx v \<Longrightarrow> dc_write env ctx cn d v p = (r, v') \<Longrightarrow> abort_kept ctx v'" for d v p r v'
    using dc_write_abort_kept [OF _ assms(2)] by blast
  show "abort_kept ctx v \<Longrightarrow> ctx_read env ctx src v k = (r, v') \<Longrightarrow> abort_kept ctx v'" for v k r v'
    by (rule ctx_read_abort_kept)
qed

subsection \<open>A scan only touches its connection under a deadline\<close>

lemma scan_exchange_guarded:
  assumes "same_guarded env ctx (ioTimeout (cfg c)) cn cn'"
  shows "scan_exchange env ctx c cn src w = scan_exchange env ctx c cn' src w"
proof -
  note io = same_guarded_io [OF assms order_refl]
  have "dc_read env ctx cn (min (ioTimeout (cfg c)) (2 * second)) = dc_read env ctx cn' (min (ioTimeout (cfg c)) (2 * second))"
    by (rule same_guarded_io(1) [OF assms]) simp
  then have "recoverStreamError env ctx c cn (ioTimeout (cfg c)) br e v =
      recoverStreamError env ctx c cn' (ioTimeout (cfg c)) br e v" for br e v
    by (simp add: recoverStreamError_def recover_reply_def cong: option.case_cong)
  then show ?thesis by (simp add: scan_exchange_def io cong: option.case_cong)
qed

end
