(* ===== verification/ScanWire.thy ===== *)
theory ScanWire
  imports ScanFacts
begin

text \<open>
  What a scan's outcome says about the bytes on its connection: what was sent on every
  path, what a clean verdict and a detection rest on, and that a scan under a size limit
  returns.
\<close>

subsection \<open>What was sent, on every path\<close>

text \<open>
  \<open>full_writes\<close> is the contract of \<open>io.Writer\<close>: a \<open>Write\<close> that returns a nil error has
  taken all the bytes. \<open>StreamAll\<close> checks it; the write of the command relies on it.
\<close>

definition full_writes :: "conn \<Rightarrow> bool" where
  "full_writes cn \<longleftrightarrow> (\<forall>w p n. conn_write cn w p = (n, None) \<longrightarrow> n = int (length p))"

definition same_sent :: "world \<Rightarrow> world \<Rightarrow> bool" where
  "same_sent w w' \<longleftrightarrow> wire_out w' = wire_out w \<and> src_log w' = src_log w \<and> src_eof w' = src_eof w \<and>
     src_failed w' = src_failed w"

lemma same_sent_refl [simp]: "same_sent w w"
  by (simp add: same_sent_def)

lemma same_sent_tick [simp]: "same_sent w (tick env ctx v) \<longleftrightarrow> same_sent w v"
  by (simp add: same_sent_def)

lemma same_sent_tick_left [simp]: "same_sent (tick env ctx w) v \<longleftrightarrow> same_sent w v"
  by (simp add: same_sent_def)

lemma ReadLine_same_sent:
  assumes "ReadLine (dc_read env ctx cn d) mx b v = (r, b', v')" "same_sent w v"
  shows "same_sent w v'"
proof (rule ReadLine_preserves [where Q = "same_sent w", OF _ assms])
  show "same_sent w u \<Longrightarrow> dc_read env ctx cn d u k = (res, u') \<Longrightarrow> same_sent w u'" for u k res u'
    using dc_read_frame [of env ctx cn d u k res u'] by (simp add: same_sent_def)
qed

lemma recover_same_sent:
  assumes "recoverStreamError env ctx c cn iot b e w = (res, w')"
  shows "same_sent w w'"
  using recover_world [OF assms]
  by (auto elim!: recover_reply_world dest!: ReadLine_same_sent [of _ _ _ _ _ _ _ _ _ _ w])

lemma StreamAll_wire_in:
  assumes "StreamAll (dc_write env ctx cn d) (ctx_read env ctx src) k mx v = Some ((n, e), v')"
  shows "wire_in v' = wire_in v"
proof (rule StreamAll_preserves [where Q = "\<lambda>u. wire_in u = wire_in v", OF _ _ assms])
  show "wire_in u = wire_in v \<Longrightarrow> ctx_read env ctx src u k = (res, u') \<Longrightarrow> wire_in u' = wire_in v" for u k res u'
    using ctx_read_frame(2) by metis
  show "wire_in u = wire_in v \<Longrightarrow> dc_write env ctx cn d u p = (res, u') \<Longrightarrow> wire_in u' = wire_in v" for u p res u'
    using dc_write_frame(1) by metis
qed simp

lemma dc_write_all:
  assumes "full_writes cn" "dc_write env ctx cn d w p = ((n, None), w')"
  shows "wire_out w' = wire_out w @ p"
proof -
  have "n = int (length p)"
    using assms by (auto simp: dc_write_def full_writes_def Let_def split: prod.splits option.splits)
  with dc_write_accepts [OF assms(2)] show ?thesis by auto
qed

lemma recover_not_clean:
  "recoverStreamError env ctx c cn iot b e w = ((r, x), w') \<Longrightarrow> Verdict r \<noteq> VerdictClean"
  by (auto simp: recoverStreamError_def recover_reply_def write_failure_def as_result_def
      zero_result_def Let_def split: if_splits option.splits prod.splits outcome.splits)

lemma resultFromLine_clean:
  assumes "resultFromLine line t = (r, e)" "Verdict r = VerdictClean"
  shows "t \<and> e = None \<and> Raw r = line \<and> ResultSignature r = [] \<and>
    Outcome (ParseScanResponse line) = OutcomeClean"
  using assms by (auto simp: resultFromLine_def zero_result_def Let_def split: outcome.splits if_splits)

lemma resultFromLine_infected:
  assumes "resultFromLine line t = (r, e)" "Verdict r = VerdictInfected"
  shows "e = None \<and> Raw r = line \<and> ResultSignature r = Signature (ParseScanResponse line) \<and>
    Outcome (ParseScanResponse line) = OutcomeInfected"
  using assms by (auto simp: resultFromLine_def zero_result_def Let_def split: outcome.splits if_splits)

text \<open>
  \<open>sent_on c w w' e\<close>: between \<open>w\<close> and \<open>w'\<close> the command and then a \<open>streamed\<close> run were sent.
\<close>

definition sent_on :: "client \<Rightarrow> world \<Rightarrow> world \<Rightarrow> goerr option \<Rightarrow> bool" where
  "sent_on c w w' e \<longleftrightarrow>
     (\<exists>out del. wire_out w' = wire_out w @ EncodeCommand ''INSTREAM'' @ out \<and> src_log w' = src_log w @ del \<and>
        streamed (nat (clamp_chunk (chunkSize (cfg c)))) (limit_left (maxStreamSize (cfg c)) 0)
          e out del (src_eof w'))"

lemma sent_on_same: "sent_on c w w1 e \<Longrightarrow> same_sent w1 w' \<Longrightarrow> sent_on c w w' e"
  by (simp add: sent_on_def same_sent_def)

lemma sent_on_StreamAll:
  assumes "full_writes cn" "maxStreamSize (cfg c) \<le> max_int64 - MaxChunkSize"
    "dc_write env ctx cn d w (EncodeCommand ''INSTREAM'') = ((n, None), w1)"
    "StreamAll (dc_write env ctx cn d) (ctx_read env ctx src) (chunkSize (cfg c)) (maxStreamSize (cfg c)) w1
       = Some ((k, e), w2)"
  shows "sent_on c w w2 e"
  using dc_write_all [OF assms(1,3)] dc_write_frame(2) [OF assms(3)]
    dc_stream.StreamAll_streamed [OF assms(4,2)]
  by (auto simp: sent_on_def)

lemma exchange_sent:
  assumes "scan_exchange env ctx c cn src w = Some (res, w')" "full_writes cn"
    "maxStreamSize (cfg c) \<le> max_int64 - MaxChunkSize"
  shows "(\<exists>k. wire_out w' = wire_out w @ take k (EncodeCommand ''INSTREAM'')) \<and> src_log w' = src_log w \<and>
      src_eof w' = src_eof w \<and> Verdict (fst res) \<noteq> VerdictClean \<or>
    (\<exists>e. sent_on c w w' e \<and> (Verdict (fst res) = VerdictClean \<longrightarrow> e = None))"
  using assms(1)
proof (cases rule: scan_exchange_cases)
  case (unsent n e w1)
  have "same_sent w1 w'" using as_result_ticks(1) [OF unsent(2)] by auto
  moreover have "Verdict (fst res) \<noteq> VerdictClean"
    using unsent(2) by (auto simp: as_result_def zero_result_def split: prod.splits)
  ultimately show ?thesis
    using dc_write_accepts [OF unsent(1)] dc_write_frame [OF unsent(1)] by (auto simp: same_sent_def)
next
  case (stream n w1 k e w2)
  have "Verdict (fst res) \<noteq> VerdictClean" using recover_not_clean stream(3) by (metis prod.collapse)
  with sent_on_same [OF sent_on_StreamAll [OF assms(2,3) stream(1,2)] recover_same_sent [OF stream(3)]]
  show ?thesis by blast
next
  case (unread n w1 k w2 line t e b w3)
  have "same_sent w2 w'" using as_result_ticks(2) [OF unread(4)] ReadLine_same_sent [OF unread(3) same_sent_refl]
    by auto
  with sent_on_same [OF sent_on_StreamAll [OF assms(2,3) unread(1,2)]] show ?thesis by blast
next
  case (reply n w1 k w2 line t b)
  from sent_on_same [OF sent_on_StreamAll [OF assms(2,3) reply(1,2)] ReadLine_same_sent [OF reply(3) same_sent_refl]]
  show ?thesis by blast
qed

subsection \<open>What a verdict rests on\<close>

lemma trimEOL_padding [simp]: "TrimRight (trimEOL s) reply_padding = TrimRight s reply_padding"
  unfolding trimEOL_def by (rule TrimRight_TrimRight) (auto simp: eol_def reply_padding_def)

lemma ParseScanResponse_trimEOL [simp]: "ParseScanResponse (trimEOL s) = ParseScanResponse s"
  by (simp add: ParseScanResponse_def)

text \<open>
  A reply line that was read: the trimmed text of the next bytes from the peer.
\<close>

definition got_reply :: "world \<Rightarrow> world \<Rightarrow> string \<Rightarrow> bool \<Rightarrow> bool" where
  "got_reply w w' line terminated \<longleftrightarrow>
     (\<exists>content rest. wire_in w' = wire_in w @ bytes_of content @ (if terminated then 0 # rest else []) \<and>
        CHR 0x00 \<notin> set content \<and> line = trimEOL content \<and> int (length content) \<le> MaxLineResponse)"

lemma ReadLine_got_reply:
  assumes "ReadLine (dc_read env ctx cn d) MaxLineResponse new_bufio w = ((line, t, None), b, w')"
  shows "got_reply w w' line t"
proof -
  have "0 \<le> MaxLineResponse" by (simp add: MaxLineResponse_def)
  from dc_conn.ReadLine_got [OF assms this] show ?thesis unfolding got_reply_def by blast
qed

lemma got_reply_from: "wire_in w1 = wire_in w \<Longrightarrow> got_reply w1 w' line t = got_reply w w' line t"
  by (simp add: got_reply_def)

lemma exchange_clean:
  assumes "scan_exchange env ctx c cn src w = Some ((r, e), w')" "Verdict r = VerdictClean"
  shows "e = None \<and> got_reply w w' (Raw r) True \<and> Outcome (ParseScanResponse (Raw r)) = OutcomeClean"
  using assms(1)
proof (cases rule: scan_exchange_cases)
  case (unsent n e w1)
  then show ?thesis using assms(2) by (auto simp: as_result_def zero_result_def split: prod.splits)
next
  case (stream n w1 k e w2)
  then show ?thesis using assms(2) recover_not_clean by blast
next
  case (unread n w1 k w2 line t e b w3)
  then show ?thesis using assms(2) by (auto simp: as_result_def zero_result_def split: prod.splits)
next
  case (reply n w1 k w2 line t b)
  have "wire_in w2 = wire_in w"
    using StreamAll_wire_in [OF reply(2)] dc_write_frame(1) [OF reply(1)] by simp
  with ReadLine_got_reply [OF reply(3)] resultFromLine_clean [OF reply(4) assms(2)]
  show ?thesis by (auto simp: got_reply_from [of w2 w])
qed

lemma recover_reply_infected:
  assumes "recover_reply env ctx cn iot new_bufio e w = ((r, x), w')" "Verdict r = VerdictInfected"
  shows "x = None \<and> (\<exists>t. got_reply w w' (Raw r) t) \<and>
    Outcome (ParseScanResponse (Raw r)) = OutcomeInfected \<and>
    ResultSignature r = Signature (ParseScanResponse (Raw r))"
proof -
  obtain line t e' b' w2 where
    rl: "ReadLine (dc_read env ctx cn (min iot (2 * second))) MaxLineResponse new_bufio w = ((line, t, e'), b', w2)"
    by (metis prod.collapse)
  have wf: "write_failure env ctx e w2 \<noteq> ((r, x), w')"
    using assms(2) by (auto simp: write_failure_def as_result_def zero_result_def split: option.splits prod.splits)
  with assms rl have "e' = None \<and> w' = w2 \<and> x = None \<and> Raw r = line \<and>
      Outcome (ParseScanResponse line) = OutcomeInfected \<and> ResultSignature r = Signature (ParseScanResponse line)"
    by (auto simp: recover_reply_def Let_def zero_result_def split: option.splits outcome.splits)
  with ReadLine_got_reply [of env ctx cn] rl show ?thesis by blast
qed

lemma recover_infected:
  assumes "recoverStreamError env ctx c cn iot new_bufio e w = ((r, x), w')" "Verdict r = VerdictInfected"
  shows "\<exists>w1. recover_reply env ctx cn iot new_bufio e w1 = ((r, x), w') \<and> wire_in w1 = wire_in w"
  using assms
  by (fastforce simp: recoverStreamError_def zero_result_def split: if_splits option.splits prod.splits
      dest!: ctxErrorD)

lemma exchange_infected:
  assumes "scan_exchange env ctx c cn src w = Some ((r, e), w')" "Verdict r = VerdictInfected"
  shows "e = None \<and> (\<exists>t. got_reply w w' (Raw r) t) \<and>
    Outcome (ParseScanResponse (Raw r)) = OutcomeInfected \<and>
    ResultSignature r = Signature (ParseScanResponse (Raw r))"
  using assms(1)
proof (cases rule: scan_exchange_cases)
  case (unsent n e w1)
  then show ?thesis using assms(2) by (auto simp: as_result_def zero_result_def split: prod.splits)
next
  case (stream n w1 k se w2)
  from recover_infected [OF stream(3) assms(2)] obtain w3 where
    w3: "recover_reply env ctx cn (ioTimeout (cfg c)) new_bufio se w3 = ((r, e), w')" "wire_in w3 = wire_in w2"
    by blast
  have "wire_in w2 = wire_in w"
    using StreamAll_wire_in [OF stream(2)] dc_write_frame(1) [OF stream(1)] by simp
  with recover_reply_infected [OF w3(1) assms(2)] w3(2) show ?thesis by (simp add: got_reply_from [of w3 w])
next
  case (unread n w1 k w2 line t e b w3)
  then show ?thesis using assms(2) by (auto simp: as_result_def zero_result_def split: prod.splits)
next
  case (reply n w1 k w2 line t b)
  have "wire_in w2 = wire_in w"
    using StreamAll_wire_in [OF reply(2)] dc_write_frame(1) [OF reply(1)] by simp
  with ReadLine_got_reply [OF reply(3)] resultFromLine_infected [OF reply(4) assms(2)]
  show ?thesis by (auto simp: got_reply_from [of w2 w])
qed

subsection \<open>Who is blamed\<close>

text \<open>The format of the error for a source that failed.\<close>

abbreviation (input) reading_source :: "goerr \<Rightarrow> goerr" where
  "reading_source x \<equiv> Errorf ''clamav: reading scan source: %w'' [] [x]"

abbreviation (input) over_limit_error :: "client \<Rightarrow> goerr" where
  "over_limit_error c \<equiv> Errorf ''%w: input exceeds client-side limit of %d bytes (WithMaxStreamSize)''
     [FInt (maxStreamSize (cfg c))] [ErrSizeLimitExceeded]"

text \<open>Between \<open>w\<close> and \<open>w'\<close> the source has delivered more than the limit of the client.\<close>

definition over_limit :: "client \<Rightarrow> world \<Rightarrow> world \<Rightarrow> bool" where
  "over_limit c w w' \<longleftrightarrow> 0 \<le> maxStreamSize (cfg c) \<and>
     maxStreamSize (cfg c) < int (length (src_log w')) - int (length (src_log w))"

text \<open>
  A failure of the source is what the exchange reports, whatever the context and the connection do,
  unless what was delivered with it is over the limit, which is then reported.
\<close>

definition source_blamed :: "client \<Rightarrow> goerr \<Rightarrow> world \<Rightarrow> world \<Rightarrow> scan_outcome \<Rightarrow> bool" where
  "source_blamed c x w w' out \<longleftrightarrow>
     out = (zero_result, Some (reading_source x)) \<and>
       (maxStreamSize (cfg c) \<le> max_int64 - MaxChunkSize \<longrightarrow> \<not> over_limit c w w') \<or>
     out = (zero_result, Some (over_limit_error c)) \<and> over_limit c w w'"

lemma source_blamed_cong:
  "src_log v = src_log w \<Longrightarrow> src_log v' = src_log w' \<Longrightarrow> source_blamed c x v v' out = source_blamed c x w w' out"
  by (simp add: source_blamed_def over_limit_def)

lemma recover_source:
  assumes "recoverStreamError env ctx c cn iot b (SourceError x) w = (res, w')"
    "\<not> errors_Is x ProtoErrSizeLimitExceeded" "as_SourceAborted x = None"
  shows "res = (zero_result, Some (reading_source x)) \<and> w' = w"
  using assms by (auto simp: recoverStreamError_def errors_Is_simps split: option.splits)

lemma exchange_failed:
  assumes run: "scan_exchange env ctx c cn src w = Some (res, w')"
    and x: "src_failed w = None" "src_failed w' = Some x" "\<not> errors_Is x ProtoErrSizeLimitExceeded" "as_SourceAborted x = None"
  shows "source_blamed c x w w' res"
  using run
proof (cases rule: scan_exchange_cases)
  case (unsent n e w1)
  then have "src_failed w' = src_failed w"
    using dc_write_frame(5) [OF unsent(1)] as_result_ticks(1) [OF unsent(2)] by auto
  with x show ?thesis by simp
next
  case (stream n w1 k e w2)
  have end2: "src_failed w2 = Some x" "src_log w2 = src_log w'"
    using recover_same_sent [OF stream(3)] x(2) by (simp_all add: same_sent_def)
  note start = dc_write_frame(2) [OF stream(1)]
  note lim = dc_stream.StreamAll_limit [OF stream(2), unfolded start end2(2)]
  from caller_failure.StreamAll_failed [OF stream(2)] dc_write_frame(5) [OF stream(1)] x(1) end2(1)
  consider "e = SourceError x" | "e = ProtoErrSizeLimitExceeded" "0 \<le> maxStreamSize (cfg c)" by auto
  then show ?thesis
  proof cases
    case 1
    with recover_source [OF stream(3) [unfolded 1] x(3,4)] lim(2) [of x] show ?thesis
      by (force simp: source_blamed_def over_limit_def)
  next
    case 2
    with stream(3) lim(1) show ?thesis
      by (auto simp: source_blamed_def over_limit_def recoverStreamError_def errors_Is_simps errors_Is_leaf)
  qed
next
  case (unread n w1 k w2 line t e b w3)
  have "src_failed w2 = src_failed w'"
    using ReadLine_same_sent [OF unread(3) same_sent_refl] as_result_ticks(2) [OF unread(4)]
    by (auto simp: same_sent_def)
  with caller_failure.StreamAll_failed [OF unread(2)] dc_write_frame(5) [OF unread(1)] x show ?thesis by auto
next
  case (reply n w1 k w2 line t b)
  have "src_failed w2 = src_failed w'"
    using ReadLine_same_sent [OF reply(3) same_sent_refl] by (simp add: same_sent_def)
  with caller_failure.StreamAll_failed [OF reply(2)] dc_write_frame(5) [OF reply(1)] x show ?thesis by auto
qed

subsection \<open>How much a peer can make a scan receive\<close>

definition received_limit :: "int \<Rightarrow> int" where
  "received_limit mx = mx + 1 + int bufio_size"

lemma ReadLine_received:
  "ReadLine (dc_read env ctx cn d) MaxLineResponse new_bufio w = (r, b, w') \<Longrightarrow>
    int (length (wire_in w')) \<le> int (length (wire_in w)) + received_limit MaxLineResponse"
  using dc_conn.received_bounds(1) [of MaxLineResponse env ctx cn d w r b w']
  by (simp add: received_limit_def MaxLineResponse_def)

lemma received_limit_nonneg [simp]: "0 \<le> received_limit MaxLineResponse"
  by (simp add: received_limit_def MaxLineResponse_def)

lemma recover_received:
  assumes "recoverStreamError env ctx c cn iot new_bufio e w = (res, w')"
  shows "int (length (wire_in w')) \<le> int (length (wire_in w)) + received_limit MaxLineResponse"
proof -
  from recover_world [OF assms] consider
      "w' = w \<or> w' = tick env ctx w \<or> w' = tick env ctx (tick env ctx w)"
    | w1 where "w1 = tick env ctx w \<or> w1 = tick env ctx (tick env ctx w)"
        "recover_reply env ctx cn iot new_bufio e w1 = (res, w')" by blast
  then show ?thesis
  proof cases
    case 2
    from 2(2) obtain r b' w2 where
      r: "ReadLine (dc_read env ctx cn (min iot (2 * second))) MaxLineResponse new_bufio w1 = (r, b', w2)"
      and w': "w' = w2 \<or> w' = tick env ctx w2 \<or> w' = tick env ctx (tick env ctx w2)"
      by (rule recover_reply_world)
    have "wire_in w' = wire_in w2" using w' by auto
    moreover have "wire_in w1 = wire_in w" using 2(1) by auto
    ultimately show ?thesis using ReadLine_received [OF r] by simp
  qed auto
qed

lemma exchange_received:
  assumes "scan_exchange env ctx c cn src w = Some (res, w')"
  shows "int (length (wire_in w')) \<le> int (length (wire_in w)) + received_limit MaxLineResponse"
  using assms
proof (cases rule: scan_exchange_cases)
  case (unsent n e w1)
  have "wire_in w' = wire_in w1" using as_result_ticks(1) [OF unsent(2)] by auto
  with dc_write_frame(1) [OF unsent(1)] show ?thesis by simp
next
  case (stream n w1 k e w2)
  with recover_received [OF stream(3)] StreamAll_wire_in [OF stream(2)] dc_write_frame(1) [OF stream(1)]
  show ?thesis by simp
next
  case (unread n w1 k w2 line t e b w3)
  have "wire_in w' = wire_in w3" using as_result_ticks(2) [OF unread(4)] by auto
  with ReadLine_received [OF unread(3)] StreamAll_wire_in [OF unread(2)] dc_write_frame(1) [OF unread(1)]
  show ?thesis by simp
next
  case (reply n w1 k w2 line t b)
  with ReadLine_received [OF reply(3)] StreamAll_wire_in [OF reply(2)] dc_write_frame(1) [OF reply(1)]
  show ?thesis by simp
qed

lemma exchange_raw:
  assumes "scan_exchange env ctx c cn src w = Some ((r, e), w')"
  shows "int (length (Raw r)) \<le> MaxLineResponse"
proof -
  have got: "int (length l) \<le> MaxLineResponse" if "got_reply w w' l t" for l t
    using that length_TrimRight_le [of _ eol] unfolding got_reply_def trimEOL_def
    by (metis of_nat_le_iff order_trans)
  from fail_closed_exchange [OF assms] consider "r = zero_result" | "Verdict r = VerdictClean" | "Verdict r = VerdictInfected"
    by (auto simp: fail_closed_def split: option.splits)
  then show ?thesis
  proof cases
    case 1
    then show ?thesis by (simp add: zero_result_def MaxLineResponse_def)
  next
    case 2
    with exchange_clean [OF assms] got show ?thesis by blast
  next
    case 3
    with exchange_infected [OF assms] got show ?thesis by blast
  qed
qed

subsection \<open>Returning\<close>

text \<open>
  What makes a scan end: a size limit, far enough from the end of the integers, or a source that
  delivers only so many bytes. A reader over a buffer is such a source.
\<close>

definition scan_ends :: "client \<Rightarrow> source \<Rightarrow> bool" where
  "scan_ends c src \<longleftrightarrow>
     maxStreamSize (cfg c) \<noteq> NoSizeLimit \<and> maxStreamSize (cfg c) \<le> max_int64 - MaxChunkSize \<or>
     (\<exists>N. finite_source N src)"

lemma scan_ends_limit:
  "maxStreamSize (cfg c) \<noteq> NoSizeLimit \<Longrightarrow> maxStreamSize (cfg c) \<le> max_int64 - MaxChunkSize \<Longrightarrow> scan_ends c src"
  by (simp add: scan_ends_def)

lemma bytes_reader_finite: "finite_source (start + length data) (bytes_reader start data)"
  by (auto simp: finite_source_def bytes_reader_def src_count_def Let_def)

lemma scan_ends_bytes: "scan_ends c (bytes_reader start data)"
  using bytes_reader_finite [of start data] by (auto simp: scan_ends_def)

interpretation buffered: ending_source "dc_write env ctx cn d" "ctx_read env ctx (bytes_reader start data)"
    "\<lambda>w. start + length data - length (src_log w)" for env ctx cn d start data
  by (rule caller_ends [OF bytes_reader_finite])

lemma StreamAll_caller_ends:
  assumes "client_ok c" "scan_ends c src"
  shows "StreamAll (dc_write env ctx cn d) (ctx_read env ctx src) k (maxStreamSize (cfg c)) w \<noteq> None"
proof (cases "\<exists>N. finite_source N src")
  case True
  then show ?thesis using ending_source.StreamAll_ends [OF caller_ends] by blast
next
  case False
  with assms show ?thesis
    by (intro StreamAll_returns) (auto simp: scan_ends_def client_ok_def config_ok_def)
qed

lemma scan_exchange_returns:
  assumes "client_ok c" "scan_ends c src"
  shows "scan_exchange env ctx c cn src w \<noteq> None"
proof -
  obtain n e w1 where wr: "dc_write env ctx cn (ioTimeout (cfg c)) w (EncodeCommand ''INSTREAM'') = ((n, e), w1)"
    by (metis prod.collapse)
  from StreamAll_caller_ends [OF assms] obtain k se w2 where
    "StreamAll (dc_write env ctx cn (ioTimeout (cfg c))) (ctx_read env ctx src)
       (chunkSize (cfg c)) (maxStreamSize (cfg c)) w1 = Some ((k, se), w2)"
    by (metis not_None_eq prod.collapse)
  with wr show ?thesis
    by (cases e; cases se)
      (simp_all add: scan_exchange_def Let_def del: not_None_eq split: option.split prod.split)
qed

lemma dial_returns:
  assumes "client_ok c"
  shows "dial env ctx c w \<noteq> None"
  using assms
  by (auto simp: dial_def client_ok_def config_ok_def Let_def split: prod.splits option.splits)

lemma scanStream_returns:
  assumes "client_ok c" "scan_ends c src"
  shows "scanStream env ctx c src w \<noteq> None"
  using dial_returns [OF assms(1)] scan_exchange_returns [OF assms]
  by (auto simp: scanStream_def split: option.splits sum.splits prod.splits)

lemma select_slot_returns:
  assumes "ctx_done_at ctx = Some k"
  shows "select_slot env ctx cap w \<noteq> None"
proof (induction "k - clock w" arbitrary: w rule: less_induct)
  case less
  show ?case
  proof (cases "ctx_done ctx (tick env ctx w)")
    case True
    then show ?thesis by (subst select_slot.simps) (simp add: Let_def)
  next
    case False
    then have "clock w < k" using assms by (simp add: ctx_done_def)
    with less [of "tick env ctx w"] False show ?thesis
      by (subst select_slot.simps) (auto simp: Let_def)
  qed
qed

text \<open>A slot that is free once while the context is live is taken, then or before.\<close>

lemma select_slot_free:
  assumes "clock w < j" "e_others env j + slots_held w < cap" "\<And>k. ctx_done_at ctx = Some k \<Longrightarrow> j < k"
  shows "\<exists>w'. select_slot env ctx cap w = Some (None, w') \<and> clock w' \<le> j"
  using assms(1,2)
proof (induction "j - clock w" arbitrary: w rule: less_induct)
  case less
  have live: "\<not> ctx_done ctx (tick env ctx w)"
    using assms(3) less.prems(1) by (auto simp: ctx_done_def split: option.splits)
  show ?case
  proof (cases "e_others env (Suc (clock w)) + slots_held w < cap")
    case True
    with live less.prems(1) show ?thesis by (subst select_slot.simps) (simp add: Let_def)
  next
    case False
    with less.prems have "Suc (clock w) < j" by (cases "Suc (clock w) = j") auto
    with less.hyps [of "tick env ctx w"] less.prems live False show ?thesis
      by (subst select_slot.simps) (simp add: Let_def)
  qed
qed

text \<open>While every slot is taken, a queued call waits until its context ends and then fails.\<close>

lemma select_slot_full:
  assumes "\<And>i. cap \<le> e_others env i" "ctx_done_at ctx = Some k"
  shows "\<exists>w'. select_slot env ctx cap w =
    Some (Some (Errorf ''clamav: waiting for scan slot: %w'' [] [ctx_reason ctx]), w')"
proof (induction "k - clock w" arbitrary: w rule: less_induct)
  case less
  have full: "\<not> e_others env i + h < cap" for i h using assms(1) [of i] by simp
  show ?case
  proof (cases "ctx_done ctx (tick env ctx w)")
    case True
    with full show ?thesis by (subst select_slot.simps) (simp add: Let_def)
  next
    case False
    then have "clock w < k" using assms(2) by (simp add: ctx_done_def)
    with less [of "tick env ctx w"] False full show ?thesis
      by (subst select_slot.simps) (auto simp: Let_def)
  qed
qed

subsection \<open>From the exchange to Scan\<close>

text \<open>
  The ways a scan ends: refused before a connection was made, or by an exchange on a new
  connection, which is closed, with the slot given back.
\<close>

lemma dialD:
  assumes "dial env ctx c w = Some (x, w')"
  shows "case x of
      Inl e \<Rightarrow> clock w < clock w' \<and> same_books w w' \<and> same_sent w w' \<and> wire_in w' = wire_in w
    | Inr cn \<Rightarrow> \<exists>w1. w' = connected w1 \<and> same_books w w1 \<and> same_sent w w1 \<and> clock w < clock w1"
proof -
  define r where "r = (if dialTimeout (cfg c) > 0 then WithTimeout env ctx (dialTimeout (cfg c)) w else (ctx, w))"
  obtain dctx w0 where r: "r = (dctx, w0)" by (metis prod.collapse)
  have "w0 = w \<or> w0 = tick env ctx w"
    using r by (auto simp: r_def WithTimeout_def time_Now_def Let_def
        split: option.splits prod.splits if_splits)
  then have b: "same_books w (tick env ctx w0)" "same_sent w (tick env ctx w0)"
      "wire_in (tick env ctx w0) = wire_in w" "clock w < clock (tick env ctx w0)"
    by (auto simp: same_books_def)
  have t: "same_books w (tick env ctx v)" if "same_books w v" for v
    using that same_books_tick same_books_trans by blast
  from assms r obtain fn where fn: "dialFunc (cfg c) = Some fn"
    by (auto simp: dial_def r_def [symmetric] split: option.splits)
  obtain mc me where d: "fn dctx (network c) (target c) (tick env ctx w0) = (mc, me)" by (metis prod.collapse)
  have run: "(case (mc, me) of
        (_, Some e) \<Rightarrow>
          (case ctxError env ctx (tick env ctx w0) of
             (Some ce, w2) \<Rightarrow> Some (Inl (Errorf ''clamav: dial: %w'' [] [ce]), w2)
           | (None, w2) \<Rightarrow> Some (Inl (ConnectionError ''dial'' e), w2))
      | (None, None) \<Rightarrow>
          Some (Inl (ConnectionError ''dial'' (NewError ''dial function returned a nil connection'' [])), tick env ctx w0)
      | (Some cn, None) \<Rightarrow> Some (Inr cn, connected (tick env ctx w0))) = Some (x, w')"
    using assms r fn d by (simp add: dial_def r_def [symmetric] Let_def)
  show ?thesis
  proof (cases me)
    case None
    show ?thesis
    proof (cases mc)
      case None
      with run \<open>me = None\<close> b show ?thesis by auto
    next
      case (Some cn)
      with run None b show ?thesis by (auto intro!: exI [of _ "tick env ctx w0"])
    qed
  next
    case (Some e)
    obtain ce w2 where ce: "ctxError env ctx (tick env ctx w0) = (ce, w2)" by (metis prod.collapse)
    from ctxErrorD [OF ce] b t have "same_books w w2" "same_sent w w2" "wire_in w2 = wire_in w" "clock w < clock w2"
      by auto
    moreover from run Some ce have "w' = w2 \<and> (\<exists>e. x = Inl e)" by (auto split: option.splits)
    ultimately show ?thesis by auto
  qed
qed

lemma scanStream_cases [consumes 1, case_names refused ran]:
  assumes "scanStream env ctx c src w = Some (res, w')"
  obtains (refused) e where "dial env ctx c w = Some (Inl e, w')" "res = (zero_result, Some e)"
  | (ran) cn w1 w2 where "dial env ctx c w = Some (Inr cn, w1)"
      "scan_exchange env ctx c cn src (AfterFunc_abort w1) = Some (res, w2)" "w' = close_conn (stop_watch w2)"
  using assms by (auto simp: scanStream_def split: option.splits sum.splits prod.splits)

lemma select_slotD:
  assumes "select_slot env ctx cap w = Some (r, w')"
  shows "clock w < clock w' \<and> same_sent w w' \<and> opened w' = opened w \<and> closed w' = closed w \<and>
    files_open w' = files_open w \<and>
    (case r of None \<Rightarrow> slots_held w' = Suc (slots_held w) \<and> e_others env (clock w') + slots_held w < cap
     | Some e \<Rightarrow> slots_held w' = slots_held w \<and> ctx_done ctx w' \<and>
         e = Errorf ''clamav: waiting for scan slot: %w'' [] [ctx_reason ctx])"
  using assms
proof -
  let ?ok = "\<lambda>env ctx cap w (r, w'). clock w < clock w' \<and> same_sent w w' \<and> opened w' = opened w \<and>
    closed w' = closed w \<and> files_open w' = files_open w \<and>
    (case r of None \<Rightarrow> slots_held w' = Suc (slots_held w) \<and> e_others env (clock w') + slots_held w < cap
     | Some e \<Rightarrow> slots_held w' = slots_held w \<and> ctx_done ctx w' \<and>
         e = Errorf ''clamav: waiting for scan slot: %w'' [] [ctx_reason ctx])"
  have "?ok env ctx cap w (r, w')"
  proof (rule select_slot.raw_induct [where P = ?ok, OF _ assms])
    fix loop env ctx cap w and res :: "goerr option \<times> world"
    assume IH: "\<And>env ctx cap w res. loop env ctx cap w = Some res \<Longrightarrow> ?ok env ctx cap w res"
      and run: "(let w1 = tick env ctx w; free = e_others env (clock w1) + slots_held w1 < cap in
          if free \<and> (\<not> ctx_done ctx w1 \<or> e_select env (clock w1))
          then Some (None, w1\<lparr>slots_held := Suc (slots_held w1), slots_taken := Suc (slots_taken w1)\<rparr>)
          else if ctx_done ctx w1
          then Some (Some (Errorf ''clamav: waiting for scan slot: %w'' [] [ctx_reason ctx]), w1)
          else loop env ctx cap w1) = Some res"
    obtain r' v where res: "res = (r', v)" by (metis prod.collapse)
    show "?ok env ctx cap w res"
      using run IH [of env ctx cap "tick env ctx w" res]
      by (auto simp: res Let_def same_sent_def split: if_splits option.splits)
  qed
  then show ?thesis by simp
qed

lemma acquireScanSlotD:
  assumes "acquireScanSlot env ctx c w = Some (r, w')"
  shows "clock w < clock w' \<and> same_sent w w' \<and> opened w' = opened w \<and> closed w' = closed w \<and>
    files_open w' = files_open w \<and>
    (case r of None \<Rightarrow> slots_held w' = (if sem c = None then slots_held w else Suc (slots_held w))
     | Some e \<Rightarrow> slots_held w' = slots_held w \<and> ctx_done ctx w' \<and> (\<exists>f. e = Errorf f [] [ctx_reason ctx]))"
proof -
  obtain e w1 where c: "ctx_Err env ctx w = (e, w1)" by (metis prod.collapse)
  note d = ctx_ErrD [OF c]
  show ?thesis
  proof (cases "e = None \<and> sem c \<noteq> None")
    case True
    then obtain cap where "sem c = Some cap" by blast
    with True assms c have "select_slot env ctx cap w1 = Some (r, w')" by (simp add: acquireScanSlot_def)
    from select_slotD [OF this] d True show ?thesis by (auto simp: same_sent_def split: option.splits)
  next
    case False
    with assms c d show ?thesis by (auto simp: acquireScanSlot_def split: option.splits)
  qed
qed

lemma acquireScanSlot_returns:
  assumes "sem c = None \<or> ctx_done_at ctx \<noteq> None"
  shows "acquireScanSlot env ctx c w \<noteq> None"
  using assms select_slot_returns
  by (auto simp: acquireScanSlot_def split: prod.split option.split)

lemma Scan_returns:
  assumes "client_ok c" "sem c = None \<or> ctx_done_at ctx \<noteq> None" "\<forall>src. r = Some src \<longrightarrow> scan_ends c src"
  shows "\<exists>out w'. Scan env ctx c r w = Some (out, w')"
proof (cases r)
  case None
  then show ?thesis by (simp add: Scan_def)
next
  case (Some src)
  from acquireScanSlot_returns [OF assms(2)] obtain a w1 where a: "acquireScanSlot env ctx c w = Some (a, w1)"
    by (metis not_None_eq prod.collapse)
  from scanStream_returns [OF assms(1)] assms(3) Some obtain out w2 where
    "scanStream env ctx c src w1 = Some (out, w2)" by (metis not_None_eq prod.collapse)
  with Some a show ?thesis by (cases a) (auto simp: Scan_def)
qed

lemma acquireScanSlot_done:
  assumes "ctx_done ctx w"
  shows "acquireScanSlot env ctx c w = Some (Some (Errorf ''clamav: %w'' [] [ctx_reason ctx]), tick env ctx w)"
  using ctx_done_tick [OF assms, of env] by (simp add: acquireScanSlot_def ctx_Err_def Let_def)

text \<open>What the connections a client can be given have in common.\<close>

definition dials_to :: "client \<Rightarrow> (conn \<Rightarrow> bool) \<Rightarrow> bool" where
  "dials_to c P \<longleftrightarrow>
     (\<forall>fn dctx v cn. dialFunc (cfg c) = Some fn \<longrightarrow> fn dctx (network c) (target c) v = (Some cn, None) \<longrightarrow> P cn)"

lemma dial_dials_to:
  "dial env ctx c w = Some (Inr cn, w') \<Longrightarrow> dials_to c P \<Longrightarrow> P cn"
  unfolding dial_def dials_to_def Let_def by (force split: prod.splits option.splits)

lemma Scan_cases [consumes 1, case_names early ran]:
  assumes "Scan env ctx c r w = Some (res, w')"
  obtains (early) e where "res = (zero_result, Some e)" "same_sent w w'" "same_books w w'"
  | (ran) src cn w0 w1 w2 where "r = Some src" "dials_to c P \<Longrightarrow> P cn"
      "scan_exchange env ctx c cn src (AfterFunc_abort (connected w1)) = Some (res, w2)"
      "w' = releaseScanSlot c (close_conn (stop_watch w2))" "same_sent w w1"
      "acquireScanSlot env ctx c w = Some (None, w0)" "same_books w0 w1"
proof (cases r)
  case None
  with assms early show thesis by (auto simp: Scan_def)
next
  case (Some src)
  with assms obtain a w0 where a: "acquireScanSlot env ctx c w = Some (a, w0)"
    by (auto simp: Scan_def split: option.splits)
  note ad = acquireScanSlotD [OF a]
  show thesis
  proof (cases a)
    case (Some e)
    with assms a \<open>r = Some src\<close> ad early show thesis by (auto simp: Scan_def same_books_def)
  next
    case None
    with assms a Some obtain w3 where s: "scanStream env ctx c src w0 = Some (res, w3)" "w' = releaseScanSlot c w3"
      by (auto simp: Scan_def)
    from s(1) show thesis
    proof (cases rule: scanStream_cases)
      case (refused e)
      with dialD [OF refused(1)] ad None s(2) show thesis
        by (intro early) (auto simp: same_sent_def same_books_def releaseScanSlot_def split: if_splits)
    next
      case (ran cn w1 w2)
      from dialD [OF ran(1)] obtain v where v: "w1 = connected v" "same_books w0 v" "same_sent w0 v" by auto
      show thesis
      proof (rule that(2) [OF Some])
        show "dials_to c P \<Longrightarrow> P cn" using dial_dials_to [OF ran(1)] .
        show "scan_exchange env ctx c cn src (AfterFunc_abort (connected v)) = Some (res, w2)"
          using ran(2) v(1) by simp
        show "w' = releaseScanSlot c (close_conn (stop_watch w2))" using ran(3) s(2) by simp
        show "same_sent w v" using v(3) ad by (simp add: same_sent_def)
        show "acquireScanSlot env ctx c w = Some (None, w0)" using a None by simp
      qed (rule v(2))
    qed
  qed
qed

lemma deferred_frame [simp]:
  "same_sent w (releaseScanSlot c v) \<longleftrightarrow> same_sent w v" "same_sent w (close_conn v) \<longleftrightarrow> same_sent w v"
  "same_sent w (stop_watch v) \<longleftrightarrow> same_sent w v"
  "wire_out (releaseScanSlot c v) = wire_out v" "wire_out (close_conn v) = wire_out v" "wire_out (stop_watch v) = wire_out v"
  "wire_in (releaseScanSlot c v) = wire_in v" "wire_in (close_conn v) = wire_in v" "wire_in (stop_watch v) = wire_in v"
  "src_log (releaseScanSlot c v) = src_log v" "src_log (close_conn v) = src_log v" "src_log (stop_watch v) = src_log v"
  "src_eof (releaseScanSlot c v) = src_eof v" "src_eof (close_conn v) = src_eof v" "src_eof (stop_watch v) = src_eof v"
  "src_failed (releaseScanSlot c v) = src_failed v" "src_failed (close_conn v) = src_failed v"
  "src_failed (stop_watch v) = src_failed v"
  by (simp_all add: releaseScanSlot_def close_conn_def stop_watch_def same_sent_def)

lemma start_frame [simp]:
  "wire_out (AfterFunc_abort (connected v)) = []" "wire_in (AfterFunc_abort (connected v)) = []"
  "src_log (AfterFunc_abort (connected v)) = src_log v" "src_eof (AfterFunc_abort (connected v)) = src_eof v"
  "src_failed (AfterFunc_abort (connected v)) = src_failed v"
  by (simp_all add: AfterFunc_abort_def connected_def)

lemma scanStream_failed:
  assumes run: "scanStream env ctx c src w = Some (res, w')"
    and x: "src_failed w = None" "src_failed w' = Some x" "\<not> errors_Is x ProtoErrSizeLimitExceeded" "as_SourceAborted x = None"
  shows "source_blamed c x w w' res"
  using run
proof (cases rule: scanStream_cases)
  case (refused e)
  with dialD [OF refused(1)] x show ?thesis by (simp add: same_sent_def)
next
  case (ran cn w1 w2)
  from dialD [OF ran(1)] obtain v where v: "w1 = connected v" "same_sent w v" by auto
  have blamed: "source_blamed c x (AfterFunc_abort w1) w2 res"
    by (rule exchange_failed [OF ran(2) _ _ x(3,4)]) (use v ran(3) x(1,2) in \<open>simp_all add: same_sent_def\<close>)
  have "src_log (AfterFunc_abort w1) = src_log w" "src_log w2 = src_log w'"
    using v ran(3) by (simp_all add: same_sent_def)
  from source_blamed_cong [OF this] blamed show ?thesis by blast
qed

lemma Scan_failed:
  assumes run: "Scan env ctx c r w = Some (res, w')"
    and x: "src_failed w = None" "src_failed w' = Some x" "\<not> errors_Is x ProtoErrSizeLimitExceeded" "as_SourceAborted x = None"
  shows "source_blamed c x w w' res"
  using run
proof (cases rule: Scan_cases [where P = "\<lambda>_. True"])
  case (early e)
  with x show ?thesis by (simp add: same_sent_def)
next
  case (ran src cn w0 w1 w2)
  have blamed: "source_blamed c x (AfterFunc_abort (connected w1)) w2 res"
    by (rule exchange_failed [OF ran(3) _ _ x(3,4)]) (use ran(4,5) x(1,2) in \<open>simp_all add: same_sent_def\<close>)
  have "src_log (AfterFunc_abort (connected w1)) = src_log w" "src_log w2 = src_log w'"
    using ran(4,5) by (simp_all add: same_sent_def)
  from source_blamed_cong [OF this] blamed show ?thesis by blast
qed

lemma scanStream_books:
  assumes "scanStream env ctx c src w = Some (res, w')"
  shows "opened w' + closed w = opened w + closed w' \<and> opened w' \<le> Suc (opened w) \<and>
    slots_held w' = slots_held w \<and> files_open w' = files_open w"
  using assms
proof (cases rule: scanStream_cases)
  case (refused e)
  with dialD [OF refused(1)] show ?thesis by (simp add: same_books_def)
next
  case (ran cn w1 w2)
  from dialD [OF ran(1)] obtain v where "w1 = connected v" "same_books w v" by auto
  with scan_exchange_books [OF ran(2)] ran(3) show ?thesis
    by (auto simp: same_books_def close_conn_def stop_watch_def AfterFunc_abort_def connected_def)
qed

lemma Scan_books:
  assumes "Scan env ctx c r w = Some (res, w')"
  shows "opened w' + closed w = opened w + closed w' \<and> opened w' \<le> Suc (opened w) \<and>
    slots_held w' = slots_held w \<and> files_open w' = files_open w"
  using assms
proof (cases rule: Scan_cases [where P = "\<lambda>_. True"])
  case (early e)
  then show ?thesis by (simp add: same_books_def)
next
  case (ran src cn w0 w1 w2)
  from scan_exchange_books [OF ran(3)] acquireScanSlotD [OF ran(6)] ran(7) ran(4) show ?thesis
    by (auto simp: same_books_def releaseScanSlot_def close_conn_def stop_watch_def
        AfterFunc_abort_def connected_def)
qed

lemma ScanBytes_books:
  assumes "ScanBytes env ctx c data w = Some (res, w')"
  shows "opened w' + closed w = opened w + closed w' \<and> opened w' \<le> Suc (opened w) \<and>
    slots_held w' = slots_held w \<and> files_open w' = files_open w"
  using assms by (auto simp: ScanBytes_def split: if_splits dest: Scan_books)

lemma Scan_received:
  assumes "Scan env ctx c r w = Some ((res, e), w')" "opened w' \<noteq> opened w"
  shows "int (length (wire_in w')) \<le> received_limit MaxLineResponse \<and> int (length (Raw res)) \<le> MaxLineResponse"
  using assms(1)
proof (cases rule: Scan_cases [where P = "\<lambda>_. True"])
  case (early x)
  with assms(2) show ?thesis by (simp add: same_books_def)
next
  case (ran src cn w0 w1 w2)
  from exchange_received [OF ran(3)] exchange_raw [OF ran(3)] ran(4) show ?thesis by simp
qed

lemma scanStream_received:
  assumes "scanStream env ctx c src w = Some ((res, e), w')" "opened w' \<noteq> opened w"
  shows "int (length (wire_in w')) \<le> received_limit MaxLineResponse \<and> int (length (Raw res)) \<le> MaxLineResponse"
  using assms(1)
proof (cases rule: scanStream_cases)
  case (refused x)
  with dialD [OF refused(1)] assms(2) show ?thesis by (simp add: same_books_def)
next
  case (ran cn w1 w2)
  from dialD [OF ran(1)] obtain v where "w1 = connected v" by auto
  with exchange_received [OF ran(2)] exchange_raw [OF ran(2)] ran(3) show ?thesis by simp
qed

lemma ScanBytes_received:
  assumes "ScanBytes env ctx c data w = Some ((res, e), w')" "opened w' \<noteq> opened w"
  shows "int (length (wire_in w')) \<le> received_limit MaxLineResponse \<and> int (length (Raw res)) \<le> MaxLineResponse"
  using assms Scan_received by (auto simp: ScanBytes_def split: if_splits)

end
