(* ===== verification/FakeClamd.thy ===== *)
theory FakeClamd
  imports Client
begin

text \<open>
  The scriptable fake server (\<open>internal/clamdtest/fake.go\<close>): \<open>Request\<close>, \<open>Response\<close>, the
  script of a \<open>Fake\<close>, \<open>readCommand\<close>, \<open>readChunks\<close>, \<open>DefaultHandler\<close>,
  \<open>RespondWith\<close> and what \<open>handleConn\<close> writes.

  The fake's \<open>bufio.Reader\<close> is the list of bytes the client sends on the connection: the
  end of the list is the error its reads return when the client stops or the safety
  deadline passes. Waiting (\<open>Delay\<close>, \<open>DripInterval\<close>) only moves the bytes of the reply in
  time and is left out here, as is shutting the fake down during a connection; the theory
  \<open>FakeServer\<close> has both and shows that they do not change what is written.

  \<open>fake_conn\<close> is the client's end of a connection to the fake. It provides the interfaces
  \<open>flowing\<close> and \<open>byte_stream\<close>, which turns the lemmas of the two halves of the protocol
  into one round trip: the handler is given the bytes that were scanned, and the client
  the reply of the handler.
\<close>

subsection \<open>The script\<close>

record request =
  Command :: string
  Body :: bytes

record response =
  Data :: bytes
  Delay :: time
  Hang :: bool
  DripInterval :: time

type_synonym handler = "request \<Rightarrow> response"

definition data_response :: "bytes \<Rightarrow> response" where
  "data_response d = \<lparr>Data = d, Delay = 0, Hang = False, DripInterval = 0\<rparr>"

record fake =
  streamLimit :: int
  earlyReply :: "(int \<times> bytes) option"
  fake_handler :: handler

definition nul_terminated :: "string \<Rightarrow> bytes" where
  "nul_terminated s = bytes_of s @ [0]"

definition DefaultHandler :: handler where
  "DefaultHandler req =
     (if Command req = ''PING'' then data_response (nul_terminated ''PONG'')
      else if Command req = ''VERSION''
      then data_response (nul_terminated ''ClamAV 1.4.3/27700/Wed Jul  1 08:32:03 2026'')
      else if Command req = ''RELOAD'' then data_response (nul_terminated ''RELOADING'')
      else if Command req = ''STATS''
      then data_response (nul_terminated
        (''POOLS: 1'' @ [CHR 0x0A, CHR 0x0A] @ ''STATE: VALID PRIMARY'' @ [CHR 0x0A] @
         ''THREADS: live 1  idle 0 max 10 idle-timeout 30'' @ [CHR 0x0A] @ ''QUEUE: 0 items'' @ [CHR 0x0A] @ ''END''))
      else if Command req = ''INSTREAM'' then data_response (nul_terminated ''stream: OK'')
      else data_response (nul_terminated ''UNKNOWN COMMAND''))"

definition RespondWith :: "bytes \<Rightarrow> handler" where
  "RespondWith raw = (\<lambda>_. data_response raw)"

definition new_fake :: fake where
  "new_fake = \<lparr>streamLimit = 0, earlyReply = None, fake_handler = DefaultHandler\<rparr>"

definition SetHandler :: "handler \<Rightarrow> fake \<Rightarrow> fake" where
  "SetHandler h f = f\<lparr>fake_handler := h\<rparr>"

definition SetStreamLimit :: "int \<Rightarrow> fake \<Rightarrow> fake" where
  "SetStreamLimit n f = f\<lparr>streamLimit := n\<rparr>"

definition SetEarlyReply :: "int \<Rightarrow> bytes \<Rightarrow> fake \<Rightarrow> fake" where
  "SetEarlyReply afterBytes raw f = f\<lparr>earlyReply := Some (afterBytes, raw)\<rparr>"

subsection \<open>Reading a request\<close>

definition maxFakeChunk :: "32 word" where
  "maxFakeChunk = 64 * 2 ^ 20"

definition strip_framing :: "string \<Rightarrow> string" where
  "strip_framing cmd =
     (if length cmd > 1 \<and> (hd cmd = CHR ''z'' \<or> hd cmd = CHR ''n'') then tl cmd else cmd)"

fun readCommand_loop :: "bytes \<Rightarrow> bytes \<Rightarrow> goerr + (string \<times> bytes)" where
  "readCommand_loop buf [] = Inl IoEOF"
| "readCommand_loop buf (b # br) =
     (if b = 0 \<or> b = 10 then Inr (strip_framing (TrimSpace (string_of buf)), br)
      else if length buf > 128 then Inl (NewError ''command too long'' [])
      else readCommand_loop (buf @ [b]) br)"

definition readCommand :: "bytes \<Rightarrow> goerr + (string \<times> bytes)" where
  "readCommand br = readCommand_loop [] br"

text \<open>\<open>readChunks\<close>: the body; or not ok, with what was written before dropping the connection.\<close>

datatype chunks_result = Chunks bytes | Dropping bytes | Starving

function readChunks_loop :: "fake \<Rightarrow> bytes \<Rightarrow> bytes \<Rightarrow> chunks_result" where
  "readChunks_loop f body br =
     (if length br < 4 then Starving
      else let n = be_get32 (take 4 br); br' = drop 4 br in
        if n = 0 then Chunks body
        else if n > maxFakeChunk then Dropping []
        else if length br' < unat n then Starving
        else let body' = body @ take (unat n) br' in
          (case earlyReply f of
             Some (after, data) \<Rightarrow>
               if int (length body') > after then Dropping data
               else if streamLimit f > 0 \<and> int (length body') > streamLimit f
               then Dropping (nul_terminated ''INSTREAM size limit exceeded. ERROR'')
               else readChunks_loop f body' (drop (unat n) br')
           | None \<Rightarrow>
               if streamLimit f > 0 \<and> int (length body') > streamLimit f
               then Dropping (nul_terminated ''INSTREAM size limit exceeded. ERROR'')
               else readChunks_loop f body' (drop (unat n) br')))"
  by pat_completeness auto
termination
  by (relation "measure (\<lambda>(f, body, br). length br)") auto

declare readChunks_loop.simps [simp del]

definition readChunks :: "fake \<Rightarrow> bytes \<Rightarrow> chunks_result" where
  "readChunks f br = readChunks_loop f [] br"

text \<open>
  \<open>handleConn\<close>: still waiting for the client, holding the connection open (\<open>Hang\<close>), or
  closed after writing some bytes.
\<close>

datatype served = Waiting | Holding | Closed bytes

definition respond :: "fake \<Rightarrow> request \<Rightarrow> served" where
  "respond f req = (let resp = fake_handler f req in if Hang resp then Holding else Closed (Data resp))"

definition handleConn :: "fake \<Rightarrow> bytes \<Rightarrow> served" where
  "handleConn f br =
     (case readCommand br of
        Inl e \<Rightarrow> if e = IoEOF then Waiting else Closed []
      | Inr (cmd, br') \<Rightarrow>
          if cmd = ''INSTREAM''
          then (case readChunks f br' of
                  Starving \<Rightarrow> Waiting
                | Dropping out \<Rightarrow> Closed out
                | Chunks body \<Rightarrow> respond f \<lparr>Command = cmd, Body = body\<rparr>)
          else respond f \<lparr>Command = cmd, Body = []\<rparr>)"

subsection \<open>The client's end of a connection to the fake\<close>

text \<open>
  What has been sent decides what can be read. \<open>refuse\<close> says whether writes fail once the
  fake has closed, or are still taken by the socket's buffer; \<open>seg\<close> how the reply is cut into
  segments (a read at tick \<open>i\<close> gets at most \<open>Suc (seg i)\<close> bytes). A read with nothing to come
  times out while the connection is open and is at its end when it is closed.
\<close>

definition fake_output :: "fake \<Rightarrow> bytes \<Rightarrow> bytes" where
  "fake_output f sent = (case handleConn f sent of Closed out \<Rightarrow> out | _ \<Rightarrow> [])"

definition fake_closed :: "fake \<Rightarrow> bytes \<Rightarrow> bool" where
  "fake_closed f sent = (case handleConn f sent of Closed _ \<Rightarrow> True | _ \<Rightarrow> False)"

definition fake_pending :: "fake \<Rightarrow> world \<Rightarrow> bytes" where
  "fake_pending f w = drop (length (wire_in w)) (fake_output f (wire_out w))"

definition fake_conn :: "bool \<Rightarrow> (nat \<Rightarrow> nat) \<Rightarrow> fake \<Rightarrow> conn" where
  "fake_conn refuse seg f =
     \<lparr>conn_write = (\<lambda>w p. if refuse \<and> fake_closed f (wire_out w) then (0, Some (Foreign ''broken pipe'' []))
        else (int (length p), None)),
      conn_read = (\<lambda>w k.
        if fake_pending f w \<noteq> [] then (take (min k (Suc (seg (clock w)))) (fake_pending f w), None)
        else if fake_closed f (wire_out w) then ([], Some IoEOF)
        else ([], Some OsErrDeadlineExceeded)),
      conn_set_deadline = (\<lambda>_ _. None)\<rparr>"

definition fake_dial :: "bool \<Rightarrow> (nat \<Rightarrow> nat) \<Rightarrow> fake \<Rightarrow> dial_func" where
  "fake_dial refuse seg f = (\<lambda>_ _ _ _. (Some (fake_conn refuse seg f), None))"

text \<open>A scheduler under which nothing else happens.\<close>

definition drip_env :: env where
  "drip_env = \<lparr>e_now = (\<lambda>_. 0), e_fire = (\<lambda>_. None), e_others = (\<lambda>_. 0), e_select = (\<lambda>_. True), e_timer = (\<lambda>_. None)\<rparr>"

lemma fake_conn_simps [simp]:
  "conn_write (fake_conn refuse seg f) w p =
     (if refuse \<and> fake_closed f (wire_out w) then (0, Some (Foreign ''broken pipe'' [])) else (int (length p), None))"
  "conn_read (fake_conn refuse seg f) w k =
     (if fake_pending f w \<noteq> [] then (take (min k (Suc (seg (clock w)))) (fake_pending f w), None)
      else if fake_closed f (wire_out w) then ([], Some IoEOF) else ([], Some OsErrDeadlineExceeded))"
  "conn_set_deadline (fake_conn refuse seg f) w t = None"
  by (simp_all add: fake_conn_def)

subsection \<open>Without cancellation every step goes through\<close>

lemma ctx_never [simp]: "ctx_done_at ctx = None \<Longrightarrow> \<not> ctx_done ctx w"
  by (simp add: ctx_done_def)

lemma refresh_live:
  assumes "ctx_done_at ctx = None"
  shows "\<exists>w'. refresh env ctx (fake_conn refuse seg f) d w = (None, w')"
  using assms by (simp add: refresh_def ctx_Err_def time_Now_def set_deadline_def Let_def)

lemma dc_write_live:
  assumes "ctx_done_at ctx = None" "\<not> (refuse \<and> fake_closed f (wire_out w))"
  shows "\<exists>w'. dc_write env ctx (fake_conn refuse seg f) d w p = ((int (length p), None), w') \<and>
    wire_out w' = wire_out w @ p \<and> wire_in w' = wire_in w \<and> src_log w' = src_log w"
proof -
  from refresh_live [OF assms(1)] obtain w1 where
    r: "refresh env ctx (fake_conn refuse seg f) d w = (None, w1)" by blast
  from refresh_frame [OF r] assms(2) show ?thesis
    by (simp add: dc_write_def r Let_def)
qed

interpretation fake_stream: byte_stream "dc_read env ctx (fake_conn refuse seg f) d" "fake_pending f"
  "\<lambda>w. ctx_done_at ctx = None \<and> fake_closed f (wire_out w)"
  for env ctx refuse seg f d
proof unfold_locales
  fix w :: world and k :: nat
  assume live: "ctx_done_at ctx = None \<and> fake_closed f (wire_out w)" and k: "0 < k"
  from refresh_live [of ctx] live obtain w1 where
    r: "refresh env ctx (fake_conn refuse seg f) d w = (None, w1)" by blast
  note fr = refresh_frame [OF r]
  let ?p = "fake_pending f w"
  have same: "fake_pending f (tick env ctx w1) = ?p" using fr by (simp add: fake_pending_def)
  show "\<exists>m e w'. dc_read env ctx (fake_conn refuse seg f) d w k = ((take m ?p, e), w') \<and> m \<le> k \<and>
      m \<le> length ?p \<and> fake_pending f w' = drop m ?p \<and>
      (ctx_done_at ctx = None \<and> fake_closed f (wire_out w')) \<and>
      (e = None \<and> 0 < m \<or> e = Some IoEOF \<and> fake_pending f w' = [])"
  proof (cases "?p = []")
    case True
    with r fr live same show ?thesis
      by (intro exI [of _ 0]) (simp add: dc_read_def Let_def fake_pending_def)
  next
    case False
    with r fr live same k show ?thesis
      by (intro exI [of _ "min (min k (Suc (seg (clock (tick env ctx w1))))) (length ?p)"])
        (simp add: dc_read_def Let_def fake_pending_def min_def add.commute)
  qed
qed

text \<open>The bytes of \<open>ScanBytes\<close>, from where its reader starts in the source's log.\<close>

abbreviation bytes_left :: "nat \<Rightarrow> bytes \<Rightarrow> world \<Rightarrow> bytes" where
  "bytes_left start data w \<equiv> drop (length (src_log w) - start) data"

interpretation fake_flow: flowing "dc_write env ctx (fake_conn False seg f) d" wire_out
  "ctx_read env ctx (bytes_reader start data)" src_log src_eof
  "bytes_left start data" "\<lambda>w. ctx_done_at ctx = None \<and> start \<le> length (src_log w)"
  for env ctx seg f d start data
proof unfold_locales
  fix w :: world and k :: nat
  assume good: "ctx_done_at ctx = None \<and> start \<le> length (src_log w)" and k: "0 < k"
  let ?rest = "bytes_left start data w"
  show "\<exists>m e w'. ctx_read env ctx (bytes_reader start data) w k = ((int m, take m ?rest, e), w') \<and> m \<le> k \<and>
      m \<le> length ?rest \<and> bytes_left start data w' = drop m ?rest \<and>
      (ctx_done_at ctx = None \<and> start \<le> length (src_log w')) \<and>
      (e = None \<and> 0 < m \<or> e = Some IoEOF \<and> bytes_left start data w' = [])"
  proof (cases "?rest = []")
    case True
    with good show ?thesis
      by (intro exI [of _ 0])
        (simp add: ctx_read_def ctx_Err_def bytes_reader_def src_count_def src_bytes_def Let_def)
  next
    case False
    have len: "length (src_log w) + m - start = m + (length (src_log w) - start)" for m
      using good by simp
    from False good k show ?thesis
      by (intro exI [of _ "min k (length ?rest)"])
        (auto simp add: ctx_read_def ctx_Err_def bytes_reader_def src_count_def src_bytes_def Let_def
          len min_def)
  qed
next
  fix w :: world and bs :: bytes
  assume good: "ctx_done_at ctx = None \<and> start \<le> length (src_log w)"
  then show "\<exists>w'. dc_write env ctx (fake_conn False seg f) d w bs = ((int (length bs), None), w') \<and>
      (ctx_done_at ctx = None \<and> start \<le> length (src_log w')) \<and>
      bytes_left start data w' = bytes_left start data w"
    using dc_write_live [of ctx False f w env seg d bs] by auto
qed

subsection \<open>What the fake reads is what was sent\<close>

lemma readCommand_loop_text:
  assumes "CHR 0x00 \<notin> set s" "CHR 0x0A \<notin> set s" "length buf + length s \<le> 129"
  shows "readCommand_loop buf (bytes_of s @ 0 # rest) =
    Inr (strip_framing (TrimSpace (string_of buf @ s)), rest)"
  using assms
proof (induction s arbitrary: buf)
  case (Cons c s)
  have "byte_of c \<noteq> 10"
  proof
    assume "byte_of c = 10"
    moreover have "byte_of (CHR 0x0A) = 10" by (simp add: byte_of_def)
    ultimately have "c = CHR 0x0A" by (metis byte_of_eq_iff)
    with Cons.prems show False by simp
  qed
  with Cons show ?case by auto
qed simp

lemma readCommand_EncodeCommand:
  assumes "name \<noteq> []" "CHR 0x00 \<notin> set name" "CHR 0x0A \<notin> set name" "length name \<le> 128" "graphic (last name)"
  shows "readCommand (EncodeCommand name @ rest) = Inr (name, rest)"
proof -
  have "readCommand_loop [] (bytes_of (CHR ''z'' # name) @ 0 # rest) =
      Inr (strip_framing (TrimSpace (string_of [] @ CHR ''z'' # name)), rest)"
    by (rule readCommand_loop_text) (use assms in auto)
  moreover have "TrimSpace (CHR ''z'' # name) = CHR ''z'' # name"
    by (rule TrimSpace_id) (use assms in \<open>auto simp: graphic_def\<close>)
  ultimately show ?thesis
    using assms(1) by (simp add: readCommand_def EncodeCommand_def strip_framing_def)
qed

lemma be_get32_take [simp]: "be_get32 (take 4 br) = be_get32 br"
  by (simp add: be_get32_def)

text \<open>The fake's decoder agrees with the contract of the framing, on any bytes.\<close>

lemma readChunks_loop_decodes:
  "readChunks_loop f body br = Chunks all \<Longrightarrow> \<exists>more rest. decode_frames br = Some (more, rest) \<and> all = body @ more"
proof (induction f body br rule: readChunks_loop.induct)
  case (1 f body br)
  let ?n = "be_get32 br" and ?br = "drop 4 br"
  show ?case
  proof (cases "length br < 4 \<or> ?n = 0")
    case True
    with "1.prems" show ?thesis
      by (auto simp: readChunks_loop.simps [of f body br] decode_frames.simps [of br] Let_def unat_eq_0)
  next
    case False
    let ?b = "body @ take (unat ?n) ?br"
    from False "1.prems" have len: "unat ?n \<le> length ?br"
      and rec: "readChunks_loop f ?b (drop (unat ?n) ?br) = Chunks all"
      by (auto simp: readChunks_loop.simps [of f body br] Let_def split: if_splits option.splits prod.splits)
    have "\<exists>more rest. decode_frames (drop (unat ?n) ?br) = Some (more, rest) \<and> all = ?b @ more"
      using "1.IH" [OF _ refl refl] rec False "1.prems"
      by (auto simp: readChunks_loop.simps [of f body br] Let_def split: if_splits option.splits prod.splits)
    with False len show ?thesis
      by (auto simp: decode_frames.simps [of br] Let_def unat_eq_0)
  qed
qed

text \<open>Within the script's thresholds the whole stream is the handler's body.\<close>

definition unhindered :: "fake \<Rightarrow> nat \<Rightarrow> bool" where
  "unhindered f n \<longleftrightarrow> (streamLimit f > 0 \<longrightarrow> int n \<le> streamLimit f) \<and>
     (case earlyReply f of None \<Rightarrow> True | Some (after, _) \<Rightarrow> int n \<le> after)"

lemma unhindered_less: "unhindered f n \<Longrightarrow> m \<le> n \<Longrightarrow> unhindered f m"
  by (auto simp: unhindered_def split: option.splits)

lemma readChunks_step:
  assumes "chunk_ok K p" "K \<le> 2 ^ 26" "unhindered f (length (body @ p))"
  shows "readChunks_loop f body (chunk_frame p @ rest) = readChunks_loop f (body @ p) rest"
proof -
  have len: "length p < 2 ^ 32" "0 < length p" "length p \<le> 2 ^ 26" using assms by (auto simp: chunk_ok_def)
  then have u: "unat (word_of_nat (length p) :: 32 word) = length p"
    by (simp add: unat_of_nat)
  have "unat maxFakeChunk = 2 ^ 26" by (simp add: maxFakeChunk_def)
  then have "\<not> maxFakeChunk < word_of_nat (length p)" "(word_of_nat (length p) :: 32 word) \<noteq> 0"
    using len u by (auto simp: word_less_nat_alt simp flip: unat_eq_0)
  then show ?thesis
    using assms(3) u len
    by (subst readChunks_loop.simps)
      (auto simp: chunk_frame_def Let_def unhindered_def split: option.splits)
qed

lemma readChunks_frames:
  assumes "\<forall>c \<in> set cs. chunk_ok K c" "K \<le> 2 ^ 26" "unhindered f (length (body @ concat cs))"
  shows "readChunks_loop f body (frames cs @ rest) = readChunks_loop f (body @ concat cs) rest"
  using assms
proof (induction cs arbitrary: body)
  case (Cons p cs)
  have "unhindered f (length (body @ p))"
    using Cons.prems(3) by (rule unhindered_less) simp
  with readChunks_step [of K p f body "frames cs @ rest"] Cons.IH [of "body @ p"] Cons.prems
  show ?case by (simp add: add.assoc)
qed simp

lemma readChunks_terminator: "readChunks_loop f body (terminator @ rest) = Chunks body"
  by (subst readChunks_loop.simps) (simp add: terminator_def Let_def)

lemma handleConn_INSTREAM:
  assumes "\<forall>c \<in> set cs. chunk_ok K c" "K \<le> 2 ^ 26" "unhindered f (length (concat cs))"
  shows "handleConn f (EncodeCommand ''INSTREAM'' @ frames cs @ terminator) =
    respond f \<lparr>Command = ''INSTREAM'', Body = concat cs\<rparr>"
proof -
  have "readCommand (EncodeCommand ''INSTREAM'' @ frames cs @ terminator) = Inr (''INSTREAM'', frames cs @ terminator)"
    by (rule readCommand_EncodeCommand) (auto simp: graphic_def)
  moreover have "readChunks f (frames cs @ terminator) = Chunks (concat cs)"
    using readChunks_frames [OF assms(1,2), of f "[]" terminator] assms(3)
      readChunks_terminator [of f "concat cs" "[]"]
    by (simp add: readChunks_def)
  ultimately show ?thesis by (simp add: handleConn_def)
qed

lemma handleConn_command:
  assumes "name \<noteq> []" "CHR 0x00 \<notin> set name" "CHR 0x0A \<notin> set name" "length name \<le> 128"
    "graphic (last name)" "name \<noteq> ''INSTREAM''"
  shows "handleConn f (EncodeCommand name) = respond f \<lparr>Command = name, Body = []\<rparr>"
  using readCommand_EncodeCommand [OF assms(1-5), of "[]"] assms(6) by (simp add: handleConn_def)

subsection \<open>Properties\<close>

text \<open>
  C25: the fake's decoder refines the framing. Whatever bytes arrive and whatever the script says,
  a body handed to the handler is the payload of the finished stream they encode.
\<close>

theorem fake_decodes_framing:
  assumes "readChunks f br = Chunks body"
  shows "\<exists>rest. decode_frames br = Some (body, rest)"
  using readChunks_loop_decodes [of f "[]" br body] assms by (auto simp: readChunks_def)

theorem fake_decodes_framing_witness:
  "\<exists>rest. decode_frames (frames [[1, 2], [3]] @ terminator @ [9]) = Some ([1, 2, 3], rest)"
proof -
  have "readChunks_loop new_fake [] (frames [[1, 2], [3]] @ (terminator @ [9])) =
      readChunks_loop new_fake ([] @ concat [[1, 2], [3]]) (terminator @ [9])"
    by (rule readChunks_frames [where K = 2]) (simp_all add: chunk_ok_def unhindered_def new_fake_def)
  then have "readChunks new_fake (frames [[1, 2], [3]] @ terminator @ [9]) = Chunks [1, 2, 3]"
    by (simp add: readChunks_def readChunks_terminator)
  then show ?thesis by (rule fake_decodes_framing)
qed

text \<open>
  C19: how a reply is cut into segments does not matter. For every segmentation and every moment
  at which the client starts reading, the line it reads is the line of the bytes the server wrote.
\<close>

theorem reply_fragmentation:
  assumes "ctx_done_at ctx = None" "handleConn f (wire_out w) = Closed out" "wire_in w = []"
  shows "fst (ReadLine (dc_read env ctx (fake_conn refuse seg f) d) mx new_bufio w) = line_of mx [] out \<and>
    fst (ReadBlock (dc_read env ctx (fake_conn refuse seg f) d) mx new_bufio w) = block_of mx [] out"
  using fake_stream.ReadLine_stream [of ctx f w env refuse seg d mx]
    fake_stream.ReadBlock_stream [of ctx f w env refuse seg d mx] assms
  by (simp add: fake_closed_def fake_pending_def fake_output_def)

theorem reply_fragmentation_witness:
  "fst (ReadLine (dc_read drip_env background
      (fake_conn True (\<lambda>_. 0) new_fake) 5) MaxLineResponse new_bufio
      (fresh_world\<lparr>wire_out := EncodeCommand ''PING''\<rparr>)) = (''PONG'', True, None)"
proof -
  have "handleConn new_fake (EncodeCommand ''PING'') = respond new_fake \<lparr>Command = ''PING'', Body = []\<rparr>"
    by (rule handleConn_command) (simp_all add: graphic_def)
  then have h: "handleConn new_fake (EncodeCommand ''PING'') = Closed (nul_terminated ''PONG'')"
    by (simp add: respond_def new_fake_def DefaultHandler_def data_response_def)
  have "line_of MaxLineResponse [] (bytes_of ''PONG'' @ 0 # []) = (''PONG'', True, None)"
    by (rule line_of_reply) (auto simp: eol_def MaxLineResponse_def)
  then have "line_of MaxLineResponse [] (nul_terminated ''PONG'') = (''PONG'', True, None)"
    by (simp add: nul_terminated_def)
  with reply_fragmentation [of "background" new_fake
      "fresh_world\<lparr>wire_out := EncodeCommand ''PING''\<rparr>" "nul_terminated ''PONG''" drip_env True "\<lambda>_. 0" 5 MaxLineResponse] h
  show ?thesis by (simp add: fresh_world_def)
qed

text \<open>
  A reply is bounded. A server that sends more than the limit without a NUL is cut off with
  \<open>ErrResponseTooLarge\<close>, and no part of its reply is returned.
\<close>

lemma reply_bounded:
  assumes "ctx_done_at ctx = None" "handleConn f (wire_out w) = Closed (content @ rest)" "wire_in w = []"
    and "0 \<notin> set content" "0 \<le> mx" "mx < int (length content)"
  shows "fst (ReadLine (dc_read env ctx (fake_conn refuse seg f) d) mx new_bufio w) =
    ([], False, Some ErrResponseTooLarge)"
proof -
  have "line_of mx [] (content @ rest) = ([], False, Some ErrResponseTooLarge)"
    by (rule line_of_too_long) (use assms in simp_all)
  then show ?thesis
    using fake_stream.ReadLine_stream [of ctx f w env refuse seg d mx] assms(1-3)
    by (simp add: fake_closed_def fake_pending_def fake_output_def)
qed

text \<open>
  C21: the optimised path and the reference agree. Over a healthy connection, \<open>StreamAll\<close> reads the
  whole source, in whatever pieces it comes, and writes the reference encoding: the data cut into
  chunks of the clamped size and the terminator; decoding it gives the data back.
\<close>

theorem stream_encoding:
  assumes "ctx_done_at ctx = None" "start = length (src_log w)"
    and "0 \<le> mx \<longrightarrow> int (length data) \<le> mx" "int (length data) \<le> max_int64"
  shows "\<exists>w' sent. StreamAll (dc_write env ctx (fake_conn False seg f) d) (ctx_read env ctx (bytes_reader start data))
      csz mx w = Some ((int (length data), None), w') \<and> wire_out w' = wire_out w @ sent \<and>
    sent = frames (chunks_of (nat (clamp_chunk csz)) data) @ terminator \<and>
    decode_frames sent = Some (data, [])"
proof -
  have rest: "bytes_left start data w = data" using assms(2) by simp
  have "\<exists>w'. StreamAll (dc_write env ctx (fake_conn False seg f) d) (ctx_read env ctx (bytes_reader start data))
        csz mx w = Some ((int (length (bytes_left start data w)), None), w') \<and>
      (ctx_done_at ctx = None \<and> start \<le> length (src_log w')) \<and> bytes_left start data w' = [] \<and>
      wire_out w' = wire_out w @ frames (chunks_of (nat (clamp_chunk csz)) (bytes_left start data w)) @ terminator"
    by (rule fake_flow.StreamAll_flows) (use assms rest in simp_all)
  with rest decode_chunks [of csz data "[]"] show ?thesis by auto
qed

theorem stream_encoding_witness:
  "\<exists>w'. StreamAll (dc_write drip_env background
        (fake_conn False (\<lambda>_. 0) new_fake) 5)
      (ctx_read drip_env background (bytes_reader 0 [1, 2, 3]))
      2 10 fresh_world = Some ((3, None), w')"
  using stream_encoding [of "background" 0 fresh_world 10
      "[1, 2, 3]" drip_env "\<lambda>_. 0" new_fake 5 2]
  by (auto simp: fresh_world_def)

end
