(* ===== verification/EndToEnd.thy ===== *)
theory EndToEnd
  imports ScanWire FakeClamd
begin

text \<open>
  The client against the fake server: the two halves of the protocol meet. A scan under a
  context that stays live hands the server exactly the bytes that were given to
  \<open>ScanBytes\<close> and returns what the server's reply means.
\<close>

subsection \<open>One exchange\<close>

lemma fake_exchange:
  assumes live: "ctx_done_at ctx = None" and new: "wire_out w = []" "wire_in w = []"
    and start: "start = length (src_log w)"
    and limit: "maxStreamSize (cfg c) = NoSizeLimit \<or> int (length data) \<le> maxStreamSize (cfg c)"
    and size: "int (length data) \<le> max_int64"
    and script: "unhindered f (length data)"
    and reply: "respond f \<lparr>Command = ''INSTREAM'', Body = data\<rparr> = Closed out"
    and line: "line_of MaxLineResponse [] out = (line, t, None)"
  shows "\<exists>w'. scan_exchange env ctx c (fake_conn False seg f) (bytes_reader start data) w =
      Some (resultFromLine line t, w') \<and>
      wire_out w' = EncodeCommand ''INSTREAM'' @ frames (chunks_of (nat (clamp_chunk (chunkSize (cfg c)))) data) @ terminator"
proof -
  let ?d = "ioTimeout (cfg c)" and ?cn = "fake_conn False seg f" and ?K = "nat (clamp_chunk (chunkSize (cfg c)))"
  from dc_write_live [OF live, of False f w env seg ?d "EncodeCommand ''INSTREAM''"] new obtain w1 where
    w1: "dc_write env ctx ?cn ?d w (EncodeCommand ''INSTREAM'') = ((int (length (EncodeCommand ''INSTREAM'')), None), w1)"
      "wire_out w1 = EncodeCommand ''INSTREAM''" "wire_in w1 = []" "src_log w1 = src_log w" by auto
  have rest: "bytes_left start data w1 = data" using start w1(4) by simp
  have "\<exists>w'. StreamAll (dc_write env ctx ?cn ?d) (ctx_read env ctx (bytes_reader start data))
        (chunkSize (cfg c)) (maxStreamSize (cfg c)) w1 = Some ((int (length (bytes_left start data w1)), None), w') \<and>
      (ctx_done_at ctx = None \<and> start \<le> length (src_log w')) \<and> bytes_left start data w' = [] \<and>
      wire_out w' = wire_out w1 @ frames (chunks_of ?K (bytes_left start data w1)) @ terminator"
    by (rule fake_flow.StreamAll_flows) (use live start w1(4) limit size in \<open>auto simp: NoSizeLimit_def\<close>)
  then obtain w2 where w2:
      "StreamAll (dc_write env ctx ?cn ?d) (ctx_read env ctx (bytes_reader start data))
        (chunkSize (cfg c)) (maxStreamSize (cfg c)) w1 = Some ((int (length data), None), w2)"
      "wire_out w2 = EncodeCommand ''INSTREAM'' @ frames (chunks_of ?K data) @ terminator"
    using rest w1(2) by auto
  have K: "0 < ?K" "?K \<le> 2 ^ 26" using clamp_chunk_range [of "chunkSize (cfg c)"] by (auto simp: MaxChunkSize_def)
  have "handleConn f (wire_out w2) = Closed out"
    using handleConn_INSTREAM [of "chunks_of ?K data" ?K f] chunks_of_ok K concat_chunks_of [OF K(1), of data]
      script reply by (simp add: w2(2))
  then have closed: "fake_closed f (wire_out w2)" and out: "fake_pending f w2 = out"
    using StreamAll_wire_in [OF w2(1)] w1(3) by (simp_all add: fake_closed_def fake_pending_def fake_output_def)
  obtain r b w3 where rl: "ReadLine (dc_read env ctx ?cn ?d) MaxLineResponse new_bufio w2 = (r, b, w3)"
    by (metis prod.collapse)
  with fake_stream.ReadLine_stream [of ctx f w2 env False seg ?d MaxLineResponse] live closed out line
  have r: "r = (line, t, None)" by simp
  have same: "same_sent w2 w3" using ReadLine_same_sent [OF rl same_sent_refl] .
  with same w1 w2 rl r show ?thesis
    by (intro exI [of _ w3]) (simp add: scan_exchange_def same_sent_def)
qed

subsection \<open>Whole calls\<close>

text \<open>A slot is free when the call asks for it, or no slots are needed.\<close>

definition slot_free :: "env \<Rightarrow> client \<Rightarrow> world \<Rightarrow> bool" where
  "slot_free env c w = (case sem c of None \<Rightarrow> True | Some cap \<Rightarrow> e_others env (clock w + 2) + slots_held w < cap)"

lemma acquire_free:
  assumes "ctx_done_at ctx = None" "slot_free env c w"
  shows "\<exists>w'. acquireScanSlot env ctx c w = Some (None, w') \<and> src_log w' = src_log w"
proof (cases "sem c")
  case None
  with assms show ?thesis by (simp add: acquireScanSlot_def ctx_Err_def Let_def)
next
  case (Some cap)
  let ?w = "tick env ctx w"
  have "e_others env (clock (tick env ctx ?w)) + slots_held (tick env ctx ?w) < cap"
    using assms(2) Some by (simp add: slot_free_def)
  then have "select_slot env ctx cap ?w =
      Some (None, (tick env ctx ?w)\<lparr>slots_held := Suc (slots_held (tick env ctx ?w)),
        slots_taken := Suc (slots_taken (tick env ctx ?w))\<rparr>)"
    using assms(1) by (subst select_slot.simps) (simp add: Let_def)
  with assms(1) Some show ?thesis by (simp add: acquireScanSlot_def ctx_Err_def Let_def)
qed

lemma dial_fake:
  assumes "dialFunc (cfg c) = Some (fake_dial refuse seg f)"
  shows "\<exists>w'. dial env ctx c w = Some (Inr (fake_conn refuse seg f), connected w') \<and> src_log w' = src_log w"
  using assms
  by (auto simp: dial_def fake_dial_def WithTimeout_def time_Now_def Let_def split: option.splits)

lemma fake_ScanBytes:
  assumes live: "ctx_done_at ctx = None" and slot: "slot_free env c w"
    and to: "dialFunc (cfg c) = Some (fake_dial False seg f)"
    and limit: "maxStreamSize (cfg c) = NoSizeLimit \<or> int (length data) \<le> maxStreamSize (cfg c)"
    and size: "int (length data) \<le> max_int64"
    and script: "unhindered f (length data)"
    and reply: "respond f \<lparr>Command = ''INSTREAM'', Body = data\<rparr> = Closed out"
    and line: "line_of MaxLineResponse [] out = (line, t, None)"
  shows "\<exists>w'. ScanBytes env ctx c data w = Some (resultFromLine line t, w') \<and>
      wire_out w' = EncodeCommand ''INSTREAM'' @ frames (chunks_of (nat (clamp_chunk (chunkSize (cfg c)))) data) @ terminator"
proof -
  from acquire_free [OF live slot] obtain w1 where w1: "acquireScanSlot env ctx c w = Some (None, w1)"
    "src_log w1 = src_log w" by blast
  from dial_fake [OF to, of env ctx w1] obtain w2 where w2:
    "dial env ctx c w1 = Some (Inr (fake_conn False seg f), connected w2)" "src_log w2 = src_log w1" by blast
  have "length (src_log w) = length (src_log (AfterFunc_abort (connected w2)))" using w1(2) w2(2) by simp
  from fake_exchange [OF live start_frame(1,2) this limit size script reply line, of env] obtain w3 where
    "scan_exchange env ctx c (fake_conn False seg f) (bytes_reader (length (src_log w)) data)
       (AfterFunc_abort (connected w2)) = Some (resultFromLine line t, w3)"
    "wire_out w3 = EncodeCommand ''INSTREAM'' @ frames (chunks_of (nat (clamp_chunk (chunkSize (cfg c)))) data) @ terminator"
    by blast
  with w1(1) w2(1) limit show ?thesis
    by (auto simp: ScanBytes_def Scan_def scanStream_def)
qed

end
