(* ===== verification/Recovery.thy ===== *)
theory Recovery
  imports EndToEnd
begin

text \<open>
  A server that replies in the middle of the stream and closes the connection, as clamd
  does when \<open>StreamMaxLength\<close> is passed or a verdict is reached early: the client's next
  write fails, and \<open>recoverStreamError\<close> finds the reply that explains it.
\<close>

subsection \<open>The fake's thresholds\<close>

definition size_limit_reply :: bytes where
  "size_limit_reply = nul_terminated ''INSTREAM size limit exceeded. ERROR''"

text \<open>What the fake writes, if anything, once the body has \<open>n\<close> bytes.\<close>

definition crossing :: "fake \<Rightarrow> nat \<Rightarrow> bytes option" where
  "crossing f n =
     (let limited = (if streamLimit f > 0 \<and> int n > streamLimit f then Some size_limit_reply else None) in
      (case earlyReply f of
         Some (after, d) \<Rightarrow> if int n > after then Some d else limited
       | None \<Rightarrow> limited))"

lemma crossing_None: "crossing f n = None \<longleftrightarrow> unhindered f n"
  by (auto simp: crossing_def unhindered_def Let_def split: option.splits)

lemma readChunks_crossing:
  assumes "chunk_ok K p" "K \<le> 2 ^ 26" "crossing f (length (body @ p)) = Some d"
  shows "readChunks_loop f body (chunk_frame p @ rest) = Dropping d"
proof -
  have len: "length p < 2 ^ 32" "0 < length p" "length p \<le> 2 ^ 26" using assms by (auto simp: chunk_ok_def)
  then have u: "unat (word_of_nat (length p) :: 32 word) = length p" by (simp add: unat_of_nat)
  have "unat maxFakeChunk = 2 ^ 26" by (simp add: maxFakeChunk_def)
  then have "\<not> maxFakeChunk < word_of_nat (length p)" "(word_of_nat (length p) :: 32 word) \<noteq> 0"
    using len u by (auto simp: word_less_nat_alt simp flip: unat_eq_0)
  then show ?thesis
    using assms(3) u len
    by (subst readChunks_loop.simps)
      (auto simp: chunk_frame_def Let_def crossing_def size_limit_reply_def split: option.splits if_splits)
qed

lemma readCommand_INSTREAM: "readCommand (EncodeCommand ''INSTREAM'' @ rest) = Inr (''INSTREAM'', rest)"
  by (rule readCommand_EncodeCommand) (auto simp: graphic_def)

lemma handleConn_waiting:
  assumes "\<forall>c \<in> set cs. chunk_ok K c" "K \<le> 2 ^ 26" "crossing f (length (concat cs)) = None"
  shows "handleConn f (EncodeCommand ''INSTREAM'' @ frames cs) = Waiting"
proof -
  have "readChunks_loop f [] (frames cs @ []) = readChunks_loop f ([] @ concat cs) []"
    by (rule readChunks_frames [OF assms(1,2)]) (use assms(3) in \<open>simp add: crossing_None\<close>)
  then have "readChunks f (frames cs) = Starving"
    by (simp add: readChunks_def readChunks_loop.simps [of f "concat cs" "[]"])
  then show ?thesis by (simp add: handleConn_def readCommand_INSTREAM)
qed

lemma handleConn_crossed:
  assumes "\<forall>c \<in> set cs. chunk_ok K c" "chunk_ok K p" "K \<le> 2 ^ 26"
    "crossing f (length (concat cs)) = None" "crossing f (length (concat cs @ p)) = Some d"
  shows "handleConn f (EncodeCommand ''INSTREAM'' @ frames (cs @ [p])) = Closed d"
proof -
  have "readChunks_loop f [] (frames cs @ chunk_frame p) = readChunks_loop f ([] @ concat cs) (chunk_frame p)"
    by (rule readChunks_frames [OF assms(1,3)]) (use assms(4) in \<open>simp add: crossing_None\<close>)
  then have "readChunks f (frames (cs @ [p])) = Dropping d"
    using readChunks_crossing [OF assms(2,3,5), of "[]"] by (simp add: readChunks_def frames_def)
  then show ?thesis by (simp add: handleConn_def readCommand_INSTREAM)
qed

subsection \<open>Streaming into the crossing\<close>

text \<open>Once the fake has closed, a write is refused and nothing changes on the wire.\<close>

lemma write_refused:
  assumes "ctx_done_at ctx = None" "fake_closed f (wire_out w)"
  shows "\<exists>w'. write_frame (dc_write env ctx (fake_conn True seg f) d) bs w =
      (Some (SinkError (Foreign ''broken pipe'' [])), w') \<and> wire_out w' = wire_out w \<and> wire_in w' = wire_in w"
proof -
  from refresh_live [OF assms(1)] obtain w1 where
    r: "refresh env ctx (fake_conn True seg f) d w = (None, w1)" by blast
  from refresh_frame [OF r] assms(2) show ?thesis by (simp add: write_frame_def dc_write_def r Let_def)
qed

lemma write_taken:
  assumes "ctx_done_at ctx = None" "\<not> fake_closed f (wire_out w)"
  shows "\<exists>w'. write_frame (dc_write env ctx (fake_conn True seg f) d) bs w = (None, w') \<and>
      wire_out w' = wire_out w @ bs \<and> wire_in w' = wire_in w \<and> src_log w' = src_log w"
  using dc_write_live [OF assms(1), of True f w env seg d bs] assms(2) by (auto simp: write_frame_def)

text \<open>After the crossing: the next frame, or the terminator, is refused.\<close>

lemma stream_loop_after:
  assumes live: "ctx_done_at ctx = None" and start: "start \<le> length (src_log w)"
    and closed: "fake_closed f (wire_out w)" and buf: "0 < length buf"
    and room: "0 \<le> mx \<longrightarrow> tot + int (length (bytes_left start data w)) \<le> mx" "0 \<le> tot"
      "tot + int (length (bytes_left start data w)) \<le> max_int64"
  shows "\<exists>w' k. stream_loop (dc_write env ctx (fake_conn True seg f) d)
      (ctx_read env ctx (bytes_reader start data)) mx buf tot w =
      Some ((k, Some (SinkError (Foreign ''broken pipe'' []))), w') \<and>
    wire_out w' = wire_out w \<and> wire_in w' = wire_in w"
proof -
  let ?W = "dc_write env ctx (fake_conn True seg f) d" and ?R = "ctx_read env ctx (bytes_reader start data)"
  let ?n = "min (length buf) (length (bytes_left start data w))"
  obtain eof buf' w1 where f: "fill ?R buf w = ((?n, eof, None, buf'), w1)"
      "length (bytes_left start data w) < length buf \<Longrightarrow> eof"
    using fake_flow.fill_flows [of ctx start w env data buf] live start by metis
  have same: "wire_out w1 = wire_out w" "wire_in w1 = wire_in w"
    using caller_fill_frame [OF f(1)] by auto
  from write_refused [OF live, of f w1] closed same have
    ref: "\<exists>w'. write_frame ?W bs w1 = (Some (SinkError (Foreign ''broken pipe'' [])), w') \<and>
      wire_out w' = wire_out w \<and> wire_in w' = wire_in w" for bs by metis
  have i: "i64 (tot + int ?n) = tot + int ?n" "0 \<le> mx \<longrightarrow> tot + int ?n \<le> mx" using room by auto
  show ?thesis
  proof (cases "?n = 0")
    case True
    with buf f(2) have eof by (auto simp: min_def split: if_splits)
    from ref [of terminator] obtain w2 where
      "write_frame ?W terminator w1 = (Some (SinkError (Foreign ''broken pipe'' [])), w2)"
      "wire_out w2 = wire_out w" "wire_in w2 = wire_in w" by blast
    with f(1) True \<open>eof\<close> i show ?thesis
      by (subst stream_loop.simps) (auto simp: finish_stream_def)
  next
    case False
    from ref [of "chunk_frame (take ?n buf')"] obtain w2 where
      "write_frame ?W (chunk_frame (take ?n buf')) w1 = (Some (SinkError (Foreign ''broken pipe'' [])), w2)"
      "wire_out w2 = wire_out w" "wire_in w2 = wire_in w" by blast
    with f(1) False i show ?thesis
      by (subst stream_loop.simps) auto
  qed
qed

text \<open>One round of the loop while the fake is still reading: the next chunk is taken.\<close>

lemma crossing_round:
  assumes live: "ctx_done_at ctx = None" and start: "start \<le> length (src_log w)"
    and buf: "length buf = K" "0 < K" "K \<le> 2 ^ 26"
    and wire: "wire_out w = EncodeCommand ''INSTREAM'' @ frames cs" "\<forall>c \<in> set cs. chunk_ok K c"
    and before: "crossing f (length (concat cs)) = None" and left: "bytes_left start data w \<noteq> []"
    and room: "0 \<le> tot" "0 \<le> mx \<longrightarrow> tot + int (length (bytes_left start data w)) \<le> mx"
      "tot + int (length (bytes_left start data w)) \<le> max_int64"
  obtains p eof buf' w2 where "p \<noteq> []" "chunk_ok K p" "bytes_left start data w = p @ bytes_left start data w2"
    "length buf' = K" "start \<le> length (src_log w2)" "eof \<Longrightarrow> bytes_left start data w2 = []"
    "wire_out w2 = EncodeCommand ''INSTREAM'' @ frames (cs @ [p])" "wire_in w2 = wire_in w"
    "stream_loop (dc_write env ctx (fake_conn True seg f) io) (ctx_read env ctx (bytes_reader start data)) mx buf tot w =
      (if eof then Some (finish_stream (dc_write env ctx (fake_conn True seg f) io) (tot + int (length p)) w2)
       else stream_loop (dc_write env ctx (fake_conn True seg f) io) (ctx_read env ctx (bytes_reader start data)) mx
         buf' (tot + int (length p)) w2)"
proof -
  let ?W = "dc_write env ctx (fake_conn True seg f) io" and ?R = "ctx_read env ctx (bytes_reader start data)"
  let ?rest = "bytes_left start data w"
  let ?n = "min (length buf) (length ?rest)" and ?p = "take (length buf) ?rest"
  obtain eof buf' w1 where f: "fill ?R buf w = ((?n, eof, None, buf'), w1)" "take ?n buf' = ?p"
      "bytes_left start data w1 = drop (length buf) ?rest" "start \<le> length (src_log w1)"
      "eof \<Longrightarrow> bytes_left start data w1 = []"
    using fake_flow.fill_flows [of ctx start w env data buf] live start by metis
  have same: "wire_out w1 = wire_out w" "wire_in w1 = wire_in w" using caller_fill_frame [OF f(1)] by auto
  have "\<not> fake_closed f (wire_out w1)"
    using handleConn_waiting [OF wire(2) buf(3) before] wire(1) same by (simp add: fake_closed_def)
  from write_taken [OF live this] obtain w2 where w2: "write_frame ?W (chunk_frame ?p) w1 = (None, w2)"
    "wire_out w2 = wire_out w1 @ chunk_frame ?p" "wire_in w2 = wire_in w1" "src_log w2 = src_log w1" by blast
  have n: "0 < ?n" "length ?p = ?n" "?p \<noteq> []" using left buf by auto
  have "int ?n \<le> int (length ?rest)" by simp
  with room have b: "0 \<le> tot + int ?n" "tot + int ?n \<le> max_int64" "0 \<le> mx \<longrightarrow> tot + int ?n \<le> mx" by linarith+
  have i: "i64 (tot + int ?n) = tot + int ?n" by (intro i64_id) (use b in linarith)+
  show thesis
  proof (rule that [of ?p w2 buf' eof])
    show "chunk_ok K ?p" using n buf(1) by (simp add: chunk_ok_def)
    show "bytes_left start data w = ?p @ bytes_left start data w2"
      unfolding w2(4) f(3) by (rule append_take_drop_id [symmetric])
    show "wire_out w2 = EncodeCommand ''INSTREAM'' @ frames (cs @ [?p])"
      using w2(2) same wire(1) by (simp add: frames_def)
    show "stream_loop ?W ?R mx buf tot w = (if eof then Some (finish_stream ?W (tot + int (length ?p)) w2)
        else stream_loop ?W ?R mx buf' (tot + int (length ?p)) w2)"
      unfolding n(2) using f(1,2) n(1) w2(1) b(3) i by (subst stream_loop.simps) (auto simp del: take_append)
  qed (use n f(4,5) w2(3,4) same caller_fill_length [OF f(1)] buf(1) in auto)
qed

lemma stream_loop_crossing:
  assumes live: "ctx_done_at ctx = None" and start: "start \<le> length (src_log w)"
    and buf: "length buf = K" "0 < K" "K \<le> 2 ^ 26"
    and wire: "wire_out w = EncodeCommand ''INSTREAM'' @ frames cs" "\<forall>c \<in> set cs. chunk_ok K c"
    and before: "crossing f (length (concat cs)) = None"
    and ahead: "crossing f (length (concat cs) + length (bytes_left start data w)) \<noteq> None"
    and tot: "tot = int (length (concat cs))"
    and room: "0 \<le> mx \<longrightarrow> tot + int (length (bytes_left start data w)) \<le> mx"
      "tot + int (length (bytes_left start data w)) \<le> max_int64"
  shows "\<exists>w' k m d. stream_loop (dc_write env ctx (fake_conn True seg f) io)
      (ctx_read env ctx (bytes_reader start data)) mx buf tot w =
      Some ((k, Some (SinkError (Foreign ''broken pipe'' []))), w') \<and>
    crossing f m = Some d \<and> handleConn f (wire_out w') = Closed d \<and> wire_in w' = wire_in w"
  using start buf(1) wire before ahead tot room
proof (induction "length (bytes_left start data w)" arbitrary: w buf cs tot rule: less_induct)
  case less
  let ?left = "\<lambda>w. length (bytes_left start data w)"
  have ne: "bytes_left start data w \<noteq> []" using less.prems(5,6) by auto
  have tot0: "0 \<le> tot" using less.prems(7) by simp
  obtain p eof buf' w2 where p: "p \<noteq> []" "chunk_ok K p" and rest: "bytes_left start data w = p @ bytes_left start data w2"
    and b: "length buf' = K" "start \<le> length (src_log w2)" "eof \<Longrightarrow> bytes_left start data w2 = []"
    and wire2: "wire_out w2 = EncodeCommand ''INSTREAM'' @ frames (cs @ [p])" "wire_in w2 = wire_in w"
    and loop: "stream_loop (dc_write env ctx (fake_conn True seg f) io) (ctx_read env ctx (bytes_reader start data)) mx buf tot w =
      (if eof then Some (finish_stream (dc_write env ctx (fake_conn True seg f) io) (tot + int (length p)) w2)
       else stream_loop (dc_write env ctx (fake_conn True seg f) io) (ctx_read env ctx (bytes_reader start data)) mx
         buf' (tot + int (length p)) w2)"
    using crossing_round [OF live less.prems(1,2) buf(2,3) less.prems(3,4,5) ne tot0 less.prems(8,9)] by metis
  have len: "?left w = length p + ?left w2" using arg_cong [OF rest, of length] by (simp only: length_append)
  have cc: "length (concat (cs @ [p])) = length (concat cs) + length p" by simp
  have tot2: "tot + int (length p) = int (length (concat (cs @ [p])))" using less.prems(7) by (simp only: cc of_nat_add)
  have room2: "0 \<le> mx \<longrightarrow> tot + int (length p) + int (?left w2) \<le> mx"
    "tot + int (length p) + int (?left w2) \<le> max_int64" "0 \<le> tot + int (length p)"
    using less.prems(8,9) tot0 unfolding len of_nat_add by linarith+
  show ?case
  proof (cases "crossing f (length (concat (cs @ [p])))")
    case None
    have "\<not> eof" using b(3) less.prems(6) None len cc by auto
    have shorter: "?left w2 < ?left w" using len p(1) by (cases p) simp_all
    have cs2: "\<forall>c \<in> set (cs @ [p]). chunk_ok K c" using less.prems(4) p(2) by simp
    have ahead2: "crossing f (length (concat (cs @ [p])) + ?left w2) \<noteq> None"
      using less.prems(6) unfolding len cc by (simp only: add.assoc not_False_eq_True)
    from less.hyps [OF shorter b(2,1) wire2(1) cs2 None ahead2 tot2 room2(1,2)] show ?thesis
      unfolding loop if_not_P [OF \<open>\<not> eof\<close>] wire2(2) .
  next
    case (Some d)
    then have h: "handleConn f (wire_out w2) = Closed d"
      using handleConn_crossed [OF less.prems(4) p(2) buf(3) less.prems(5), of d] wire2(1) by simp
    then have closed: "fake_closed f (wire_out w2)" by (simp add: fake_closed_def)
    have "0 < length buf'" using b(1) buf(2) by simp
    note after = stream_loop_after [OF live b(2) closed this room2(1,3,2), of env seg io]
    from after write_refused [OF live closed, of env seg io terminator] loop h Some wire2(2) show ?thesis
      by (cases eof) (auto simp: finish_stream_def)
  qed
qed

subsection \<open>The recovered reply\<close>

definition recovered :: "string \<Rightarrow> scan_outcome \<Rightarrow> bool" where
  "recovered line out \<longleftrightarrow>
     (case Outcome (ParseScanResponse line) of
        OutcomeError \<Rightarrow> out = (zero_result, Some (clamdErrorFrom (ParseScanResponse line)))
      | OutcomeInfected \<Rightarrow>
          out = (\<lparr>Verdict = VerdictInfected, ResultSignature = Signature (ParseScanResponse line), Raw = line\<rparr>, None)
      | OutcomeClean \<Rightarrow> out = (zero_result, Some (ProtocolError ''INSTREAM'' line))
      | OutcomeUnknown \<Rightarrow> out = (zero_result, Some (ConnectionError ''write'' (Foreign ''broken pipe'' []))))"

lemma ctxError_live:
  assumes "ctx_done_at ctx = None" "ctx_deadline ctx = None"
  shows "ctxError env ctx w = (None, tick env ctx w)"
  using assms by (simp add: ctxError_def ctx_Err_def Let_def)

lemma recover_broken_pipe:
  assumes live: "ctx_done_at ctx = None" "ctx_deadline ctx = None"
    and closed: "handleConn f (wire_out w) = Closed d" "wire_in w = []"
    and line: "line_of MaxLineResponse [] d = (line, t, None)"
  shows "\<exists>out w'. recoverStreamError env ctx c (fake_conn refuse seg f) iot new_bufio
      (SinkError (Foreign ''broken pipe'' [])) w = (out, w') \<and> recovered line out"
proof -
  let ?e = "SinkError (Foreign ''broken pipe'' [])" and ?cn = "fake_conn refuse seg f"
  let ?w = "tick env ctx w" and ?d = "min iot (2 * second)"
  have "\<not> errors_Is ?e ProtoErrSizeLimitExceeded" "as_SourceError ?e = None" "as_SinkError ?e = Some (Foreign ''broken pipe'' [])"
    by (simp_all add: errors_Is_simps as_SourceError_def errors_As_def err_tree_simps)
  note e = this
  have "fake_closed f (wire_out ?w)" "fake_pending f ?w = d"
    using closed by (simp_all add: fake_closed_def fake_pending_def fake_output_def)
  with fake_stream.ReadLine_stream [of ctx f ?w env refuse seg ?d MaxLineResponse] live(1) line obtain b w2 where
    rl: "ReadLine (dc_read env ctx ?cn ?d) MaxLineResponse new_bufio ?w = ((line, t, None), b, w2)"
    by (metis prod.collapse)
  have "recoverStreamError env ctx c ?cn iot new_bufio ?e w = recover_reply env ctx ?cn iot new_bufio ?e ?w"
    using e ctxError_live [OF live, of env w] by (simp add: recoverStreamError_def)
  then show ?thesis
    using rl e(3) ctxError_live [OF live, of env w2]
    by (auto simp: recover_reply_def recovered_def write_failure_def wrapWriteErr_def as_result_def Let_def
        split: outcome.split)
qed

text \<open>
  A scan into a server that closes in the middle of the stream: the outcome is what the
  server's reply says.
\<close>

lemma fake_ScanBytes_cut:
  assumes live: "ctx_done_at ctx = None" "ctx_deadline ctx = None" and slot: "slot_free env c w"
    and to: "dialFunc (cfg c) = Some (fake_dial True seg f)"
    and limit: "maxStreamSize (cfg c) = NoSizeLimit \<or> int (length data) \<le> maxStreamSize (cfg c)"
    and size: "int (length data) \<le> max_int64"
    and script: "crossing f 0 = None" "crossing f (length data) \<noteq> None"
    and reply: "\<And>m x. crossing f m = Some x \<Longrightarrow> x = d"
    and line: "line_of MaxLineResponse [] d = (line, t, None)"
  shows "\<exists>out w'. ScanBytes env ctx c data w = Some (out, w') \<and> recovered line out"
proof -
  let ?d = "ioTimeout (cfg c)" and ?K = "nat (clamp_chunk (chunkSize (cfg c)))" and ?s = "length (src_log w)"
  from acquire_free [OF live(1) slot] obtain w1 where w1: "acquireScanSlot env ctx c w = Some (None, w1)"
    "src_log w1 = src_log w" by blast
  from dial_fake [OF to, of env ctx w1] obtain v where v:
    "dial env ctx c w1 = Some (Inr (fake_conn True seg f), connected v)" "src_log v = src_log w1" by blast
  let ?w = "AfterFunc_abort (connected v)"
  have "\<not> fake_closed f (wire_out ?w)" by (simp add: fake_closed_def handleConn_def readCommand_def)
  from dc_write_live [OF live(1), of True f ?w env seg ?d "EncodeCommand ''INSTREAM''"] this obtain w2 where
    w2: "dc_write env ctx (fake_conn True seg f) ?d ?w (EncodeCommand ''INSTREAM'') =
        ((int (length (EncodeCommand ''INSTREAM'')), None), w2)"
      "wire_out w2 = EncodeCommand ''INSTREAM''" "wire_in w2 = []" "src_log w2 = src_log w" using w1(2) v(2) by auto
  have K: "0 < ?K" "?K \<le> 2 ^ 26" using clamp_chunk_range [of "chunkSize (cfg c)"] by (auto simp: MaxChunkSize_def)
  have rest: "bytes_left ?s data w2 = data" using w2(4) by simp
  have "\<exists>w' k m x. stream_loop (dc_write env ctx (fake_conn True seg f) ?d)
      (ctx_read env ctx (bytes_reader ?s data)) (maxStreamSize (cfg c)) (replicate ?K 0) 0 w2 =
      Some ((k, Some (SinkError (Foreign ''broken pipe'' []))), w') \<and>
    crossing f m = Some x \<and> handleConn f (wire_out w') = Closed x \<and> wire_in w' = wire_in w2"
  proof (rule stream_loop_crossing [where cs = "[]", OF live(1) _ _ K])
    show "?s \<le> length (src_log w2)" "wire_out w2 = EncodeCommand ''INSTREAM'' @ frames []"
      using w2 by simp_all
    show "crossing f (length (concat [])) = None" using script(1) by simp
    show "crossing f (length (concat []) + length (bytes_left ?s data w2)) \<noteq> None"
      using script(2) unfolding rest by simp
    show "0 \<le> maxStreamSize (cfg c) \<longrightarrow> 0 + int (length (bytes_left ?s data w2)) \<le> maxStreamSize (cfg c)"
      "0 + int (length (bytes_left ?s data w2)) \<le> max_int64"
      unfolding rest using limit size by (auto simp: NoSizeLimit_def)
  qed simp_all
  then obtain w3 k m x where s: "stream_loop (dc_write env ctx (fake_conn True seg f) ?d)
      (ctx_read env ctx (bytes_reader ?s data)) (maxStreamSize (cfg c)) (replicate ?K 0) 0 w2 =
      Some ((k, Some (SinkError (Foreign ''broken pipe'' []))), w3)" "crossing f m = Some x"
      "handleConn f (wire_out w3) = Closed x" "wire_in w3 = wire_in w2" by blast
  have "x = d" using s(2) by (rule reply)
  with s w2(3) have w3: "StreamAll (dc_write env ctx (fake_conn True seg f) ?d)
      (ctx_read env ctx (bytes_reader ?s data)) (chunkSize (cfg c)) (maxStreamSize (cfg c)) w2 =
      Some ((k, Some (SinkError (Foreign ''broken pipe'' []))), w3)"
      "handleConn f (wire_out w3) = Closed d" "wire_in w3 = []"
    by (simp_all add: StreamAll_def)
  from recover_broken_pipe [OF live w3(2,3) line, of env c True seg ?d] obtain out w4 where
    "recoverStreamError env ctx c (fake_conn True seg f) ?d new_bufio (SinkError (Foreign ''broken pipe'' [])) w3 = (out, w4)"
    "recovered line out" by blast
  note rec = this
  have "scan_exchange env ctx c (fake_conn True seg f) (bytes_reader ?s data) ?w = Some (out, w4)"
    using w2(1) w3(1) rec(1) by (simp add: scan_exchange_def)
  with w1(1) v(1) limit have "ScanBytes env ctx c data w = Some (out, releaseScanSlot c (close_conn (stop_watch w4)))"
    by (auto simp: ScanBytes_def Scan_def scanStream_def)
  with rec(2) show ?thesis by blast
qed

end
