(* ===== verification/FileScan.thy ===== *)
theory FileScan
  imports ScanWire
begin

text \<open>
  \<open>ScanFile\<close>, \<open>checkScanTarget\<close> (\<open>client.go\<close>) and \<open>openScanTarget\<close> (\<open>scanfile_unix.go\<close>,
  \<open>scanfile_other.go\<close>).

  The operating system is an argument: \<open>os_stat\<close> and \<open>os_open\<close> answer for a path, with the
  world as it is at the call, so that a path may be another file at every call; an open
  file answers \<open>fstat\<close> and reads. \<open>OpenBlocks\<close> is an open that does not return, which
  a context cannot interrupt.
\<close>

subsection \<open>Files\<close>

type_synonym file_mode = "32 word"

definition ModeDir :: file_mode where "ModeDir = push_bit 31 1"
definition ModeSymlink :: file_mode where "ModeSymlink = push_bit 27 1"
definition ModeDevice :: file_mode where "ModeDevice = push_bit 26 1"
definition ModeNamedPipe :: file_mode where "ModeNamedPipe = push_bit 25 1"
definition ModeSocket :: file_mode where "ModeSocket = push_bit 24 1"
definition ModeCharDevice :: file_mode where "ModeCharDevice = push_bit 21 1"
definition ModeIrregular :: file_mode where "ModeIrregular = push_bit 19 1"

definition ModeType :: file_mode where
  "ModeType = ModeDir OR ModeSymlink OR ModeNamedPipe OR ModeSocket OR ModeDevice OR ModeCharDevice OR ModeIrregular"

definition IsRegular :: "file_mode \<Rightarrow> bool" where
  "IsRegular m \<longleftrightarrow> m AND ModeType = 0"

record file_info =
  Mode :: file_mode
  Size :: int

record os_file =
  f_stat :: "world \<Rightarrow> goerr + file_info"
  f_read :: source

datatype open_answer = OpenFails goerr | OpenBlocks | Opened os_file

record file_sys =
  os_stat :: "world \<Rightarrow> string \<Rightarrow> goerr + file_info"
  os_open :: "world \<Rightarrow> string \<Rightarrow> bool \<Rightarrow> open_answer"

text \<open>The last argument of \<open>os_open\<close> is \<open>O_NONBLOCK\<close>.\<close>

definition openScanTarget_unix :: "file_sys \<Rightarrow> string \<Rightarrow> world \<Rightarrow> open_answer" where
  "openScanTarget_unix fs path w = os_open fs w path True"

definition openScanTarget_other :: "file_sys \<Rightarrow> string \<Rightarrow> world \<Rightarrow> open_answer" where
  "openScanTarget_other fs path w = os_open fs w path False"

definition openScanTarget :: "bool \<Rightarrow> file_sys \<Rightarrow> string \<Rightarrow> world \<Rightarrow> open_answer" where
  "openScanTarget unix fs = (if unix then openScanTarget_unix fs else openScanTarget_other fs)"

definition checkScanTarget :: "int \<Rightarrow> string \<Rightarrow> file_info \<Rightarrow> goerr option" where
  "checkScanTarget maxSize path fi =
     (if \<not> IsRegular (Mode fi)
      then Some (NewError ''clamav: scan target %s is not a regular file (mode %v)'' [FStr path, FMode (Mode fi)])
      else if maxSize \<noteq> NoSizeLimit \<and> Size fi > maxSize
      then Some (Errorf ''%w: file is %d bytes, client-side limit is %d (WithMaxStreamSize)''
             [FInt (Size fi), FInt maxSize] [ErrSizeLimitExceeded])
      else None)"

subsection \<open>ScanFile\<close>

text \<open>After the open: the race-free check on the descriptor, and the scan.\<close>

definition scan_descriptor ::
  "env \<Rightarrow> go_context \<Rightarrow> client \<Rightarrow> os_file \<Rightarrow> string \<Rightarrow> world \<Rightarrow> (scan_outcome \<times> world) option" where
  "scan_descriptor env ctx c f path w =
     (let w1 = tick env ctx w in
      (case f_stat f w1 of
         Inl e \<Rightarrow> Some ((zero_result, Some (Errorf ''clamav: stat scan target: %w'' [] [e])), w1)
       | Inr fi \<Rightarrow>
           (case checkScanTarget (maxStreamSize (cfg c)) path fi of
              Some e \<Rightarrow> Some ((zero_result, Some e), w1)
            | None \<Rightarrow> scanStream env ctx c (f_read f) w1)))"

definition open_file :: "world \<Rightarrow> world" where
  "open_file w = w\<lparr>files_open := Suc (files_open w), files_opened := Suc (files_opened w)\<rparr>"

definition close_file :: "world \<Rightarrow> world" where
  "close_file w = w\<lparr>files_open := files_open w - 1\<rparr>"

text \<open>With a slot: the open, and the deferred \<open>Close\<close>.\<close>

definition scan_path ::
  "env \<Rightarrow> go_context \<Rightarrow> client \<Rightarrow> bool \<Rightarrow> file_sys \<Rightarrow> string \<Rightarrow> world \<Rightarrow> (scan_outcome \<times> world) option" where
  "scan_path env ctx c unix fs path w =
     (let w1 = tick env ctx w in
      (case openScanTarget unix fs path w1 of
         OpenBlocks \<Rightarrow> None
       | OpenFails e \<Rightarrow> Some ((zero_result, Some (Errorf ''clamav: opening scan target: %w'' [] [e])), w1)
       | Opened f \<Rightarrow>
           map_option (\<lambda>(res, w2). (res, close_file w2)) (scan_descriptor env ctx c f path (open_file w1))))"

definition ScanFile ::
  "env \<Rightarrow> go_context \<Rightarrow> client \<Rightarrow> bool \<Rightarrow> file_sys \<Rightarrow> string \<Rightarrow> world \<Rightarrow> (scan_outcome \<times> world) option" where
  "ScanFile env ctx c unix fs path w =
     (let w1 = tick env ctx w in
      (case os_stat fs w1 path of
         Inl e \<Rightarrow> Some ((zero_result, Some (Errorf ''clamav: stat scan target: %w'' [] [e])), w1)
       | Inr fi \<Rightarrow>
           (case checkScanTarget (maxStreamSize (cfg c)) path fi of
              Some e \<Rightarrow> Some ((zero_result, Some e), w1)
            | None \<Rightarrow>
                (case acquireScanSlot env ctx c w1 of
                   None \<Rightarrow> None
                 | Some (Some e, w2) \<Rightarrow> Some ((zero_result, Some e), w2)
                 | Some (None, w2) \<Rightarrow>
                     map_option (\<lambda>(res, w3). (res, releaseScanSlot c w3)) (scan_path env ctx c unix fs path w2)))))"

subsection \<open>The checks\<close>

lemma bit_flag: "k < 32 \<Longrightarrow> bit (push_bit k 1 :: file_mode) n \<longleftrightarrow> n = k"
  by (auto simp: bit_simps)

lemmas mode_defs = ModeDir_def ModeSymlink_def ModeNamedPipe_def ModeSocket_def ModeDevice_def
  ModeCharDevice_def ModeIrregular_def

lemmas flag_bits = bit_flag [of 31] bit_flag [of 27] bit_flag [of 25] bit_flag [of 24] bit_flag [of 26]
  bit_flag [of 21] bit_flag [of 19]

lemma mode_bits:
  "bit ModeDir n \<longleftrightarrow> n = 31" "bit ModeSymlink n \<longleftrightarrow> n = 27" "bit ModeNamedPipe n \<longleftrightarrow> n = 25"
  "bit ModeSocket n \<longleftrightarrow> n = 24" "bit ModeDevice n \<longleftrightarrow> n = 26" "bit ModeCharDevice n \<longleftrightarrow> n = 21"
  "bit ModeIrregular n \<longleftrightarrow> n = 19"
  unfolding mode_defs by (rule flag_bits; simp)+

lemma ModeType_bits: "bit ModeType n \<longleftrightarrow> n \<in> {19, 21, 24, 25, 26, 27, 31}"
  unfolding ModeType_def by (auto simp: bit_or_iff mode_bits)

lemma IsRegular_iff: "IsRegular m \<longleftrightarrow> (\<forall>n \<in> {19, 21, 24, 25, 26, 27, 31}. \<not> bit m n)"
proof
  assume "IsRegular m"
  then have "\<not> bit (m AND ModeType) n" for n by (simp add: IsRegular_def)
  then show "\<forall>n \<in> {19, 21, 24, 25, 26, 27, 31}. \<not> bit m n"
    unfolding bit_and_iff ModeType_bits by blast
next
  assume "\<forall>n \<in> {19, 21, 24, 25, 26, 27, 31}. \<not> bit m n"
  then have "\<not> bit (m AND ModeType) n" for n unfolding bit_and_iff ModeType_bits by blast
  then show "IsRegular m" by (auto simp: IsRegular_def intro: bit_word_eqI)
qed

definition accepted_target :: "int \<Rightarrow> file_info \<Rightarrow> bool" where
  "accepted_target maxSize fi \<longleftrightarrow> IsRegular (Mode fi) \<and> (maxSize = NoSizeLimit \<or> Size fi \<le> maxSize)"

lemma checkScanTarget_iff: "checkScanTarget mx path fi = None \<longleftrightarrow> accepted_target mx fi"
  by (auto simp: checkScanTarget_def accepted_target_def)

lemma checkScanTarget_size:
  "IsRegular (Mode fi) \<Longrightarrow> checkScanTarget mx path fi = Some e \<Longrightarrow> errors_Is e ErrSizeLimitExceeded"
  by (auto simp: checkScanTarget_def errors_Is_simps errors_Is_leaf split: if_splits)

subsection \<open>Every path of ScanFile\<close>

lemma fail_closed_ScanFile: "ScanFile env ctx c unix fs path w = Some (res, w') \<Longrightarrow> fail_closed res"
  by (auto simp: ScanFile_def scan_path_def scan_descriptor_def closed_intros Let_def
      split: option.splits sum.splits prod.splits open_answer.splits dest: fail_closed_scanStream)

lemma scan_descriptor_books:
  assumes "scan_descriptor env ctx c f path w = Some (res, w')"
  shows "opened w' + closed w = opened w + closed w' \<and> opened w' \<le> Suc (opened w) \<and>
    slots_held w' = slots_held w \<and> files_open w' = files_open w"
  using assms scanStream_books
  by (fastforce simp: scan_descriptor_def Let_def split: sum.splits option.splits)

lemma scan_path_books:
  assumes "scan_path env ctx c unix fs path w = Some (res, w')"
  shows "opened w' + closed w = opened w + closed w' \<and> opened w' \<le> Suc (opened w) \<and>
    slots_held w' = slots_held w \<and> files_open w' = files_open w"
  using assms
  by (auto simp: scan_path_def open_file_def close_file_def Let_def split: open_answer.splits
      dest!: scan_descriptor_books)

lemma ScanFile_cases [consumes 1, case_names refused ran]:
  assumes "ScanFile env ctx c unix fs path w = Some (res, w')"
  obtains (refused) e where "res = (zero_result, Some e)" "same_books w w'" "same_sent w w'"
  | (ran) w2 w3 where "acquireScanSlot env ctx c (tick env ctx w) = Some (None, w2)"
      "scan_path env ctx c unix fs path w2 = Some (res, w3)" "w' = releaseScanSlot c w3"
proof (cases "os_stat fs (tick env ctx w) path")
  case (Inl e)
  with assms refused show thesis by (auto simp: ScanFile_def Let_def)
next
  case (Inr fi)
  show thesis
  proof (cases "checkScanTarget (maxStreamSize (cfg c)) path fi")
    case (Some e)
    with Inr assms refused show thesis by (auto simp: ScanFile_def Let_def)
  next
    case None
    with Inr assms obtain a w2 where a: "acquireScanSlot env ctx c (tick env ctx w) = Some (a, w2)"
      by (auto simp: ScanFile_def Let_def split: option.splits)
    show thesis
    proof (cases a)
      case (Some e)
      with Inr None a assms acquireScanSlotD [OF a] show thesis
        by (intro refused [of e]) (auto simp: ScanFile_def Let_def same_books_def)
    next
      case a': None
      with Inr None a assms ran show thesis by (auto simp: ScanFile_def Let_def)
    qed
  qed
qed

lemma ScanFile_books:
  assumes "ScanFile env ctx c unix fs path w = Some (res, w')"
  shows "opened w' + closed w = opened w + closed w' \<and> opened w' \<le> Suc (opened w) \<and>
    slots_held w' = slots_held w \<and> files_open w' = files_open w"
  using assms
proof (cases rule: ScanFile_cases)
  case (refused e)
  then show ?thesis by (simp add: same_books_def)
next
  case (ran w2 w3)
  from scan_path_books [OF ran(2)] acquireScanSlotD [OF ran(1)] ran(3) show ?thesis
    by (simp add: releaseScanSlot_def split: if_splits)
qed

lemma scan_path_failed:
  assumes run: "scan_path env ctx c unix fs path w = Some (res, w')"
    and x: "src_failed w = None" "src_failed w' = Some x" "\<not> errors_Is x ProtoErrSizeLimitExceeded" "as_SourceAborted x = None"
  shows "source_blamed c x w w' res"
proof -
  obtain src v v' where s: "scanStream env ctx c src v = Some (res, v')"
    and f: "src_failed v = src_failed w" "src_failed v' = src_failed w'"
    and l: "src_log v = src_log w" "src_log v' = src_log w'"
    using run x(1,2)
    by (auto simp: scan_path_def scan_descriptor_def open_file_def close_file_def Let_def
        split: open_answer.splits sum.splits option.splits)
  have "source_blamed c x v v' res" by (rule scanStream_failed [OF s _ _ x(3,4)]) (simp_all add: f x(1,2))
  with source_blamed_cong [OF l] show ?thesis by blast
qed

lemma ScanFile_failed:
  assumes run: "ScanFile env ctx c unix fs path w = Some (res, w')"
    and x: "src_failed w = None" "src_failed w' = Some x" "\<not> errors_Is x ProtoErrSizeLimitExceeded" "as_SourceAborted x = None"
  shows "source_blamed c x w w' res"
  using run
proof (cases rule: ScanFile_cases)
  case (refused e)
  with x show ?thesis by (simp add: same_sent_def)
next
  case (ran w2 w3)
  have start: "src_failed w2 = None" "src_log w2 = src_log w"
    using acquireScanSlotD [OF ran(1)] x(1) by (simp_all add: same_sent_def)
  have stop: "src_failed w3 = Some x" "src_log w3 = src_log w'" using ran(3) x(2) by simp_all
  from scan_path_failed [OF ran(2) start(1) stop(1) x(3,4)] source_blamed_cong [OF start(2) stop(2)]
  show ?thesis by blast
qed

text \<open>A connection is made only for a descriptor that passed the check.\<close>

lemma scan_descriptor_connects:
  assumes "scan_descriptor env ctx c f path w = Some (res, w')" "opened w' \<noteq> opened w"
  shows "\<exists>v fi. f_stat f v = Inr fi \<and> accepted_target (maxStreamSize (cfg c)) fi"
proof -
  from assms obtain fi where "f_stat f (tick env ctx w) = Inr fi" "checkScanTarget (maxStreamSize (cfg c)) path fi = None"
    by (auto simp: scan_descriptor_def Let_def split: sum.splits option.splits)
  then show ?thesis by (auto simp: checkScanTarget_iff)
qed

lemma ScanFile_connects:
  assumes "ScanFile env ctx c unix fs path w = Some (res, w')" "opened w' \<noteq> opened w"
  shows "\<exists>f fi v v'. openScanTarget unix fs path v = Opened f \<and> f_stat f v' = Inr fi \<and>
    accepted_target (maxStreamSize (cfg c)) fi"
  using assms(1)
proof (cases rule: ScanFile_cases)
  case (refused e)
  then show ?thesis using assms(2) by (simp add: same_books_def)
next
  case (ran w2 w3)
  have diff: "opened w3 \<noteq> opened w2"
    using assms(2) acquireScanSlotD [OF ran(1)] ran(3) by (simp add: releaseScanSlot_def split: if_splits)
  from ran(2) diff obtain f s where f: "openScanTarget unix fs path (tick env ctx w2) = Opened f"
      "scan_descriptor env ctx c f path (open_file (tick env ctx w2)) = Some (res, s)" "w3 = close_file s"
    by (auto simp: scan_path_def Let_def split: open_answer.splits)
  have "opened s \<noteq> opened (open_file (tick env ctx w2))"
    using diff f(3) by (simp add: open_file_def close_file_def)
  from scan_descriptor_connects [OF f(2) this] f(1) show ?thesis by blast
qed

lemma scan_path_received:
  assumes "scan_path env ctx c unix fs path w = Some ((res, e), w')" "opened w' \<noteq> opened w"
  shows "int (length (wire_in w')) \<le> received_limit MaxLineResponse \<and> int (length (Raw res)) \<le> MaxLineResponse"
proof -
  from assms obtain src v v' where "scanStream env ctx c src v = Some ((res, e), v')" "opened v' \<noteq> opened v"
    and "wire_in w' = wire_in v'"
    by (auto simp: scan_path_def scan_descriptor_def open_file_def close_file_def Let_def
        split: open_answer.splits sum.splits option.splits)
  with scanStream_received show ?thesis by simp
qed

lemma ScanFile_received:
  assumes "ScanFile env ctx c unix fs path w = Some ((res, e), w')" "opened w' \<noteq> opened w"
  shows "int (length (wire_in w')) \<le> received_limit MaxLineResponse \<and> int (length (Raw res)) \<le> MaxLineResponse"
  using assms(1)
proof (cases rule: ScanFile_cases)
  case (refused x)
  with assms(2) show ?thesis by (simp add: same_books_def)
next
  case (ran w2 w3)
  have "opened w3 \<noteq> opened w2"
    using assms(2) acquireScanSlotD [OF ran(1)] ran(3) by (simp add: releaseScanSlot_def split: if_splits)
  from scan_path_received [OF ran(2) this] ran(3) show ?thesis by simp
qed

text \<open>Nothing is opened by a scan that is refused a slot, whatever the file system would do.\<close>

lemma ScanFile_queued:
  assumes "acquireScanSlot env ctx c (tick env ctx w) = Some (Some e, w1)"
  shows "ScanFile env ctx c unix (fs\<lparr>os_open := any\<rparr>) path w = ScanFile env ctx c unix fs path w"
  using assms by (simp add: ScanFile_def Let_def split: sum.splits option.splits)

text \<open>
  \<open>open(2)\<close>: with \<open>O_NONBLOCK\<close>, opening a FIFO for reading returns at once.
\<close>

definition nonblocking_open :: "file_sys \<Rightarrow> bool" where
  "nonblocking_open fs \<longleftrightarrow> (\<forall>w path. os_open fs w path True \<noteq> OpenBlocks)"

lemma scan_path_returns:
  assumes "client_ok c" "nonblocking_open fs"
    "\<forall>v f. openScanTarget True fs path v = Opened f \<longrightarrow> scan_ends c (f_read f)"
  shows "scan_path env ctx c True fs path w \<noteq> None"
  using assms(2,3) scanStream_returns [OF assms(1)]
  by (auto simp: scan_path_def scan_descriptor_def openScanTarget_def openScanTarget_unix_def
      nonblocking_open_def Let_def split: open_answer.splits sum.splits option.splits)

lemma ScanFile_returns:
  assumes "client_ok c" "nonblocking_open fs"
    "\<forall>v f. openScanTarget True fs path v = Opened f \<longrightarrow> scan_ends c (f_read f)"
    "sem c = None \<or> ctx_done_at ctx \<noteq> None"
  shows "ScanFile env ctx c True fs path w \<noteq> None"
proof -
  from acquireScanSlot_returns [OF assms(4)] obtain a w1 where
    "acquireScanSlot env ctx c (tick env ctx w) = Some (a, w1)" by (metis not_None_eq prod.collapse)
  moreover from scan_path_returns [OF assms(1-3)] obtain res w2 where
    "scan_path env ctx c True fs path w1 = Some (res, w2)" by (metis not_None_eq prod.collapse)
  ultimately show ?thesis by (simp add: ScanFile_def Let_def split: sum.split option.split)
qed

end
