(* ===== verification/Commands.thy ===== *)
theory Commands
  imports EndToEnd
begin

text \<open>
  The administrative commands (\<open>commands.go\<close>): \<open>command\<close>, \<open>expectReply\<close>, \<open>Ping\<close>,
  \<open>Version\<close>, \<open>Stats\<close> and \<open>Reload\<close>. They share the connection handling of \<open>scanStream\<close>,
  hold no slot, and always return: there is no source to read.
\<close>

subsection \<open>Model\<close>

text \<open>What \<open>command\<close> does on its connection: the reply, or the error.\<close>

definition command_exchange ::
  "env \<Rightarrow> go_context \<Rightarrow> client \<Rightarrow> conn \<Rightarrow> string \<Rightarrow> bool \<Rightarrow> world \<Rightarrow> (goerr + string) \<times> world" where
  "command_exchange env ctx c cn name block w =
     (let iot = ioTimeout (cfg c); br = new_bufio in
      (case dc_write env ctx cn iot w (EncodeCommand name) of
         ((_, Some werr), w1) \<Rightarrow> (case wrapWriteErr env ctx werr w1 of (e, w2) \<Rightarrow> (Inl e, w2))
       | ((_, None), w1) \<Rightarrow>
           (case (if block
                  then (case ReadBlock (dc_read env ctx cn iot) MaxBlockResponse br w1 of
                          ((reply, rerr), _, w2) \<Rightarrow> (reply, rerr, w2))
                  else (case ReadLine (dc_read env ctx cn iot) MaxLineResponse br w1 of
                          ((reply, _, rerr), _, w2) \<Rightarrow> (reply, rerr, w2))) of
              (reply, Some rerr, w2) \<Rightarrow> (case wrapReadErr env ctx name rerr w2 of (e, w3) \<Rightarrow> (Inl e, w3))
            | (reply, None, w2) \<Rightarrow> (Inr reply, w2))))"

definition command ::
  "env \<Rightarrow> go_context \<Rightarrow> client \<Rightarrow> string \<Rightarrow> bool \<Rightarrow> world \<Rightarrow> ((goerr + string) \<times> world) option" where
  "command env ctx c name block w =
     (case dial env ctx c w of
        None \<Rightarrow> None
      | Some (Inl e, w1) \<Rightarrow> Some (Inl e, w1)
      | Some (Inr cn, w1) \<Rightarrow>
          (case command_exchange env ctx c cn name block (AfterFunc_abort w1) of
             (r, w2) \<Rightarrow> Some (r, close_conn (stop_watch w2))))"

definition expectReply :: "string \<Rightarrow> string \<Rightarrow> string \<Rightarrow> goerr option" where
  "expectReply name reply want =
     (if reply = want then None
      else (let resp = ParseScanResponse reply in
            if Outcome resp = OutcomeError then Some (clamdErrorFrom resp)
            else Some (ProtocolError name reply)))"

definition fixed_reply ::
  "env \<Rightarrow> go_context \<Rightarrow> client \<Rightarrow> string \<Rightarrow> string \<Rightarrow> world \<Rightarrow> (goerr option \<times> world) option" where
  "fixed_reply env ctx c name want w =
     (case command env ctx c name False w of
        None \<Rightarrow> None
      | Some (Inl e, w1) \<Rightarrow> Some (Some e, w1)
      | Some (Inr reply, w1) \<Rightarrow> Some (expectReply name reply want, w1))"

definition Ping :: "env \<Rightarrow> go_context \<Rightarrow> client \<Rightarrow> world \<Rightarrow> (goerr option \<times> world) option" where
  "Ping env ctx c w = fixed_reply env ctx c ''PING'' ''PONG'' w"

definition Reload :: "env \<Rightarrow> go_context \<Rightarrow> client \<Rightarrow> world \<Rightarrow> (goerr option \<times> world) option" where
  "Reload env ctx c w = fixed_reply env ctx c ''RELOAD'' ''RELOADING'' w"

text \<open>The checks \<open>Version\<close> and \<open>Stats\<close> share.\<close>

definition text_reply :: "string \<Rightarrow> string \<Rightarrow> string \<times> goerr option" where
  "text_reply name reply =
     (let resp = ParseScanResponse reply in
      if Outcome resp = OutcomeError then ([], Some (clamdErrorFrom resp))
      else if reply = [] then ([], Some (ProtocolError name reply))
      else (reply, None))"

definition Version :: "env \<Rightarrow> go_context \<Rightarrow> client \<Rightarrow> world \<Rightarrow> ((string \<times> goerr option) \<times> world) option" where
  "Version env ctx c w =
     (case command env ctx c ''VERSION'' False w of
        None \<Rightarrow> None
      | Some (Inl e, w1) \<Rightarrow> Some (([], Some e), w1)
      | Some (Inr reply, w1) \<Rightarrow> Some (text_reply ''VERSION'' reply, w1))"

definition Stats :: "env \<Rightarrow> go_context \<Rightarrow> client \<Rightarrow> world \<Rightarrow> ((string \<times> goerr option) \<times> world) option" where
  "Stats env ctx c w =
     (case command env ctx c ''STATS'' True w of
        None \<Rightarrow> None
      | Some (Inl e, w1) \<Rightarrow> Some (([], Some e), w1)
      | Some (Inr reply, w1) \<Rightarrow> Some (text_reply ''STATS'' reply, w1))"

subsection \<open>Every command returns, and gives its connection back\<close>

lemma command_exchange_cases [consumes 1, case_names unsent line block]:
  assumes "command_exchange env ctx c cn name block w = (r, w')"
  obtains (unsent) n e w1 f where "dc_write env ctx cn (ioTimeout (cfg c)) w (EncodeCommand name) = ((n, Some e), w1)"
      "wrapWriteErr env ctx e w1 = (f, w')" "r = Inl f"
  | (line) n w1 l t e b w2 where
      "dc_write env ctx cn (ioTimeout (cfg c)) w (EncodeCommand name) = ((n, None), w1)" "\<not> block"
      "ReadLine (dc_read env ctx cn (ioTimeout (cfg c))) MaxLineResponse new_bufio w1 = ((l, t, e), b, w2)"
      "e = None \<and> r = Inr l \<and> w' = w2 \<or> (\<exists>x f. e = Some x \<and> wrapReadErr env ctx name x w2 = (f, w') \<and> r = Inl f)"
  | (block) n w1 l e b w2 where
      "dc_write env ctx cn (ioTimeout (cfg c)) w (EncodeCommand name) = ((n, None), w1)" "block"
      "ReadBlock (dc_read env ctx cn (ioTimeout (cfg c))) MaxBlockResponse new_bufio w1 = ((l, e), b, w2)"
      "e = None \<and> r = Inr l \<and> w' = w2 \<or> (\<exists>x f. e = Some x \<and> wrapReadErr env ctx name x w2 = (f, w') \<and> r = Inl f)"
proof -
  obtain n we w1 where wr: "dc_write env ctx cn (ioTimeout (cfg c)) w (EncodeCommand name) = ((n, we), w1)"
    by (metis prod.collapse)
  show thesis
  proof (cases we)
    case (Some e)
    obtain f v where "wrapWriteErr env ctx e w1 = (f, v)" by (metis prod.collapse)
    with wr Some assms unsent show thesis by (auto simp: command_exchange_def)
  next
    case None
    show thesis
    proof (cases block)
      case True
      obtain l e b w2 where rb:
        "ReadBlock (dc_read env ctx cn (ioTimeout (cfg c))) MaxBlockResponse new_bufio w1 = ((l, e), b, w2)"
        by (metis prod.collapse)
      show thesis
        by (rule that(3) [OF wr [unfolded None] True rb])
          (use wr None True rb assms in \<open>cases e; auto simp: command_exchange_def split: prod.splits\<close>)
    next
      case False
      obtain l t e b w2 where rl:
        "ReadLine (dc_read env ctx cn (ioTimeout (cfg c))) MaxLineResponse new_bufio w1 = ((l, t, e), b, w2)"
        by (metis prod.collapse)
      show thesis
        by (rule that(2) [OF wr [unfolded None] False rl])
          (use wr None False rl assms in \<open>cases e; auto simp: command_exchange_def split: prod.splits\<close>)
    qed
  qed
qed

lemma wrap_books:
  "wrapWriteErr env ctx e w = (f, w') \<Longrightarrow> same_books w w'"
  "wrapReadErr env ctx name e w = (f, w') \<Longrightarrow> same_books w w'"
  by (auto simp: same_books_def dest!: wrapWriteErr_ticks wrapReadErr_ticks)

lemma read_books:
  "ReadLine (dc_read env ctx cn d) mx b w = (r, b', w') \<Longrightarrow> same_books w w'"
  "ReadBlock (dc_read env ctx cn d) mx b w = (r', b', w') \<Longrightarrow> same_books w w'"
proof -
  have step: "same_books w v \<Longrightarrow> dc_read env ctx cn d v k = (x, v') \<Longrightarrow> same_books w v'" for v k x v'
    using same_books_trans dc_read_frame(4) by blast
  show "ReadLine (dc_read env ctx cn d) mx b w = (r, b', w') \<Longrightarrow> same_books w w'"
    by (rule ReadLine_preserves [where Q = "same_books w"]) (rule step, assumption+, simp)
  show "ReadBlock (dc_read env ctx cn d) mx b w = (r', b', w') \<Longrightarrow> same_books w w'"
    by (rule ReadBlock_preserves [where Q = "same_books w"]) (rule step, assumption+, simp)
qed

lemma command_exchange_books:
  assumes "command_exchange env ctx c cn name block w = (r, w')"
  shows "same_books w w'"
  using assms
proof (cases rule: command_exchange_cases)
  case (unsent n e w1 f)
  then show ?thesis using dc_write_frame(4) wrap_books(1) same_books_trans by metis
next
  case (line n w1 l t e b w2)
  have "same_books w w2" using dc_write_frame(4) [OF line(1)] read_books(1) [OF line(3)] same_books_trans by blast
  then show ?thesis using line(4) wrap_books(2) same_books_trans by blast
next
  case (block n w1 l e b w2)
  have "same_books w w2" using dc_write_frame(4) [OF block(1)] read_books(2) [OF block(3)] same_books_trans by blast
  then show ?thesis using block(4) wrap_books(2) same_books_trans by blast
qed

lemma command_returns: "client_ok c \<Longrightarrow> command env ctx c name block w \<noteq> None"
  using dial_returns [of c env ctx w]
  by (auto simp: command_def split: option.split sum.split prod.split)

lemma command_books:
  assumes "command env ctx c name block w = Some (r, w')"
  shows "opened w' + closed w = opened w + closed w' \<and> slots_held w' = slots_held w \<and> files_open w' = files_open w"
proof -
  from assms obtain x w1 where d: "dial env ctx c w = Some (x, w1)"
    by (auto simp: command_def split: option.splits)
  show ?thesis
  proof (cases x)
    case (Inl e)
    with dialD [OF d] d assms show ?thesis by (auto simp: command_def same_books_def)
  next
    case (Inr cn)
    with dialD [OF d] obtain v where v: "w1 = connected v" "same_books w v" by auto
    obtain r2 w2 where x: "command_exchange env ctx c cn name block (AfterFunc_abort w1) = (r2, w2)"
      by (metis prod.collapse)
    with Inr d assms have "w' = close_conn (stop_watch w2)" by (simp add: command_def)
    with command_exchange_books [OF x] v show ?thesis
      by (auto simp: same_books_def close_conn_def stop_watch_def AfterFunc_abort_def connected_def)
  qed
qed

subsection \<open>What an accepted reply is\<close>

lemma expectReply_iff: "expectReply name reply want = None \<longleftrightarrow> reply = want"
  by (simp add: expectReply_def Let_def)

text \<open>
  All that the server sent up to the NUL that ends a reply, or up to the end of the connection. A line
  is this without the line breaks at its end, and has no other.
\<close>

definition reply_received :: "world \<Rightarrow> string \<Rightarrow> bool" where
  "reply_received w reply \<longleftrightarrow> CHR 0x00 \<notin> set reply \<and>
     ((\<exists>rest. wire_in w = bytes_of reply @ 0 # rest) \<or> wire_in w = bytes_of reply \<and> wire_eof w)"

definition line_received :: "world \<Rightarrow> string \<Rightarrow> bool" where
  "line_received w line \<longleftrightarrow> (\<exists>reply. reply_received w reply \<and> line = trimEOL reply) \<and>
     CHR 0x0D \<notin> set line \<and> CHR 0x0A \<notin> set line"

lemma received_unique:
  assumes "reply_received w a" "reply_received w b"
  shows "a = b"
proof -
  have *: "takeWhile (\<lambda>x. x \<noteq> 0) (wire_in w) = bytes_of r" if "reply_received w r" for r
  proof -
    have "\<forall>x \<in> set (bytes_of r). x \<noteq> 0" using that zero_in_bytes_of [of r] by (auto simp: reply_received_def)
    then show ?thesis using that by (auto simp: reply_received_def takeWhile_append)
  qed
  have "bytes_of a = bytes_of b" using * [OF assms(1)] * [OF assms(2)] by simp
  then show "a = b" by (metis string_of_bytes_of)
qed

lemma command_exchange_got:
  assumes "command_exchange env ctx c cn name block w = (Inr reply, w')" "wire_in w = []"
  shows "if block then reply_received w' reply else line_received w' reply"
  using assms(1)
proof (cases rule: command_exchange_cases)
  case (line n w1 l t e b w2)
  then have run: "ReadLine (dc_read env ctx cn (ioTimeout (cfg c))) MaxLineResponse new_bufio w1 = ((reply, t, None), b, w')"
    by auto
  have "\<not> t \<Longrightarrow> wire_eof w'" using dc_conn.ReadLine_ended run by (cases t) auto
  moreover have "0 \<le> MaxLineResponse" by (simp add: MaxLineResponse_def)
  note dc_conn.ReadLine_got [OF run this]
  ultimately show ?thesis using dc_write_frame(1) [OF line(1)] assms(2) line(2)
    by (cases t) (auto simp: line_received_def reply_received_def)
next
  case (block n w1 l e b w2)
  then have "ReadBlock (dc_read env ctx cn (ioTimeout (cfg c))) MaxBlockResponse new_bufio w1 = ((reply, None), b, w')"
    by auto
  from dc_conn.ReadBlock_got [OF this] dc_write_frame(1) [OF block(1)] assms(2) block(2) show ?thesis
    by (auto simp: reply_received_def)
qed auto

lemma reply_received_frame [simp]:
  "reply_received (close_conn w) reply = reply_received w reply" "reply_received (stop_watch w) reply = reply_received w reply"
  by (simp_all add: reply_received_def close_conn_def stop_watch_def)

lemma command_genuine:
  assumes "command env ctx c name block w = Some (Inr reply, w')"
  shows "if block then reply_received w' reply else line_received w' reply"
proof -
  from assms obtain cn w1 w2 where d: "dial env ctx c w = Some (Inr cn, w1)"
    and x: "command_exchange env ctx c cn name block (AfterFunc_abort w1) = (Inr reply, w2)"
    and w': "w' = close_conn (stop_watch w2)"
    by (auto simp: command_def split: option.splits sum.splits prod.splits)
  from dialD [OF d] obtain v where "w1 = connected v" by auto
  with command_exchange_got [OF x] w' show ?thesis by (cases block) (simp_all add: line_received_def)
qed

text \<open>The same bounds as for a scan, at the limit of the command.\<close>

definition reply_limit :: "bool \<Rightarrow> int" where
  "reply_limit block = (if block then MaxBlockResponse else MaxLineResponse)"

lemma command_exchange_received:
  assumes "command_exchange env ctx c cn name block w = (r, w')"
  shows "int (length (wire_in w')) \<le> int (length (wire_in w)) + received_limit (reply_limit block) \<and>
    (\<forall>reply. r = Inr reply \<longrightarrow> int (length reply) \<le> reply_limit block)"
  using assms
proof (cases rule: command_exchange_cases)
  case (unsent n e w1 f)
  have "wire_in w' = wire_in w1" using wrapWriteErr_ticks [OF unsent(2)] by auto
  with dc_write_frame(1) [OF unsent(1)] unsent(3) show ?thesis
    by (simp add: received_limit_def reply_limit_def MaxBlockResponse_def MaxLineResponse_def)
next
  case (line n w1 l t e b w2)
  have "wire_in w' = wire_in w2" using line(4) by (auto dest: wrapReadErr_ticks)
  moreover have "int (length reply) \<le> MaxLineResponse" if "r = Inr reply" for reply
  proof -
    from that line(3,4) have "ReadLine (dc_read env ctx cn (ioTimeout (cfg c))) MaxLineResponse new_bufio w1 = ((reply, t, None), b, w2)"
      by auto
    from ReadLine_got_reply [OF this] obtain content where "reply = trimEOL content" "int (length content) \<le> MaxLineResponse"
      by (auto simp: got_reply_def)
    with length_TrimRight_le [of content eol] show ?thesis by (simp add: trimEOL_def)
  qed
  ultimately show ?thesis using ReadLine_received [OF line(3)] dc_write_frame(1) [OF line(1)] line(2)
    by (simp add: reply_limit_def)
next
  case (block n w1 l e b w2)
  have "wire_in w' = wire_in w2" using block(4) by (auto dest: wrapReadErr_ticks)
  moreover have "0 \<le> MaxBlockResponse" by (simp add: MaxBlockResponse_def)
  ultimately show ?thesis
    using dc_conn.received_bounds(2) [OF _ block(3)] dc_write_frame(1) [OF block(1)] block(2,4)
    by (auto simp: reply_limit_def received_limit_def)
qed

lemma command_received:
  assumes "command env ctx c name block w = Some (r, w')" "opened w' \<noteq> opened w"
  shows "int (length (wire_in w')) \<le> received_limit (reply_limit block) \<and>
    (\<forall>reply. r = Inr reply \<longrightarrow> int (length reply) \<le> reply_limit block)"
proof -
  from assms(1) obtain x w1 where d: "dial env ctx c w = Some (x, w1)"
    by (auto simp: command_def split: option.splits)
  show ?thesis
  proof (cases x)
    case (Inl e)
    with dialD [OF d] d assms show ?thesis by (auto simp: command_def same_books_def)
  next
    case (Inr cn)
    with dialD [OF d] obtain v where v: "w1 = connected v" by auto
    obtain r2 w2 where x: "command_exchange env ctx c cn name block (AfterFunc_abort w1) = (r2, w2)"
      by (metis prod.collapse)
    with Inr d assms(1) have "w' = close_conn (stop_watch w2)" "r = r2" by (simp_all add: command_def)
    with command_exchange_received [OF x] v show ?thesis by simp
  qed
qed

lemma fixed_reply_genuine:
  "fixed_reply env ctx c name want w = Some (None, w') \<Longrightarrow> line_received w' want"
  using command_genuine [of env ctx c name False w want w']
  by (auto simp: fixed_reply_def expectReply_iff split: option.splits sum.splits)

lemma Version_genuine:
  "Version env ctx c w = Some ((v, err), w') \<Longrightarrow>
    (err = None \<longrightarrow> v \<noteq> [] \<and> Outcome (ParseScanResponse v) \<noteq> OutcomeError \<and> line_received w' v) \<and> (err \<noteq> None \<longrightarrow> v = [])"
  using command_genuine [of env ctx c "''VERSION''" False w _ w']
  by (auto simp: Version_def text_reply_def Let_def split: option.splits sum.splits if_splits)

lemma Stats_genuine:
  "Stats env ctx c w = Some ((v, err), w') \<Longrightarrow>
    (err = None \<longrightarrow> v \<noteq> [] \<and> Outcome (ParseScanResponse v) \<noteq> OutcomeError \<and> reply_received w' v) \<and> (err \<noteq> None \<longrightarrow> v = [])"
  using command_genuine [of env ctx c "''STATS''" True w _ w']
  by (auto simp: Stats_def text_reply_def Let_def split: option.splits sum.splits if_splits)

subsection \<open>Against the fake\<close>

lemma fake_command:
  assumes live: "ctx_done_at ctx = None" and to: "dialFunc (cfg c) = Some (fake_dial False seg f)"
    and out: "handleConn f (EncodeCommand name) = Closed out"
    and reply: "if block then block_of MaxBlockResponse [] out = (reply, None)
                else \<exists>t. line_of MaxLineResponse [] out = (reply, t, None)"
  shows "\<exists>w'. command env ctx c name block w = Some (Inr reply, w')"
proof -
  let ?d = "ioTimeout (cfg c)" and ?cn = "fake_conn False seg f"
  from dial_fake [OF to, of env ctx w] obtain v where
    v: "dial env ctx c w = Some (Inr ?cn, connected v)" by blast
  from dc_write_live [OF live, of False f "AfterFunc_abort (connected v)" env seg ?d "EncodeCommand name"]
  obtain w1 where w1: "dc_write env ctx ?cn ?d (AfterFunc_abort (connected v)) (EncodeCommand name) =
      ((int (length (EncodeCommand name)), None), w1)" "wire_out w1 = EncodeCommand name" "wire_in w1 = []"
    by auto
  have closed: "fake_closed f (wire_out w1)" and pend: "fake_pending f w1 = out"
    using out w1 by (simp_all add: fake_closed_def fake_pending_def fake_output_def)
  have "\<exists>w2. command_exchange env ctx c ?cn name block (AfterFunc_abort (connected v)) = (Inr reply, w2)"
  proof (cases block)
    case True
    with fake_stream.ReadBlock_stream [of ctx f w1 env False seg ?d MaxBlockResponse] live closed pend reply
    obtain b w2 where "ReadBlock (dc_read env ctx ?cn ?d) MaxBlockResponse new_bufio w1 = ((reply, None), b, w2)"
      by (metis prod.collapse)
    with w1(1) True show ?thesis by (simp add: command_exchange_def)
  next
    case False
    with reply obtain t where "line_of MaxLineResponse [] out = (reply, t, None)" by auto
    with fake_stream.ReadLine_stream [of ctx f w1 env False seg ?d MaxLineResponse] live closed pend
    obtain b w2 where "ReadLine (dc_read env ctx ?cn ?d) MaxLineResponse new_bufio w1 = ((reply, t, None), b, w2)"
      by (metis prod.collapse)
    with w1(1) False show ?thesis by (simp add: command_exchange_def)
  qed
  with v show ?thesis by (auto simp: command_def)
qed

lemma respond_data [simp]: "respond f req = (if Hang (fake_handler f req) then Holding else Closed (Data (fake_handler f req)))"
  by (simp add: respond_def Let_def)

lemma command_exchange_guarded:
  assumes "same_guarded env ctx (ioTimeout (cfg c)) cn cn'"
  shows "command_exchange env ctx c cn name block w = command_exchange env ctx c cn' name block w"
  by (simp only: command_exchange_def Let_def same_guarded_io [OF assms order_refl])

end
