(* ===== verification/Contexts.thy ===== *)
theory Contexts
  imports FileScan Commands
begin

text \<open>
  How the end of a context shows in the errors of every call (\<open>ctxError\<close>, \<open>wrapWriteErr\<close>,
  \<open>wrapReadErr\<close>, \<open>dial\<close> and the callers of them in \<open>client.go\<close>, \<open>conn.go\<close> and \<open>commands.go\<close>): a
  transport failure is reported only while the context was live when the failure was classified, and
  a call whose context is done from the start sends nothing.
\<close>

subsection \<open>Transport failures\<close>

text \<open>Up to the last tick, the context was not done, and its deadline had not passed.\<close>

definition still_live :: "env \<Rightarrow> go_context \<Rightarrow> world \<Rightarrow> bool" where
  "still_live env ctx w \<longleftrightarrow> (\<forall>k. ctx_done_at ctx = Some k \<longrightarrow> clock w \<le> k) \<and>
     (\<forall>dl. ctx_deadline ctx = Some dl \<longrightarrow> e_now env (clock w) < dl)"

text \<open>
  The one transport failure that no failing call stands behind is that of a dial function that
  returned neither a connection nor an error.
\<close>

definition nil_connection :: goerr where
  "nil_connection = ConnectionError ''dial'' (NewError ''dial function returned a nil connection'' [])"

definition blames :: "env \<Rightarrow> go_context \<Rightarrow> goerr option \<Rightarrow> world \<Rightarrow> bool" where
  "blames env ctx err w \<longleftrightarrow>
     (\<forall>op x. err = Some (ConnectionError op x) \<longrightarrow> still_live env ctx w \<or> ConnectionError op x = nil_connection)"

lemma ctxError_still_live: "ctxError env ctx w = (None, w') \<Longrightarrow> still_live env ctx w'"
  by (auto simp: ctxError_def ctx_Err_def time_Now_def still_live_def ctx_done_def Let_def
      split: prod.splits option.splits if_splits)

lemma blames_simps [simp]:
  "blames env ctx None w" "blames env ctx (Some (Errorf f as ws)) w" "blames env ctx (Some (NewError f as)) w"
  "blames env ctx (Some (ClamdError m)) w" "blames env ctx (Some (ProtocolError cmd reply)) w"
  "blames env ctx (Some nil_connection) w" "blames env ctx (Some (clamdErrorFrom resp)) w"
  by (auto simp: blames_def clamdErrorFrom_def nil_connection_def Let_def)

lemma still_live_frame [simp]:
  "still_live env ctx (close_conn w) = still_live env ctx w" "still_live env ctx (stop_watch w) = still_live env ctx w"
  "still_live env ctx (releaseScanSlot c w) = still_live env ctx w" "still_live env ctx (close_file w) = still_live env ctx w"
  by (simp_all add: still_live_def close_conn_def stop_watch_def releaseScanSlot_def close_file_def)

lemma blames_frame [simp]:
  "blames env ctx err (close_conn w) = blames env ctx err w" "blames env ctx err (stop_watch w) = blames env ctx err w"
  "blames env ctx err (releaseScanSlot c w) = blames env ctx err w" "blames env ctx err (close_file w) = blames env ctx err w"
  by (simp_all add: blames_def)

lemma blames_live: "still_live env ctx w \<Longrightarrow> blames env ctx err w"
  by (simp add: blames_def)

lemma wrap_blames:
  "wrapWriteErr env ctx e w = (f, w') \<Longrightarrow> blames env ctx (Some f) w'"
  "wrapReadErr env ctx name e w = (f, w') \<Longrightarrow> blames env ctx (Some f) w'"
  by (auto simp: wrapWriteErr_def wrapReadErr_def intro: blames_live ctxError_still_live
      split: prod.splits option.splits if_splits)

lemma as_result_blames:
  "as_result (wrapWriteErr env ctx e w) = ((res, err), w') \<Longrightarrow> blames env ctx err w'"
  "as_result (wrapReadErr env ctx name e w) = ((res, err), w') \<Longrightarrow> blames env ctx err w'"
  using wrap_blames by (auto simp: as_result_def split: prod.splits)

lemma resultFromLine_blames: "resultFromLine line t = (res, err) \<Longrightarrow> blames env ctx err w"
  by (auto simp: resultFromLine_def Let_def split: outcome.splits if_splits)

lemma recover_blames:
  assumes "recoverStreamError env ctx c cn iot b e w = ((res, err), w')"
  shows "blames env ctx err w'"
proof -
  have wf: "write_failure env ctx e v = ((res, err), w') \<Longrightarrow> blames env ctx err w'" for v
    using as_result_blames(1) by (auto simp: write_failure_def split: option.splits)
  have "recover_reply env ctx cn iot b e v = ((res, err), w') \<Longrightarrow> blames env ctx err w'" for v
    by (auto simp: recover_reply_def Let_def intro: wf split: prod.splits option.splits outcome.splits)
  with assms show ?thesis
    by (auto simp: recoverStreamError_def split: prod.splits option.splits if_splits)
qed

lemma exchange_blames:
  assumes "scan_exchange env ctx c cn src w = Some ((res, err), w')"
  shows "blames env ctx err w'"
  using assms
proof (cases rule: scan_exchange_cases)
  case (unsent n e w1)
  then show ?thesis using as_result_blames(1) by blast
next
  case (stream n w1 k e w2)
  then show ?thesis using recover_blames by blast
next
  case (unread n w1 k w2 line t e b w3)
  then show ?thesis using as_result_blames(2) by blast
next
  case (reply n w1 k w2 line t b)
  then show ?thesis using resultFromLine_blames by blast
qed

lemma dial_blames: "dial env ctx c w = Some (Inl e, w') \<Longrightarrow> blames env ctx (Some e) w'"
  by (auto simp: dial_def Let_def nil_connection_def [symmetric] intro: blames_live ctxError_still_live
      split: prod.splits option.splits if_splits)

lemma acquire_blames: "acquireScanSlot env ctx c w = Some (Some e, w') \<Longrightarrow> blames env ctx (Some e) v"
  using acquireScanSlotD by fastforce

lemma scanStream_blames: "scanStream env ctx c src w = Some ((res, err), w') \<Longrightarrow> blames env ctx err w'"
  by (erule scanStream_cases) (auto dest: dial_blames exchange_blames)

lemma Scan_blames: "Scan env ctx c r w = Some ((res, err), w') \<Longrightarrow> blames env ctx err w'"
  by (auto simp: Scan_def dest: scanStream_blames acquire_blames split: option.splits prod.splits)

lemma ScanBytes_blames: "ScanBytes env ctx c data w = Some ((res, err), w') \<Longrightarrow> blames env ctx err w'"
  by (auto simp: ScanBytes_def dest: Scan_blames split: if_splits)

lemma check_blames [simp]: "blames env ctx (checkScanTarget mx path fi) w"
  by (simp add: checkScanTarget_def)

lemma ScanFile_blames: "ScanFile env ctx c unix fs path w = Some ((res, err), w') \<Longrightarrow> blames env ctx err w'"
  by (auto simp: ScanFile_def scan_path_def scan_descriptor_def Let_def
      dest: scanStream_blames acquire_blames
      split: option.splits sum.splits prod.splits open_answer.splits)

lemma command_blames:
  assumes "command env ctx c name block w = Some (Inl e, w')"
  shows "blames env ctx (Some e) w'"
proof -
  have "blames env ctx (Some e) v'" if "command_exchange env ctx c cn name block v = (Inl e, v')" for cn v v'
    using that by (cases rule: command_exchange_cases) (auto dest: wrap_blames)
  with assms show ?thesis
    by (auto simp: command_def dest: dial_blames split: option.splits sum.splits prod.splits)
qed

text \<open>What is reported instead, failure by failure.\<close>

lemma failures_name_the_context:
  "(ctx_done ctx w \<longrightarrow>
      fst (wrapWriteErr env ctx e w) = Errorf ''clamav: write: %w'' [] [ctx_reason ctx] \<and>
      fst (wrapReadErr env ctx name e w) = Errorf ''clamav: read: %w'' [] [ctx_reason ctx] \<and>
      fst (recoverStreamError env ctx c cn iot br (SinkError (Foreign msg [])) w) =
        (zero_result, Some (Errorf ''clamav: scan aborted: %w'' [] [ctx_reason ctx]))) \<and>
   (\<not> ctx_done ctx (tick env ctx w) \<and> ctx_deadline ctx = Some dl \<and> dl \<le> e_now env (clock w + 2) \<longrightarrow>
      fst (wrapReadErr env ctx name e w) = Errorf ''clamav: read: %w'' [] [CtxDeadlineExceeded] \<and>
      IsRetryable (Some (fst (wrapReadErr env ctx name e w))))"
proof -
  have sink: "\<not> errors_Is (SinkError (Foreign msg [])) ProtoErrSizeLimitExceeded" "as_SourceError (SinkError (Foreign msg [])) = None"
    by (simp_all add: errors_Is_simps as_SourceError_def errors_As_def err_tree_simps)
  have retry: "IsRetryable (Some (Errorf ''clamav: read: %w'' [] [CtxDeadlineExceeded]))"
    by (simp add: IsRetryable_def errors_Is_simps errors_Is_leaf)
  show ?thesis
    using ctx_done_tick [of ctx w env] sink retry
    by (auto simp: wrapWriteErr_def wrapReadErr_def recoverStreamError_def ctxError_def ctx_Err_def time_Now_def Let_def)
qed

subsection \<open>A context that is done from the start\<close>

lemma ctx_reason_Is [simp]: "errors_Is (ctx_reason ctx) (ctx_reason ctx)"
  by (cases "ctx_because ctx") (simp_all add: ctx_reason_def errors_Is_leaf)

lemma ctxError_done: "ctx_done ctx w \<Longrightarrow> ctxError env ctx w = (Some (ctx_reason ctx), tick env ctx w)"
  using ctx_done_tick [of ctx w env] by (simp add: ctxError_def ctx_Err_def Let_def)

lemma dc_write_done:
  "ctx_done ctx w \<Longrightarrow> dc_write env ctx cn d w p = ((0, Some (ctx_reason ctx)), tick env ctx w)"
  using ctx_done_tick [of ctx w env] by (simp add: dc_write_def refresh_def ctx_Err_def Let_def)

lemma dial_done:
  assumes "dial env ctx c w = Some (Inl e, w')" "ctx_done ctx w"
  shows "errors_Is e (ctx_reason ctx) \<or> e = nil_connection"
proof -
  have "ctxError env ctx v = (Some (ctx_reason ctx), tick env ctx v)" if "clock w \<le> clock v" for v
    using ctxError_done ctx_done_mono [OF assms(2) that] by blast
  then have "ctxError env ctx (tick env ctx w) = (Some (ctx_reason ctx), tick env ctx (tick env ctx w))"
    "ctxError env ctx (tick env ctx (tick env ctx w)) = (Some (ctx_reason ctx), tick env ctx (tick env ctx (tick env ctx w)))"
    by simp_all
  with assms(1) show ?thesis
    by (auto simp: dial_def WithTimeout_def time_Now_def nil_connection_def errors_Is_simps Let_def
        split: prod.splits option.splits if_splits)
qed

lemma command_exchange_done:
  assumes "ctx_done ctx w"
  shows "command_exchange env ctx c cn name block w =
    (Inl (Errorf ''clamav: write: %w'' [] [ctx_reason ctx]), tick env ctx (tick env ctx w))"
  using ctxError_done [OF ctx_done_tick [OF assms, of env], of env]
  by (simp add: command_exchange_def dc_write_done [OF assms] wrapWriteErr_def Let_def)

lemma command_done:
  assumes "command env ctx c name block w = Some (r, w')" "ctx_done ctx w"
  shows "(\<exists>e. r = Inl e \<and> (errors_Is e (ctx_reason ctx) \<or> e = nil_connection)) \<and>
    (opened w' \<noteq> opened w \<longrightarrow> wire_out w' = [] \<and> wire_in w' = [])"
proof -
  obtain x w1 where d: "dial env ctx c w = Some (x, w1)"
    using assms(1) by (auto simp: command_def split: option.splits)
  show ?thesis
  proof (cases x)
    case (Inl e)
    with d assms dial_done [of env ctx c w e w1] dialD [OF d] show ?thesis
      by (auto simp: command_def same_books_def)
  next
    case (Inr cn)
    with dialD [OF d] obtain v where v: "w1 = connected v" "clock w < clock v" by auto
    have "ctx_done ctx (AfterFunc_abort w1)"
      by (rule ctx_done_mono [OF assms(2)]) (use v in \<open>simp add: AfterFunc_abort_def connected_def\<close>)
    from command_exchange_done [OF this] d Inr assms(1) v(1) show ?thesis
      by (auto simp: command_def errors_Is_simps)
  qed
qed

text \<open>
  No connection was made, no slot taken, no file opened and nothing read of a source, not even for a
  while: the counters of all that ever was are as they were.
\<close>

definition untouched :: "world \<Rightarrow> world \<Rightarrow> bool" where
  "untouched w w' \<longleftrightarrow> opened w' = opened w \<and> slots_taken w' = slots_taken w \<and>
     files_opened w' = files_opened w \<and> same_sent w w'"

lemma untouched_tick [simp]: "untouched w (tick env ctx v) \<longleftrightarrow> untouched w v"
  by (simp add: untouched_def)

lemma untouched_refl [simp]: "untouched w w"
  by (simp add: untouched_def)

lemma Scan_done:
  "ctx_done ctx w \<Longrightarrow>
    Scan env ctx c (Some src) w = Some ((zero_result, Some (Errorf ''clamav: %w'' [] [ctx_reason ctx])), tick env ctx w)"
  by (simp add: Scan_def acquireScanSlot_done)

lemma ScanBytes_done:
  assumes "ctx_done ctx w"
  shows "\<exists>e w'. ScanBytes env ctx c data w = Some ((zero_result, Some e), w') \<and> untouched w w' \<and>
    (e = Errorf ''clamav: %w'' [] [ctx_reason ctx] \<or>
     errors_Is e ErrSizeLimitExceeded \<and> maxStreamSize (cfg c) \<noteq> NoSizeLimit \<and>
       maxStreamSize (cfg c) < int (length data))"
  using Scan_done [OF assms] by (simp add: ScanBytes_def errors_Is_simps errors_Is_leaf)

text \<open>A file is looked at first; only then the context is asked.\<close>

lemma ScanFile_done:
  assumes "ctx_done ctx w"
  shows "\<exists>e w'. ScanFile env ctx c unix fs path w = Some ((zero_result, Some e), w') \<and> untouched w w' \<and>
    (e = Errorf ''clamav: %w'' [] [ctx_reason ctx] \<or>
     \<not> (\<exists>fi. os_stat fs (tick env ctx w) path = Inr fi \<and> accepted_target (maxStreamSize (cfg c)) fi))"
  using acquireScanSlot_done [OF ctx_done_tick [OF assms], of env c]
  by (auto simp: ScanFile_def Let_def checkScanTarget_iff [of _ path, symmetric] split: sum.split option.split)

end
