(* ===== verification/GoFmt.thy ===== *)
theory GoFmt
  imports GoErrors GoStrings
begin

text \<open>
  What the code uses of Go's \<open>fmt\<close>, \<open>strconv\<close> and \<open>unicode/utf8\<close>, and of the \<open>String\<close>
  methods of \<open>time.Duration\<close> and \<open>os.FileMode\<close>; with them the \<open>Error\<close> methods, that is,
  the text of every error value of \<open>GoErrors\<close>.

  Strings are byte sequences, so quoting decodes UTF-8. Which runes from 0x80 on are printable
  is Unicode's table, an argument \<open>pr\<close> of the definitions; for ASCII it is written out.
\<close>

subsection \<open>Numbers\<close>

definition digit :: "nat \<Rightarrow> char" where
  "digit d = char_of (48 + d)"

fun decimal :: "nat \<Rightarrow> string" where
  "decimal n = (if n < 10 then [digit n] else decimal (n div 10) @ [digit (n mod 10)])"

declare decimal.simps [simp del]

definition decimal_int :: "int \<Rightarrow> string" where
  "decimal_int i = (if i < 0 then CHR ''-'' # decimal (nat (- i)) else decimal (nat i))"

definition hex_digit :: "nat \<Rightarrow> char" where
  "hex_digit d = (if d < 10 then digit d else char_of (87 + d))"

text \<open>The last \<open>k\<close> hexadecimal digits.\<close>

fun hex :: "nat \<Rightarrow> nat \<Rightarrow> string" where
  "hex 0 n = []"
| "hex (Suc k) n = hex k (n div 16) @ [hex_digit (n mod 16)]"

subsection \<open>Durations and file modes\<close>

text \<open>
  \<open>fmtFrac\<close> and \<open>Duration.format\<close>, which write from the last digit to the first. The
  absolute value of an \<open>int64\<close> fits a \<open>uint64\<close>.
\<close>

fun fmtFrac :: "nat \<Rightarrow> nat \<Rightarrow> bool \<Rightarrow> string \<Rightarrow> string \<times> nat" where
  "fmtFrac v 0 pt out = (if pt then CHR ''.'' # out else out, v)"
| "fmtFrac v (Suc i) pt out =
     (let pt' = pt \<or> v mod 10 \<noteq> 0 in
      fmtFrac (v div 10) i pt' (if pt' then digit (v mod 10) # out else out))"

definition sub_second :: "nat \<Rightarrow> string" where
  "sub_second u =
     (case (if u < 1000 then fmtFrac u 0 False ''ns''
            else if u < 1000000 then fmtFrac u 3 False [CHR 0xC2, CHR 0xB5, CHR ''s'']
            else fmtFrac u 6 False ''ms'') of (out, v) \<Rightarrow> decimal v @ out)"

definition with_seconds :: "nat \<Rightarrow> string" where
  "with_seconds u =
     (case fmtFrac u 9 False ''s'' of (out, secs) \<Rightarrow>
        let out = decimal (secs mod 60) @ out; mins = secs div 60 in
        if mins = 0 then out
        else (let out = decimal (mins mod 60) @ CHR ''m'' # out; hours = mins div 60 in
              if hours = 0 then out else decimal hours @ CHR ''h'' # out))"

definition Duration_String :: "int \<Rightarrow> string" where
  "Duration_String d =
     (let u = nat \<bar>d\<bar>;
          out = (if u = 0 then ''0s'' else if u < 1000000000 then sub_second u else with_seconds u)
      in if d < 0 then CHR ''-'' # out else out)"

definition mode_letters :: string where
  "mode_letters = ''dalTLDpSugct?''"

definition FileMode_String :: "32 word \<Rightarrow> string" where
  "FileMode_String m =
     (let kinds = map snd (filter (\<lambda>(i, c). bit m (31 - i)) (List.enumerate 0 mode_letters)) in
      (if kinds = [] then ''-'' else kinds) @
      map (\<lambda>(i, c). if bit m (8 - i) then c else CHR ''-'') (List.enumerate 0 ''rwxrwxrwx''))"

subsection \<open>UTF-8 and strconv.Quote\<close>

definition RuneError :: nat where
  "RuneError = 0xFFFD"

text \<open>The range of the second byte after a first one, and the number of bytes it announces.\<close>

definition accept_range :: "nat \<Rightarrow> nat \<times> nat" where
  "accept_range b =
     (if b = 0xE0 then (0xA0, 0xBF) else if b = 0xED then (0x80, 0x9F)
      else if b = 0xF0 then (0x90, 0xBF) else if b = 0xF4 then (0x80, 0x8F) else (0x80, 0xBF))"

definition rune_width :: "nat \<Rightarrow> nat" where
  "rune_width b = (if 0xC2 \<le> b \<and> b \<le> 0xDF then 2 else if 0xE0 \<le> b \<and> b \<le> 0xEF then 3
     else if 0xF0 \<le> b \<and> b \<le> 0xF4 then 4 else 1)"

definition continuation :: "nat \<Rightarrow> bool" where
  "continuation b \<longleftrightarrow> 0x80 \<le> b \<and> b \<le> 0xBF"

definition decode_tail :: "nat \<Rightarrow> nat list \<Rightarrow> nat \<times> nat" where
  "decode_tail b0 rest =
     (case rest of
        [] \<Rightarrow> (RuneError, 1)
      | b1 # rest1 \<Rightarrow>
          (case accept_range b0 of (lo, hi) \<Rightarrow>
             if b1 < lo \<or> hi < b1 then (RuneError, 1)
             else if rune_width b0 = 2 then ((b0 mod 32) * 64 + b1 mod 64, 2)
             else (case rest1 of
                [] \<Rightarrow> (RuneError, 1)
              | b2 # rest2 \<Rightarrow>
                  if \<not> continuation b2 then (RuneError, 1)
                  else if rune_width b0 = 3 then ((b0 mod 16) * 4096 + (b1 mod 64) * 64 + b2 mod 64, 3)
                  else (case rest2 of
                     [] \<Rightarrow> (RuneError, 1)
                   | b3 # _ \<Rightarrow>
                       if \<not> continuation b3 then (RuneError, 1)
                       else ((b0 mod 8) * 262144 + (b1 mod 64) * 4096 + (b2 mod 64) * 64 + b3 mod 64, 4)))))"

definition DecodeRune :: "nat list \<Rightarrow> nat \<times> nat" where
  "DecodeRune s =
     (case s of
        [] \<Rightarrow> (RuneError, 0)
      | b0 # rest \<Rightarrow>
          if b0 < 0x80 then (b0, 1)
          else if rune_width b0 = 1 then (RuneError, 1)
          else decode_tail b0 rest)"

definition EncodeRune :: "nat \<Rightarrow> nat list" where
  "EncodeRune r =
     (if r < 0x80 then [r]
      else if r < 0x800 then [0xC0 + r div 64, 0x80 + r mod 64]
      else if r < 0x10000 then [0xE0 + r div 4096, 0x80 + (r div 64) mod 64, 0x80 + r mod 64]
      else [0xF0 + r div 262144, 0x80 + (r div 4096) mod 64, 0x80 + (r div 64) mod 64, 0x80 + r mod 64])"

definition IsPrint :: "(nat \<Rightarrow> bool) \<Rightarrow> nat \<Rightarrow> bool" where
  "IsPrint pr r \<longleftrightarrow> (if r < 0x80 then 0x20 \<le> r \<and> r < 0x7F else pr r)"

definition backslash :: char where
  "backslash = CHR 0x5C"

definition escape_rune :: "(nat \<Rightarrow> bool) \<Rightarrow> nat \<Rightarrow> string" where
  "escape_rune pr r =
     (if r = 0x22 \<or> r = 0x5C then [backslash, char_of r]
      else if IsPrint pr r then map char_of (EncodeRune r)
      else if r = 0x07 then [backslash, CHR ''a''] else if r = 0x08 then [backslash, CHR ''b'']
      else if r = 0x0C then [backslash, CHR ''f''] else if r = 0x0A then [backslash, CHR ''n'']
      else if r = 0x0D then [backslash, CHR ''r''] else if r = 0x09 then [backslash, CHR ''t'']
      else if r = 0x0B then [backslash, CHR ''v'']
      else if r < 0x20 \<or> r = 0x7F then [backslash, CHR ''x''] @ hex 2 r
      else if r < 0x10000 then [backslash, CHR ''u''] @ hex 4 r
      else [backslash, CHR ''U''] @ hex 8 r)"

fun quote_body :: "(nat \<Rightarrow> bool) \<Rightarrow> nat list \<Rightarrow> string" where
  "quote_body pr [] = []"
| "quote_body pr (b # s) =
     (case DecodeRune (b # s) of (r, width) \<Rightarrow>
        if width = 1 \<and> r = RuneError then [backslash, CHR ''x''] @ hex 2 b @ quote_body pr s
        else escape_rune pr r @ quote_body pr (drop (width - 1) s))"

definition Quote :: "(nat \<Rightarrow> bool) \<Rightarrow> string \<Rightarrow> string" where
  "Quote pr s = [CHR 0x22] @ quote_body pr (map of_char s) @ [CHR 0x22]"

subsection \<open>fmt.Sprintf\<close>

text \<open>
  The verbs the code uses, each with the operands it uses them for: \<open>%d\<close> with an integer,
  \<open>%s\<close> and \<open>%q\<close> with a string, \<open>%v\<close> with a mode, a duration or the text of an error; \<open>%w\<close> takes the text of
  an error. The operands of the other verbs are in \<open>args\<close>, those of \<open>%w\<close> in \<open>texts\<close>.
\<close>

definition fmt_operand :: "(nat \<Rightarrow> bool) \<Rightarrow> char \<Rightarrow> fmtarg \<Rightarrow> string" where
  "fmt_operand pr verb a =
     (case a of
        FInt i \<Rightarrow> decimal_int i
      | FStr s \<Rightarrow> if verb = CHR ''q'' then Quote pr s else s
      | FMode m \<Rightarrow> FileMode_String m
      | FDur d \<Rightarrow> Duration_String d)"

definition missing :: "char \<Rightarrow> string" where
  "missing verb = ''%!'' @ [verb] @ ''(MISSING)''"

fun Sprintf :: "(nat \<Rightarrow> bool) \<Rightarrow> string \<Rightarrow> fmtarg list \<Rightarrow> string list \<Rightarrow> string" where
  "Sprintf pr [] args texts = []"
| "Sprintf pr [c] args texts = (if c = CHR ''%'' then ''%!(NOVERB)'' else [c])"
| "Sprintf pr (c # v # f) args texts =
     (if c \<noteq> CHR ''%'' then c # Sprintf pr (v # f) args texts
      else if v = CHR ''w''
      then (case texts of
              [] \<Rightarrow> missing v @ Sprintf pr f args []
            | t # ts \<Rightarrow> t @ Sprintf pr f args ts)
      else (case args of
              [] \<Rightarrow> missing v @ Sprintf pr f [] texts
            | a # as \<Rightarrow> fmt_operand pr v a @ Sprintf pr f as texts))"

subsection \<open>The Error methods\<close>

text \<open>
  The methods of the error types, on the text of the error they wrap where they have one.
\<close>

definition ClamdError_Error :: "(nat \<Rightarrow> bool) \<Rightarrow> string \<Rightarrow> string" where
  "ClamdError_Error pr msg = Sprintf pr ''clamav: clamd error: %s'' [FStr msg] []"

definition ProtocolError_Error :: "(nat \<Rightarrow> bool) \<Rightarrow> string \<Rightarrow> string \<Rightarrow> string" where
  "ProtocolError_Error pr command response =
     Sprintf pr ''clamav: unexpected %s response from clamd: %q'' [FStr command, FStr response] []"

definition ConnectionError_Error :: "(nat \<Rightarrow> bool) \<Rightarrow> string \<Rightarrow> string \<Rightarrow> string" where
  "ConnectionError_Error pr oper err = Sprintf pr ''clamav: %s: %v'' [FStr oper, FStr err] []"

definition SourceError_Error :: "string \<Rightarrow> string" where
  "SourceError_Error err = ''reading scan source: '' @ err"

definition SinkError_Error :: "string \<Rightarrow> string" where
  "SinkError_Error err = ''writing to clamd: '' @ err"

definition sourceAbortedError_Error :: "string \<Rightarrow> string" where
  "sourceAbortedError_Error err = err"

text \<open>
  The text of any error: of the sentinels (those of \<open>io\<close>, \<open>os\<close>, \<open>context\<close> and \<open>net/http\<close>
  included), of the error types, and of what \<open>fmt.Errorf\<close> and \<open>errors.New\<close> made. A foreign
  error brings its text.
\<close>

fun Error :: "(nat \<Rightarrow> bool) \<Rightarrow> goerr \<Rightarrow> string" where
  "Error pr ErrSizeLimitExceeded = ''clamav: stream size limit exceeded''"
| "Error pr ProtoErrSizeLimitExceeded = ''stream size limit exceeded''"
| "Error pr ErrResponseTooLarge = ''response exceeds read limit''"
| "Error pr ErrMalformedReply = ''multi-line reply to a single-line command''"
| "Error pr ErrInvalidRead = ''source returned an invalid read count''"
| "Error pr IoEOF = ''EOF''"
| "Error pr IoErrUnexpectedEOF = ''unexpected EOF''"
| "Error pr IoErrNoProgress = ''multiple Read calls return no data or error''"
| "Error pr IoErrShortWrite = ''short write''"
| "Error pr CtxCanceled = ''context canceled''"
| "Error pr CtxDeadlineExceeded = ''context deadline exceeded''"
| "Error pr OsErrDeadlineExceeded = ''i/o timeout''"
| "Error pr HttpMaxBytesError = ''http: request body too large''"
| "Error pr ErrRejected = ''upload rejected''"
| "Error pr (SourceError e) = SourceError_Error (Error pr e)"
| "Error pr (SinkError e) = SinkError_Error (Error pr e)"
| "Error pr (SourceAborted e) = sourceAbortedError_Error (Error pr e)"
| "Error pr (ClamdError msg) = ClamdError_Error pr msg"
| "Error pr (ProtocolError command response) = ProtocolError_Error pr command response"
| "Error pr (ConnectionError oper e) = ConnectionError_Error pr oper (Error pr e)"
| "Error pr (NewError f args) = Sprintf pr f args []"
| "Error pr (Errorf f args es) = Sprintf pr f args (map (Error pr) es)"
| "Error pr (Foreign text es) = text"

subsection \<open>Quoted text is one printable line\<close>

definition visible :: "char \<Rightarrow> bool" where
  "visible c \<longleftrightarrow> 0x20 \<le> (of_char c :: nat) \<and> (of_char c :: nat) \<noteq> 0x7F"

lemma of_char_char_of_small [simp]: "n < 256 \<Longrightarrow> (of_char (char_of n :: char) :: nat) = n" for n :: nat
  by simp

lemma visible_char_of: "0x20 \<le> n \<Longrightarrow> n < 256 \<Longrightarrow> n \<noteq> 0x7F \<Longrightarrow> visible (char_of n)" for n :: nat
  by (simp add: visible_def)

lemma visible_literal:
  "visible (Char b0 b1 b2 b3 b4 b5 b6 b7) \<longleftrightarrow> (b5 \<or> b6 \<or> b7) \<and> \<not> (b0 \<and> b1 \<and> b2 \<and> b3 \<and> b4 \<and> b5 \<and> b6 \<and> \<not> b7)"
  by (cases b0; cases b1; cases b2; cases b3; cases b4; cases b5; cases b6; cases b7) (simp_all add: visible_def)

lemma visible_hex_digit: "d < 16 \<Longrightarrow> visible (hex_digit d)"
  by (auto simp: hex_digit_def digit_def visible_def)

lemma visible_hex: "c \<in> set (hex k n) \<Longrightarrow> visible c"
  by (induction k n rule: hex.induct) (auto intro: visible_hex_digit)

lemma visible_decimal: "c \<in> set (decimal n) \<Longrightarrow> visible c"
proof (induction n rule: decimal.induct)
  case (1 n)
  then show ?case
    by (cases "n < 10") (auto simp: decimal.simps [of n] digit_def intro!: visible_char_of)
qed

text \<open>What was decoded: an ASCII byte, a byte that starts no valid encoding, or a sequence.\<close>

lemma DecodeRune_cases [consumes 1, case_names ascii bad two three four]:
  assumes "DecodeRune (b0 # s) = (r, width)"
  obtains (ascii) "b0 < 0x80" "r = b0" "width = 1"
  | (bad) "\<not> b0 < 0x80" "r = RuneError" "width = 1"
  | (two) b1 s' where "s = b1 # s'" "0xC2 \<le> b0" "b0 \<le> 0xDF" "0x80 \<le> b1" "b1 \<le> 0xBF"
      "r = (b0 mod 32) * 64 + b1 mod 64" "width = 2"
  | (three) b1 b2 s' where "s = b1 # b2 # s'" "0xE0 \<le> b0" "b0 \<le> 0xEF" "0x80 \<le> b1" "b1 \<le> 0xBF"
      "0x80 \<le> b2" "b2 \<le> 0xBF" "b0 = 0xE0 \<longrightarrow> 0xA0 \<le> b1"
      "r = (b0 mod 16) * 4096 + (b1 mod 64) * 64 + b2 mod 64" "width = 3"
  | (four) b1 b2 b3 s' where "s = b1 # b2 # b3 # s'" "0xF0 \<le> b0" "b0 \<le> 0xF4" "0x80 \<le> b1" "b1 \<le> 0xBF"
      "0x80 \<le> b2" "b2 \<le> 0xBF" "0x80 \<le> b3" "b3 \<le> 0xBF" "b0 = 0xF0 \<longrightarrow> 0x90 \<le> b1"
      "r = (b0 mod 8) * 262144 + (b1 mod 64) * 4096 + (b2 mod 64) * 64 + b3 mod 64" "width = 4"
proof -
  obtain lo hi where ar: "accept_range b0 = (lo, hi)" by (metis prod.collapse)
  then have lh: "0x80 \<le> lo" "hi \<le> 0xBF" "b0 = 0xE0 \<longrightarrow> 0xA0 \<le> lo" "b0 = 0xF0 \<longrightarrow> 0x90 \<le> lo"
    unfolding accept_range_def by (simp_all split: if_splits)
  show thesis
  proof (cases "b0 < 0x80 \<or> (r = RuneError \<and> width = 1)")
    case True
    show thesis
    proof (cases "b0 < 0x80")
      case True
      with assms show thesis by (intro ascii) (simp_all add: DecodeRune_def)
    next
      case False
      with \<open>b0 < 0x80 \<or> (r = RuneError \<and> width = 1)\<close> show thesis by (intro bad) simp_all
    qed
  next
    case False
    with assms have t: "decode_tail b0 s = (r, width)" "rune_width b0 \<noteq> 1"
      by (auto simp: DecodeRune_def split: if_splits)
    with False obtain b1 s1 where s: "s = b1 # s1" "lo \<le> b1" "b1 \<le> hi"
      by (auto simp: decode_tail_def ar split: list.splits if_splits)
    consider (w2) "rune_width b0 = 2" | (w3) "rune_width b0 = 3" | (w4) "rune_width b0 = 4"
      using t(2) by (auto simp: rune_width_def split: if_splits)
    then show thesis
    proof cases
      case w2
      with t s ar have "r = (b0 mod 32) * 64 + b1 mod 64" "width = 2"
        by (auto simp: decode_tail_def)
      with w2 s lh show thesis by (intro two [of b1 s1]) (auto simp: rune_width_def split: if_splits)
    next
      case w3
      with t s ar False obtain b2 s2 where "s1 = b2 # s2" "continuation b2"
        "r = (b0 mod 16) * 4096 + (b1 mod 64) * 64 + b2 mod 64" "width = 3"
        by (auto simp: decode_tail_def split: list.splits if_splits)
      with w3 s lh show thesis
        by (intro three [of b1 b2 s2]) (auto simp: rune_width_def continuation_def split: if_splits)
    next
      case w4
      with t s ar False obtain b2 b3 s3 where "s1 = b2 # b3 # s3" "continuation b2" "continuation b3"
        "r = (b0 mod 8) * 262144 + (b1 mod 64) * 4096 + (b2 mod 64) * 64 + b3 mod 64" "width = 4"
        by (auto simp: decode_tail_def split: list.splits if_splits)
      with w4 s lh show thesis
        by (intro four [of b1 b2 b3 s3]) (auto simp: rune_width_def continuation_def split: if_splits)
    qed
  qed
qed

text \<open>Numbers written with digits of 64, and the low bits of the bytes of a sequence.\<close>

lemma low_bits: "k dvd c \<Longrightarrow> d < k \<Longrightarrow> (c + d) mod k = d" for c d k :: nat
  by (metis add.left_neutral dvd_eq_mod_eq_0 mod_add_left_eq mod_less)

lemma sequence_byte:
  fixes b lo hi k :: nat
  assumes "lo \<le> b" "b \<le> hi" "k dvd lo" "hi - lo < k"
  obtains d where "b = lo + d" "b mod k = d" "d \<le> hi - lo"
proof (rule that [of "b - lo"])
  have "b - lo < k" using assms by linarith
  then show "b mod k = b - lo" using low_bits [of k lo "b - lo"] assms by simp
qed (use assms in simp_all)

lemma digits_64:
  fixes x y z :: nat
  assumes "y < 64" "z < 64"
  shows "(x * 64 + z) div 64 = x" "(x * 64 + z) mod 64 = z"
    "(x * 4096 + y * 64 + z) div 4096 = x" "(x * 4096 + y * 64 + z) div 64 = x * 64 + y"
    "(x * 4096 + y * 64 + z) mod 64 = z"
proof -
  have e: "x * 4096 + y * 64 + z = (x * 64 + y) * 64 + z" by simp
  show "(x * 64 + z) div 64 = x" "(x * 64 + z) mod 64 = z" using assms(2) by simp_all
  show "(x * 4096 + y * 64 + z) mod 64 = z" unfolding e using assms(2) by (simp only: mod_mult_self3 mod_less)
  show "(x * 4096 + y * 64 + z) div 64 = x * 64 + y" using assms by (intro div_nat_eqI) simp_all
  show "(x * 4096 + y * 64 + z) div 4096 = x" using assms by (intro div_nat_eqI) simp_all
qed

lemma Encode_two:
  assumes "2 \<le> x" "x < 32" "y < 64"
  shows "EncodeRune (x * 64 + y) = [0xC0 + x, 0x80 + y]"
proof -
  have "\<not> x * 64 + y < 0x80" "x * 64 + y < 0x800" using assms by simp_all
  then show ?thesis using digits_64 [of y y x] assms by (simp add: EncodeRune_def)
qed

lemma Encode_three:
  assumes "x = 0 \<longrightarrow> 32 \<le> y" "x < 16" "y < 64" "z < 64"
  shows "EncodeRune (x * 4096 + y * 64 + z) = [0xE0 + x, 0x80 + y, 0x80 + z]"
proof -
  have "0x800 \<le> x * 4096 + y * 64 + z" using assms by (cases "x = 0") simp_all
  moreover have "x * 4096 + y * 64 + z < 0x10000" using assms by simp
  ultimately show ?thesis
    using digits_64 [of y z x] digits_64(2) [of y y x] assms by (simp add: EncodeRune_def)
qed

lemma Encode_four:
  assumes "x = 0 \<longrightarrow> 16 \<le> y" "x < 8" "y < 64" "z < 64" "u < 64"
  shows "EncodeRune (x * 262144 + y * 4096 + z * 64 + u) = [0xF0 + x, 0x80 + y, 0x80 + z, 0x80 + u]"
proof -
  define r where "r = x * 262144 + y * 4096 + z * 64 + u"
  have e: "r = (x * 64 + y) * 4096 + z * 64 + u" by (simp add: r_def)
  have "0x10000 \<le> r" using assms unfolding r_def by (cases "x = 0") simp_all
  moreover have "r div 262144 = x" unfolding r_def using assms by (intro div_nat_eqI) simp_all
  moreover have "r div 4096 = x * 64 + y" "r div 64 = (x * 64 + y) * 64 + z" "r mod 64 = u"
    unfolding e using digits_64 [of z u "x * 64 + y"] assms by simp_all
  ultimately show ?thesis
    using digits_64(2) [of z y x] digits_64(2) [of y z "x * 64 + y"] assms
    unfolding r_def [symmetric] by (simp add: EncodeRune_def)
qed

text \<open>Encoding gives back the bytes that were decoded.\<close>

lemma Encode_Decode:
  assumes "DecodeRune (b0 # s) = (r, width)" "\<not> (width = 1 \<and> r = RuneError)"
  shows "EncodeRune r = take width (b0 # s)"
  using assms(1)
proof (cases rule: DecodeRune_cases)
  case ascii
  then show ?thesis by (simp add: EncodeRune_def)
next
  case bad
  with assms(2) show ?thesis by simp
next
  case (two b1 s')
  obtain x where x: "b0 = 0xC0 + x" "b0 mod 32 = x" "x \<le> 0xDF - 0xC0"
    by (rule sequence_byte [of "0xC0" b0 "0xDF" 32]) (use two in auto)
  obtain y where y: "b1 = 0x80 + y" "b1 mod 64 = y" "y \<le> 0xBF - 0x80"
    by (rule sequence_byte [of "0x80" b1 "0xBF" 64]) (use two in auto)
  from two x y show ?thesis using Encode_two [of x y] by simp
next
  case (three b1 b2 s')
  obtain x where x: "b0 = 0xE0 + x" "b0 mod 16 = x" "x \<le> 0xEF - 0xE0"
    by (rule sequence_byte [of "0xE0" b0 "0xEF" 16]) (use three in auto)
  obtain y where y: "b1 = 0x80 + y" "b1 mod 64 = y" "y \<le> 0xBF - 0x80"
    by (rule sequence_byte [of "0x80" b1 "0xBF" 64]) (use three in auto)
  obtain z where z: "b2 = 0x80 + z" "b2 mod 64 = z" "z \<le> 0xBF - 0x80"
    by (rule sequence_byte [of "0x80" b2 "0xBF" 64]) (use three in auto)
  from three x y z show ?thesis using Encode_three [of x y z] by simp
next
  case (four b1 b2 b3 s')
  obtain x where x: "b0 = 0xF0 + x" "b0 mod 8 = x" "x \<le> 0xF4 - 0xF0"
    by (rule sequence_byte [of "0xF0" b0 "0xF4" 8]) (use four in auto)
  obtain y where y: "b1 = 0x80 + y" "b1 mod 64 = y" "y \<le> 0xBF - 0x80"
    by (rule sequence_byte [of "0x80" b1 "0xBF" 64]) (use four in auto)
  obtain z where z: "b2 = 0x80 + z" "b2 mod 64 = z" "z \<le> 0xBF - 0x80"
    by (rule sequence_byte [of "0x80" b2 "0xBF" 64]) (use four in auto)
  obtain u where u: "b3 = 0x80 + u" "b3 mod 64 = u" "u \<le> 0xBF - 0x80"
    by (rule sequence_byte [of "0x80" b3 "0xBF" 64]) (use four in auto)
  from four x y z u show ?thesis using Encode_four [of x y z u] by simp
qed

lemma EncodeRune_high: "0x80 \<le> r \<Longrightarrow> n \<in> set (EncodeRune r) \<Longrightarrow> 0x80 \<le> n"
  by (auto simp: EncodeRune_def split: if_splits)

lemma rune_bytes_small:
  assumes "DecodeRune (b # s) = (r, width)" "\<not> (width = 1 \<and> r = RuneError)" "set (b # s) \<subseteq> {..<256}"
  shows "set (EncodeRune r) \<subseteq> {..<256}"
  using Encode_Decode [OF assms(1,2)] assms(3) set_take_subset [of width "b # s"] by auto

lemma escape_rune_visible:
  assumes "set (EncodeRune r) \<subseteq> {..<256}" "c \<in> set (escape_rune pr r)"
  shows "visible c"
proof (cases "r \<noteq> 0x22 \<and> r \<noteq> 0x5C \<and> IsPrint pr r")
  case True
  with assms(2) obtain n where n: "c = char_of n" "n \<in> set (EncodeRune r)"
    by (auto simp: escape_rune_def)
  then have "n < 256" using assms(1) by auto
  show ?thesis
  proof (cases "r < 0x80")
    case True
    with n \<open>r \<noteq> 0x22 \<and> r \<noteq> 0x5C \<and> IsPrint pr r\<close> show ?thesis
      by (auto simp: EncodeRune_def IsPrint_def intro!: visible_char_of)
  next
    case False
    with n EncodeRune_high [of r n] \<open>n < 256\<close> show ?thesis by (auto intro: visible_char_of)
  qed
next
  case False
  then show ?thesis using assms(2)
    by (auto simp: escape_rune_def backslash_def visible_literal split: if_splits
        intro: visible_hex intro!: visible_char_of simp del: hex.simps)
qed

lemma quote_body_visible:
  "set s \<subseteq> {..<256} \<Longrightarrow> c \<in> set (quote_body pr s) \<Longrightarrow> visible c"
proof (induction pr s rule: quote_body.induct)
  case (2 pr b s)
  obtain r width where d: "DecodeRune (b # s) = (r, width)" by (metis prod.collapse)
  have bs: "visible backslash" "visible (CHR ''x'')" by (simp_all add: backslash_def visible_def)
  show ?case
  proof (cases "width = 1 \<and> r = RuneError")
    case True
    with 2 d bs show ?thesis by (auto simp del: hex.simps intro: visible_hex)
  next
    case False
    have "set (drop (width - 1) s) \<subseteq> {..<256}" using "2.prems"(1) set_drop_subset [of "width - 1" s] by auto
    with 2(2) [OF d [symmetric] False] "2.prems" d False
      escape_rune_visible [OF rune_bytes_small [OF d False "2.prems"(1)], of c pr]
    show ?thesis by (auto split: if_splits)
  qed
qed simp

lemma Quote_visible: "c \<in> set (Quote pr s) \<Longrightarrow> visible c"
proof -
  have "set (map of_char s) \<subseteq> {..<256 :: nat}" by auto
  then have "c \<in> set (quote_body pr (map of_char s)) \<Longrightarrow> visible c" by (rule quote_body_visible)
  then show "c \<in> set (Quote pr s) \<Longrightarrow> visible c" by (auto simp: Quote_def visible_literal)
qed

subsection \<open>Quoted text can be read back\<close>

text \<open>The reference: reading what \<open>strconv.Quote\<close> writes.\<close>

definition hex_value :: "char \<Rightarrow> nat" where
  "hex_value c = (if of_char c < (58 :: nat) then of_char c - 48 else of_char c - 87)"

definition unhex :: "string \<Rightarrow> nat" where
  "unhex s = foldl (\<lambda>n c. n * 16 + hex_value c) 0 s"

definition simple_escape :: "char \<Rightarrow> nat option" where
  "simple_escape c = map_of [(CHR 0x22, 0x22), (CHR 0x5C, 0x5C), (CHR ''a'', 0x07), (CHR ''b'', 0x08),
     (CHR ''f'', 0x0C), (CHR ''n'', 0x0A), (CHR ''r'', 0x0D), (CHR ''t'', 0x09), (CHR ''v'', 0x0B)] c"

fun unquote_body :: "string \<Rightarrow> nat list option" where
  "unquote_body [] = Some []"
| "unquote_body [c] = (if c = backslash \<or> c = CHR 0x22 then None else Some [of_char c])"
| "unquote_body (c # d # s) =
     (if c = CHR 0x22 then None
      else if c \<noteq> backslash then map_option (Cons (of_char c)) (unquote_body (d # s))
      else if d = CHR ''x'' then map_option (Cons (unhex (take 2 s))) (unquote_body (drop 2 s))
      else if d = CHR ''u'' then map_option ((@) (EncodeRune (unhex (take 4 s)))) (unquote_body (drop 4 s))
      else if d = CHR ''U'' then map_option ((@) (EncodeRune (unhex (take 8 s)))) (unquote_body (drop 8 s))
      else (case simple_escape d of
              None \<Rightarrow> None
            | Some n \<Rightarrow> map_option (Cons n) (unquote_body s)))"

definition unquote :: "string \<Rightarrow> string option" where
  "unquote q =
     (if length q < 2 \<or> hd q \<noteq> CHR 0x22 \<or> last q \<noteq> CHR 0x22 then None
      else map_option (map char_of) (unquote_body (butlast (tl q))))"

lemma length_hex [simp]: "length (hex k n) = k"
  by (induction k n rule: hex.induct) simp_all

lemma hex_value_digit: "d < 16 \<Longrightarrow> hex_value (hex_digit d) = d"
  by (auto simp: hex_value_def hex_digit_def digit_def)

lemma unhex_hex: "n < 16 ^ k \<Longrightarrow> unhex (hex k n) = n"
proof (induction k n rule: hex.induct)
  case (2 k n)
  then have "n div 16 < 16 ^ k" by (simp add: less_mult_imp_div_less)
  with 2 show ?case by (simp add: unhex_def hex_value_digit)
qed (simp add: unhex_def)

lemma unquote_plain:
  "c \<noteq> backslash \<Longrightarrow> c \<noteq> CHR 0x22 \<Longrightarrow> unquote_body (c # s) = map_option (Cons (of_char c)) (unquote_body s)"
  by (cases s) simp_all

lemma unquote_bytes:
  "(\<And>n. n \<in> set ns \<Longrightarrow> n < 256 \<and> n \<noteq> 0x22 \<and> n \<noteq> 0x5C) \<Longrightarrow>
    unquote_body (map char_of ns @ s) = map_option ((@) ns) (unquote_body s)"
proof (induction ns)
  case (Cons n ns)
  then have n: "n < 256" "n \<noteq> 0x22" "n \<noteq> 0x5C" by auto
  then have "(of_char (char_of n :: char) :: nat) \<noteq> of_char (CHR 0x22)" "(of_char (char_of n :: char) :: nat) \<noteq> of_char (CHR 0x5C)"
    by simp_all
  then have "char_of n \<noteq> CHR 0x22" "char_of n \<noteq> backslash" unfolding backslash_def by metis+
  with Cons n show ?case by (simp add: unquote_plain option.map_comp comp_def)
next
  case Nil
  have "(@) [] = (\<lambda>x :: nat list. x)" by (simp add: fun_eq_iff)
  then show ?case by (simp add: option.map_ident)
qed

lemma unquote_coded:
  "n < 16 ^ 2 \<Longrightarrow> unquote_body (backslash # CHR ''x'' # hex 2 n @ s) = map_option (Cons n) (unquote_body s)"
  "n < 16 ^ 4 \<Longrightarrow> unquote_body (backslash # CHR ''u'' # hex 4 n @ s) = map_option ((@) (EncodeRune n)) (unquote_body s)"
  "n < 16 ^ 8 \<Longrightarrow> unquote_body (backslash # CHR ''U'' # hex 8 n @ s) = map_option ((@) (EncodeRune n)) (unquote_body s)"
  using unhex_hex [of n 2] unhex_hex [of n 4] unhex_hex [of n 8]
  by (simp_all add: backslash_def del: hex.simps)

definition escape_letters :: "(nat \<times> char) list" where
  "escape_letters = [(0x07, CHR ''a''), (0x08, CHR ''b''), (0x0C, CHR ''f''), (0x0A, CHR ''n''),
     (0x0D, CHR ''r''), (0x09, CHR ''t''), (0x0B, CHR ''v'')]"

lemma quoted_chars: "char_of (34 :: nat) = CHR 0x22" "char_of (92 :: nat) = CHR 0x5C"
  by code_simp+

lemma escape_rune_read:
  assumes "set (EncodeRune r) \<subseteq> {..<256}" "r < 16 ^ 8"
  shows "unquote_body (escape_rune pr r @ s) = map_option ((@) (EncodeRune r)) (unquote_body s)"
proof -
  have ascii: "EncodeRune n = [n]" if "n < 0x80" for n using that by (simp add: EncodeRune_def)
  have cons: "(@) [n] = Cons n" for n :: nat by (simp add: fun_eq_iff)
  consider (quoted) "r = 0x22 \<or> r = 0x5C" | (raw) "r \<noteq> 0x22" "r \<noteq> 0x5C" "IsPrint pr r"
    | (escaped) "r \<noteq> 0x22" "r \<noteq> 0x5C" "\<not> IsPrint pr r" by blast
  then show ?thesis
  proof cases
    case quoted
    then show ?thesis
      by (auto simp: escape_rune_def backslash_def simple_escape_def quoted_chars ascii cons)
  next
    case raw
    have "n < 256 \<and> n \<noteq> 0x22 \<and> n \<noteq> 0x5C" if n: "n \<in> set (EncodeRune r)" for n
      using n assms(1) raw(1,2) ascii [of r] EncodeRune_high [of r n] by (cases "r < 0x80") auto
    then show ?thesis using raw by (simp add: escape_rune_def unquote_bytes)
  next
    case escaped
    consider (named) "r \<in> {0x07, 0x08, 0x0C, 0x0A, 0x0D, 0x09, 0x0B}"
      | (control) "r \<notin> {0x07, 0x08, 0x0C, 0x0A, 0x0D, 0x09, 0x0B}" "r < 0x20 \<or> r = 0x7F"
      | (coded) "r \<notin> {0x07, 0x08, 0x0C, 0x0A, 0x0D, 0x09, 0x0B}" "\<not> (r < 0x20 \<or> r = 0x7F)" by blast
    then show ?thesis
    proof cases
      case named
      then have "r < 0x80" by auto
      moreover have "escape_rune pr r = [backslash, the (map_of escape_letters r)] \<and>
        simple_escape (the (map_of escape_letters r)) = Some r \<and>
        the (map_of escape_letters r) \<notin> {CHR ''x'', CHR ''u'', CHR ''U''}"
        using named unfolding insert_iff empty_iff
        by (elim disjE FalseE) (simp_all add: escape_rune_def IsPrint_def simple_escape_def escape_letters_def)
      ultimately show ?thesis by (simp add: ascii cons backslash_def)
    next
      case control
      then have "escape_rune pr r = [backslash, CHR ''x''] @ hex 2 r" "r < 16 ^ 2" "r < 0x80"
        using escaped by (auto simp: escape_rune_def simp del: hex.simps)
      then show ?thesis using unquote_coded(1) [of r s] by (simp add: ascii cons del: hex.simps)
    next
      case coded
      then have "escape_rune pr r = (if r < 0x10000 then [backslash, CHR ''u''] @ hex 4 r else [backslash, CHR ''U''] @ hex 8 r)"
        using escaped by (simp add: escape_rune_def del: hex.simps)
      then show ?thesis using unquote_coded(2,3) [of r s] assms(2) by (simp del: hex.simps)
    qed
  qed
qed

lemma decoded_small:
  assumes "DecodeRune (b # s) = (r, width)"
  shows "r < 16 ^ 8 \<and> 1 \<le> width"
  using assms
proof (cases rule: DecodeRune_cases)
  case (two b1 s')
  have "b mod 32 < 32" "b1 mod 64 < 64" by simp_all
  with two show ?thesis by simp
next
  case (three b1 b2 s')
  have "b mod 16 < 16" "b1 mod 64 < 64" "b2 mod 64 < 64" by simp_all
  with three show ?thesis by simp
next
  case (four b1 b2 b3 s')
  have "b mod 8 < 8" "b1 mod 64 < 64" "b2 mod 64 < 64" "b3 mod 64 < 64" by simp_all
  with four show ?thesis by simp
qed (auto simp: RuneError_def)

lemma quote_body_read: "set s \<subseteq> {..<256} \<Longrightarrow> unquote_body (quote_body pr s) = Some s"
proof (induction pr s rule: quote_body.induct)
  case (2 pr b s)
  obtain r width where d: "DecodeRune (b # s) = (r, width)" by (metis prod.collapse)
  show ?case
  proof (cases "width = 1 \<and> r = RuneError")
    case True
    with 2 d show ?thesis using unquote_coded(1) [of b "quote_body pr s"] by (simp del: hex.simps)
  next
    case False
    have "set (drop (width - 1) s) \<subseteq> {..<256}" using "2.prems" set_drop_subset [of "width - 1" s] by auto
    with 2(2) [OF d [symmetric] False]
    have rest: "unquote_body (quote_body pr (drop (width - 1) s)) = Some (drop (width - 1) s)" by simp
    have "EncodeRune r @ drop (width - 1) s = take width (b # s) @ drop width (b # s)"
      using Encode_Decode [OF d False] decoded_small [OF d] by (cases width) simp_all
    moreover have "quote_body pr (b # s) = escape_rune pr r @ quote_body pr (drop (width - 1) s)"
      using d False by (auto simp del: hex.simps)
    ultimately show ?thesis
      using rest escape_rune_read [OF rune_bytes_small [OF d False "2.prems"], of pr] decoded_small [OF d]
      by (simp del: quote_body.simps)
  qed
qed simp

lemma unquote_Quote: "unquote (Quote pr s) = Some s"
proof -
  have "set (map of_char s) \<subseteq> {..<256 :: nat}" by auto
  from quote_body_read [OF this, of pr] show ?thesis
    by (simp add: unquote_def Quote_def comp_def butlast_append)
qed

end
