(* ===== verification/GoParse.thy ===== *)
theory GoParse
  imports GoErrors
begin

text \<open>
  The parsers of the standard library behind the flags of \<open>examples/basicscan\<close>:
  \<open>strconv.ParseInt(s, 0, 64)\<close> for \<open>flag.Int64\<close> and \<open>time.ParseDuration\<close> for \<open>flag.Duration\<close>. A
  \<open>uint64\<close> is a natural number, with the overflows the code checks for, and the one it does not,
  written out. A positive \<open>float64\<close> is a pair of a significand and an exponent; the values at hand
  are far from the ends of its range.
\<close>

definition is_digit :: "char \<Rightarrow> bool" where
  "is_digit c \<longleftrightarrow> 48 \<le> (of_char c :: nat) \<and> (of_char c :: nat) \<le> 57"

definition digit_value :: "char \<Rightarrow> nat" where
  "digit_value c = of_char c - 48"

definition lower_letter :: "char \<Rightarrow> nat" where
  "lower_letter c = (let n = of_char c in if 65 \<le> n \<and> n \<le> 90 then n + 32 else n)"

subsection \<open>strconv.ParseInt\<close>

datatype num_error = ErrSyntax | ErrRange

text \<open>Digits of any base up to 36, with underscores where the base comes from a prefix.\<close>

definition numeral_value :: "char \<Rightarrow> nat option" where
  "numeral_value c =
     (if is_digit c then Some (digit_value c)
      else if 97 \<le> lower_letter c \<and> lower_letter c \<le> 122 then Some (lower_letter c - 97 + 10)
      else None)"

fun uint_digits :: "nat \<Rightarrow> nat \<Rightarrow> bool \<Rightarrow> string \<Rightarrow> num_error + (nat \<times> bool)" where
  "uint_digits base n underscores [] = Inr (n, underscores)"
| "uint_digits base n underscores (c # s) =
     (if c = CHR ''_'' then uint_digits base n True s
      else (case numeral_value c of
          None \<Rightarrow> Inl ErrSyntax
        | Some d \<Rightarrow>
            if d \<ge> base then Inl ErrSyntax
            else if n \<ge> (2 ^ 64 - 1) div base + 1 \<or> n * base + d > 2 ^ 64 - 1 then Inl ErrRange
            else uint_digits base (n * base + d) underscores s))"

definition strip_sign :: "string \<Rightarrow> bool \<times> string" where
  "strip_sign s =
     (case s of
        [] \<Rightarrow> (False, [])
      | c # s' \<Rightarrow> if c = CHR ''+'' \<or> c = CHR ''-'' then (c = CHR ''-'', s') else (False, s))"

definition base_prefix :: "string \<Rightarrow> (nat \<times> nat) option" where
  "base_prefix s =
     (if length s \<ge> 2 \<and> hd s = CHR ''0''
      then (if lower_letter (s ! 1) = of_char (CHR ''b'') then Some (2, 2)
            else if lower_letter (s ! 1) = of_char (CHR ''o'') then Some (8, 2)
            else if lower_letter (s ! 1) = of_char (CHR ''x'') then Some (16, 2)
            else None)
      else None)"

text \<open>What was seen last: the start, a digit or base prefix, an underscore, anything else.\<close>

datatype seen = AtStart | Digit | Underscore | Other

fun underscores_ok :: "bool \<Rightarrow> seen \<Rightarrow> string \<Rightarrow> bool" where
  "underscores_ok hexa i [] \<longleftrightarrow> i \<noteq> Underscore"
| "underscores_ok hexa i (c # s) \<longleftrightarrow>
     (if is_digit c \<or> hexa \<and> 97 \<le> lower_letter c \<and> lower_letter c \<le> 102 then underscores_ok hexa Digit s
      else if c = CHR ''_'' then i = Digit \<and> underscores_ok hexa Underscore s
      else i \<noteq> Underscore \<and> underscores_ok hexa Other s)"

definition underscoreOK :: "string \<Rightarrow> bool" where
  "underscoreOK s0 =
     (let s = snd (strip_sign s0) in
      (case base_prefix s of
         None \<Rightarrow> underscores_ok False AtStart s
       | Some (b, k) \<Rightarrow> underscores_ok (b = 16) Digit (drop k s)))"

definition ParseUint :: "string \<Rightarrow> num_error + nat" where
  "ParseUint s0 =
     (if s0 = [] then Inl ErrSyntax
      else (case (if hd s0 = CHR ''0''
                  then (case base_prefix s0 of
                      Some (b, k) \<Rightarrow> if length s0 \<ge> 3 then (b, drop k s0) else (8, drop 1 s0)
                    | None \<Rightarrow> (8, drop 1 s0))
                  else (10, s0)) of (base, s) \<Rightarrow>
        (case uint_digits base 0 False s of
           Inl e \<Rightarrow> Inl e
         | Inr (n, underscores) \<Rightarrow> if underscores \<and> \<not> underscoreOK s0 then Inl ErrSyntax else Inr n)))"

definition ParseInt :: "string \<Rightarrow> num_error + int" where
  "ParseInt s0 =
     (if s0 = [] then Inl ErrSyntax
      else (case strip_sign s0 of (neg, s) \<Rightarrow>
        (case ParseUint s of
           Inl e \<Rightarrow> Inl e
         | Inr un \<Rightarrow>
             if \<not> neg \<and> un \<ge> 2 ^ 63 \<or> neg \<and> un > 2 ^ 63 then Inl ErrRange
             else Inr (if neg then - int un else int un))))"

subsection \<open>float64\<close>

fun log2_floor :: "nat \<Rightarrow> nat" where
  "log2_floor n = (if n < 2 then 0 else Suc (log2_floor (n div 2)))"

declare log2_floor.simps [simp del]

text \<open>\<open>n / d\<close> to the nearest significand of 53 bits, ties to even.\<close>

definition float_div :: "nat \<Rightarrow> nat \<Rightarrow> nat \<times> int" where
  "float_div n d =
     (let s = 52 - (int (log2_floor n) - int (log2_floor d));
          s = (if n * 2 ^ nat s < 2 ^ 52 * d * 2 ^ nat (- s) then s + 1 else s);
          num = n * 2 ^ nat s; den = d * 2 ^ nat (- s); m = num div den; r = num mod den
      in (if 2 * r > den \<or> 2 * r = den \<and> odd m then m + 1 else m, - s))"

text \<open>A number divided by a \<open>float64\<close>.\<close>

definition float_over :: "nat \<Rightarrow> nat \<times> int \<Rightarrow> nat \<times> int" where
  "float_over n x = (case x of (m, e) \<Rightarrow> case float_div n m of (k, c) \<Rightarrow> (k, c - e))"

definition float_mult :: "nat \<times> int \<Rightarrow> nat \<times> int \<Rightarrow> nat \<times> int" where
  "float_mult x y =
     (case (x, y) of ((m, a), (n, b)) \<Rightarrow>
        case float_div (m * n) 1 of (k, c) \<Rightarrow> (k, a + b + c))"

definition float_trunc :: "nat \<times> int \<Rightarrow> nat" where
  "float_trunc x = (case x of (m, e) \<Rightarrow> m * 2 ^ nat e div 2 ^ nat (- e))"

subsection \<open>time.ParseDuration\<close>

fun leadingInt :: "nat \<Rightarrow> string \<Rightarrow> (nat \<times> string) option" where
  "leadingInt x [] = Some (x, [])"
| "leadingInt x (c # s) =
     (if \<not> is_digit c then Some (x, c # s)
      else if x > 2 ^ 63 div 10 \<or> x * 10 + digit_value c > 2 ^ 63 then None
      else leadingInt (x * 10 + digit_value c) s)"

text \<open>The digits of a fraction that still fit, their number, and the rest.\<close>

fun leadingFraction :: "nat \<Rightarrow> nat \<Rightarrow> bool \<Rightarrow> string \<Rightarrow> nat \<times> nat \<times> string" where
  "leadingFraction x k overflow [] = (x, k, [])"
| "leadingFraction x k overflow (c # s) =
     (if \<not> is_digit c then (x, k, c # s)
      else if overflow \<or> x > (2 ^ 63 - 1) div 10 \<or> x * 10 + digit_value c > 2 ^ 63
      then leadingFraction x k True s
      else leadingFraction (x * 10 + digit_value c) (Suc k) False s)"

text \<open>The scale of a fraction, multiplied by 10 for each of its digits.\<close>

fun fraction_scale :: "nat \<Rightarrow> nat \<times> int" where
  "fraction_scale 0 = float_div 1 1"
| "fraction_scale (Suc k) = float_mult (fraction_scale k) (float_div 10 1)"

definition unit_map :: "(string \<times> nat) list" where
  "unit_map = [(''ns'', 1), (''us'', 1000), ([CHR 0xC2, CHR 0xB5, CHR ''s''], 1000), ([CHR 0xCE, CHR 0xBC, CHR ''s''], 1000),
     (''ms'', 1000000), (''s'', 1000000000), (''m'', 60000000000), (''h'', 3600000000000)]"

definition unit_char :: "char \<Rightarrow> bool" where
  "unit_char c \<longleftrightarrow> c \<noteq> CHR ''.'' \<and> \<not> is_digit c"

text \<open>One number with its unit, in nanoseconds.\<close>

definition duration_term :: "string \<Rightarrow> (nat \<times> string) option" where
  "duration_term s =
     (if s = [] \<or> \<not> (hd s = CHR ''.'' \<or> is_digit (hd s)) then None
      else (case leadingInt 0 s of
          None \<Rightarrow> None
        | Some (v, s1) \<Rightarrow>
            (case (if s1 \<noteq> [] \<and> hd s1 = CHR ''.'' then leadingFraction 0 0 False (tl s1) else (0, 0, s1)) of
               (f, k, s2) \<Rightarrow>
                 let pre = length s1 \<noteq> length s;
                     post = s1 \<noteq> [] \<and> hd s1 = CHR ''.'' \<and> length s2 \<noteq> length (tl s1);
                     u = takeWhile unit_char s2 in
                 if \<not> pre \<and> \<not> post \<or> u = [] then None
                 else (case map_of unit_map u of
                     None \<Rightarrow> None
                   | Some unit \<Rightarrow>
                       if v > 2 ^ 63 div unit then None
                       else let v1 = v * unit;
                           v2 = (if f > 0 then v1 + float_trunc (float_mult (float_div f 1) (float_over unit (fraction_scale k)))
                             else v1) in
                         if f > 0 \<and> v2 > 2 ^ 63 then None else Some (v2, dropWhile unit_char s2)))))"

lemma leadingInt_shorter: "leadingInt x s = Some (v, s') \<Longrightarrow> length s' \<le> length s"
  by (induction x s rule: leadingInt.induct) (auto split: if_splits)

lemma leadingFraction_shorter: "leadingFraction x k b s = (f, k', s') \<Longrightarrow> length s' \<le> length s"
  by (induction x k b s rule: leadingFraction.induct) (auto split: if_splits)

lemma duration_term_shorter:
  assumes "duration_term s = Some (v, s')"
  shows "length s' < length s"
proof -
  obtain s1 f k s2 where int: "\<exists>v. leadingInt 0 s = Some (v, s1)"
    and frac: "(if s1 \<noteq> [] \<and> hd s1 = CHR ''.'' then leadingFraction 0 0 False (tl s1) else (0, 0, s1)) = (f, k, s2)"
    and u: "takeWhile unit_char s2 \<noteq> []" and s': "s' = dropWhile unit_char s2"
    using assms
    by (auto simp: duration_term_def Let_def split: if_splits option.splits prod.splits)
  have "length s2 \<le> length s1"
    using frac leadingFraction_shorter [of 0 0 False "tl s1" f k s2] by (auto split: if_splits)
  moreover have "length s1 \<le> length s" using int leadingInt_shorter by blast
  moreover have "length s' < length s2"
    using u s' takeWhile_dropWhile_id [of unit_char s2] by (metis length_append length_greater_0_conv less_add_same_cancel2)
  ultimately show ?thesis by simp
qed

text \<open>The sum of the terms is checked only after it may have wrapped around to zero.\<close>

function duration_terms :: "nat \<Rightarrow> string \<Rightarrow> nat option" where
  "duration_terms d s =
     (if s = [] then Some d
      else (case duration_term s of
          None \<Rightarrow> None
        | Some (v, s') \<Rightarrow> let d' = (d + v) mod 2 ^ 64 in if d' > 2 ^ 63 then None else duration_terms d' s'))"
  by pat_completeness auto
termination
  by (relation "measure (\<lambda>(d, s). length s)") (auto dest: duration_term_shorter)

declare duration_terms.simps [simp del]

definition ParseDuration :: "string \<Rightarrow> int option" where
  "ParseDuration s0 =
     (case strip_sign s0 of (neg, s) \<Rightarrow>
        if s = ''0'' then Some 0
        else if s = [] then None
        else (case duration_terms 0 s of
            None \<Rightarrow> None
          | Some d \<Rightarrow> if neg then Some (- int d) else if d > 2 ^ 63 - 1 then None else Some (int d)))"

subsection \<open>Bounds\<close>

text \<open>What the parsers return fits an \<open>int64\<close>.\<close>

lemma ParseInt_range: "ParseInt s = Inr i \<Longrightarrow> - (2 ^ 63) \<le> i \<and> i < 2 ^ 63"
  by (auto simp: ParseInt_def split: if_splits prod.splits sum.splits)

lemma duration_terms_le: "duration_terms d s = Some v \<Longrightarrow> d \<le> 2 ^ 63 \<Longrightarrow> v \<le> 2 ^ 63"
proof (induction d s rule: duration_terms.induct)
  case (1 d s)
  from "1.prems" "1.IH" show ?case
    by (subst (asm) duration_terms.simps) (auto simp: Let_def split: if_splits option.splits prod.splits)
qed

lemma ParseDuration_range:
  assumes "ParseDuration s = Some d"
  shows "- (2 ^ 63) \<le> d \<and> d < 2 ^ 63"
  using assms duration_terms_le [of 0 "snd (strip_sign s)"]
  by (auto simp: ParseDuration_def split: if_splits option.splits prod.splits)

text \<open>The digits are read from the left.\<close>

lemma uint_digits_append:
  "uint_digits base n b (s @ t) =
     (case uint_digits base n b s of Inl e \<Rightarrow> Inl e | Inr (m, b') \<Rightarrow> uint_digits base m b' t)"
  by (induction base n b s rule: uint_digits.induct) (auto split: option.splits)

subsection \<open>Readings\<close>

lemmas number_values = is_digit_def digit_value_def lower_letter_def numeral_value_def strip_sign_def base_prefix_def

lemma ParseInt_readings:
  "ParseInt ''0x10'' = Inr 16" "ParseInt ''-1_000'' = Inr (- 1000)" "ParseInt ''010'' = Inr 8"
  "ParseInt ''9223372036854775808'' = Inl ErrRange"
  by (simp_all add: ParseInt_def ParseUint_def underscoreOK_def number_values)

lemma ParseDuration_readings:
  "ParseDuration ''2m'' = Some 120000000000" "ParseDuration ''-1h30s'' = Some (- 3630000000000)"
  "ParseDuration ''1'' = None"
  by (simp_all add: ParseDuration_def duration_terms.simps [of _ "_ # _"] duration_terms.simps [of _ "[]"]
      duration_term_def unit_char_def unit_map_def Let_def number_values)

end
