(* ===== verification/Flags.thy ===== *)
theory Flags
  imports GoFmt GoParse
begin

text \<open>
  What the example programs use of Go's \<open>flag\<close> package: \<open>flag.Parse\<close> on the arguments of the
  command, with flags that take a value. A flag is a name and what \<open>Set\<close> does with the value
  given, a failure (its text) or a change of the options, which start as the defaults.
\<close>

type_synonym 'v flag_defs = "(string \<times> (string \<Rightarrow> 'v \<Rightarrow> string + 'v)) list"

datatype flag_error =
    BadSyntax string
  | NotDefined string
  | NeedsArgument string
  | InvalidValue string string string
  | HelpWanted

text \<open>The name of a flag and the value after \<open>=\<close>, if there is one.\<close>

definition split_flag :: "string \<Rightarrow> string \<times> string option" where
  "split_flag s =
     (case IndexByte s (CHR ''='') of
        None \<Rightarrow> (s, None)
      | Some i \<Rightarrow> (take i s, Some (drop (Suc i) s)))"

text \<open>Flags end at \<open>--\<close> or at the first argument that is not a flag.\<close>

function flag_Parse :: "'v flag_defs \<Rightarrow> 'v \<Rightarrow> string list \<Rightarrow> flag_error + ('v \<times> string list)" where
  "flag_Parse defs v [] = Inr (v, [])"
| "flag_Parse defs v (s # args) =
     (if length s < 2 \<or> hd s \<noteq> CHR ''-'' then Inr (v, s # args)
      else if s = ''--'' then Inr (v, args)
      else (let body = (if s ! 1 = CHR ''-'' then drop 2 s else drop 1 s) in
        if body = [] \<or> hd body = CHR ''-'' \<or> hd body = CHR ''='' then Inl (BadSyntax s)
        else (case split_flag body of (name, given) \<Rightarrow>
          (case map_of defs name of
             None \<Rightarrow> if name = ''help'' \<or> name = ''h'' then Inl HelpWanted else Inl (NotDefined name)
           | Some set_value \<Rightarrow>
               (case given of
                  Some x \<Rightarrow>
                    (case set_value x v of
                       Inl why \<Rightarrow> Inl (InvalidValue x name why)
                     | Inr v' \<Rightarrow> flag_Parse defs v' args)
                | None \<Rightarrow>
                    (case args of
                       [] \<Rightarrow> Inl (NeedsArgument name)
                     | x # args' \<Rightarrow>
                         (case set_value x v of
                            Inl why \<Rightarrow> Inl (InvalidValue x name why)
                          | Inr v' \<Rightarrow> flag_Parse defs v' args')))))))"
  by pat_completeness auto
termination
  by (relation "measure (\<lambda>(defs, v, args). length args)") auto

declare flag_Parse.simps(2) [simp del]

text \<open>\<open>flag.CommandLine\<close> exits on an error: with 0 after help was asked for, with 2 otherwise.\<close>

definition flag_exit :: "flag_error \<Rightarrow> int" where
  "flag_exit e = (if e = HelpWanted then 0 else 2)"

definition string_flag :: "(string \<Rightarrow> 'v \<Rightarrow> 'v) \<Rightarrow> string \<Rightarrow> 'v \<Rightarrow> string + 'v" where
  "string_flag put s v = Inr (put s v)"

text \<open>The values of \<open>flag.Int64\<close> and \<open>flag.Duration\<close>, with the texts of \<open>numError\<close> and \<open>errParse\<close>.\<close>

definition int64_flag :: "(int \<Rightarrow> 'v \<Rightarrow> 'v) \<Rightarrow> string \<Rightarrow> 'v \<Rightarrow> string + 'v" where
  "int64_flag put s v =
     (case ParseInt s of
        Inl ErrSyntax \<Rightarrow> Inl ''parse error''
      | Inl ErrRange \<Rightarrow> Inl ''value out of range''
      | Inr n \<Rightarrow> Inr (put n v))"

definition duration_flag :: "(int \<Rightarrow> 'v \<Rightarrow> 'v) \<Rightarrow> string \<Rightarrow> 'v \<Rightarrow> string + 'v" where
  "duration_flag put s v =
     (case ParseDuration s of None \<Rightarrow> Inl ''parse error'' | Some d \<Rightarrow> Inr (put d v))"

text \<open>Arguments without a flag are taken as they are.\<close>

lemma flag_Parse_plain: "hd s \<noteq> CHR ''-'' \<Longrightarrow> flag_Parse defs v (s # args) = Inr (v, s # args)"
  by (simp add: flag_Parse.simps(2))

text \<open>The first argument ends the flags or sets one of them.\<close>

lemma flag_Parse_step:
  assumes "flag_Parse defs v (s # args) = Inr (v', rest)"
  obtains "v' = v"
  | name put x u args' where "(name, put) \<in> set defs" "put x v = Inr u" "length args' \<le> length args"
      "flag_Parse defs u args' = Inr (v', rest)"
proof (cases "length s < 2 \<or> hd s \<noteq> CHR ''-'' \<or> s = ''--''")
  case True
  with assms that(1) show thesis by (auto simp: flag_Parse.simps(2) split: if_splits)
next
  case False
  note run = assms [unfolded flag_Parse.simps(2) [of defs v s args]]
  obtain name given where split: "split_flag (if s ! 1 = CHR ''-'' then drop 2 s else drop 1 s) = (name, given)"
    by fastforce
  with run False obtain put where put: "map_of defs name = Some put"
    by (auto simp: Let_def split: if_splits option.splits)
  have "\<exists>x u args'. put x v = Inr u \<and> length args' \<le> length args \<and> flag_Parse defs u args' = Inr (v', rest)"
  proof (cases given)
    case None
    with run False split put show ?thesis
      by (cases args) (auto simp: Let_def split: if_splits sum.splits intro: le_SucI)
  next
    case (Some x)
    with run False split put show ?thesis by (auto simp: Let_def split: if_splits sum.splits)
  qed
  with map_of_SomeD [OF put] that(2) show thesis by blast
qed

text \<open>What every flag keeps of the options, the whole command line keeps.\<close>

lemma flag_Parse_keeps:
  assumes run: "flag_Parse defs v args = Inr (v', rest)" and start: "P v"
    and keeps: "\<And>name put x u u'. \<lbrakk>(name, put) \<in> set defs; P u; put x u = Inr u'\<rbrakk> \<Longrightarrow> P u'"
  shows "P v'"
  using run start
proof (induction args arbitrary: v rule: length_induct)
  case (1 args)
  show ?case
  proof (cases args)
    case Nil
    with "1.prems" show ?thesis by simp
  next
    case (Cons s args1)
    from "1.prems"(1) [unfolded Cons] show ?thesis
    proof (cases rule: flag_Parse_step)
      case 1
      with \<open>P v\<close> show ?thesis by simp
    next
      case (2 name put x u args')
      then have "length args' < length args" using Cons by simp
      moreover have "P u" using keeps [OF 2(1) \<open>P v\<close> 2(2)] .
      ultimately show ?thesis using "1.IH" 2(4) by blast
    qed
  qed
qed

subsection \<open>Integers are read back\<close>

lemma digit_char: "d < 10 \<Longrightarrow> is_digit (digit d) \<and> digit_value (digit d) = d"
  by (simp add: is_digit_def digit_value_def digit_def)

lemma uint_digits_digit:
  assumes "d < 10" "10 * n + d < 2 ^ 64"
  shows "uint_digits 10 n b [digit d] = Inr (10 * n + d, b)"
proof -
  have "digit d \<noteq> CHR ''_''" using digit_char [OF assms(1)] by (auto simp: is_digit_def)
  moreover have "numeral_value (digit d) = Some d" using digit_char [OF assms(1)] by (simp add: numeral_value_def)
  ultimately show ?thesis using assms by simp
qed

lemma uint_digits_decimal: "n < 2 ^ 64 \<Longrightarrow> uint_digits 10 0 b (decimal n) = Inr (n, b)"
proof (induction n rule: decimal.induct)
  case (1 n)
  show ?case
  proof (cases "n < 10")
    case True
    with uint_digits_digit [of n 0 b] show ?thesis by (simp add: decimal.simps [of n])
  next
    case False
    with 1 have "uint_digits 10 0 b (decimal (n div 10)) = Inr (n div 10, b)" by simp
    with False show ?thesis
      using uint_digits_digit [of "n mod 10" "n div 10" b] 1(2)
      by (simp add: decimal.simps [of n] uint_digits_append del: uint_digits.simps)
  qed
qed

lemma decimal_first: "\<exists>d s. decimal n = digit d # s \<and> d < 10 \<and> (n > 0 \<longrightarrow> d > 0)"
proof (induction n rule: decimal.induct)
  case (1 n)
  then show ?case by (cases "n < 10") (auto simp: decimal.simps [of n])
qed

lemma ParseUint_decimal:
  assumes "n < 2 ^ 64"
  shows "ParseUint (decimal n) = Inr n"
proof (cases "n = 0")
  case True
  moreover have "decimal 0 = ''0''" by code_simp
  ultimately show ?thesis by (simp add: ParseUint_def base_prefix_def)
next
  case False
  then obtain d s where d: "decimal n = digit d # s" "0 < d" "d < 10" using decimal_first [of n] by blast
  then have "digit d \<noteq> CHR ''0''" using digit_char [of d] by (auto simp: digit_value_def)
  then have "decimal n \<noteq> []" "hd (decimal n) \<noteq> CHR ''0''" using d(1) by simp_all
  with uint_digits_decimal [OF assms, of False] show ?thesis by (simp add: ParseUint_def)
qed

lemma strip_sign_decimal: "strip_sign (decimal n) = (False, decimal n)"
proof -
  obtain d s where d: "decimal n = digit d # s" "d < 10" using decimal_first [of n] by blast
  then have "is_digit (digit d)" using digit_char by blast
  then have "digit d \<noteq> CHR ''+''" "digit d \<noteq> CHR ''-''" by (auto simp: is_digit_def)
  with d(1) show ?thesis by (simp add: strip_sign_def)
qed

text \<open>An \<open>int64\<close> given in decimal is the value the flag gets.\<close>

lemma ParseInt_decimal:
  assumes "- (2 ^ 63) \<le> i" "i < 2 ^ 63"
  shows "ParseInt (decimal_int i) = Inr i"
proof (cases "i < 0")
  case True
  with assms have "nat (- i) \<le> 2 ^ 63" by simp
  with True ParseUint_decimal [of "nat (- i)"] show ?thesis
    by (simp add: ParseInt_def decimal_int_def strip_sign_def)
next
  case False
  obtain d s where "decimal (nat i) = digit d # s" using decimal_first by blast
  with False assms ParseUint_decimal [of "nat i"] strip_sign_decimal [of "nat i"] show ?thesis
    by (simp add: ParseInt_def decimal_int_def)
qed

lemma int64_flag_decimal:
  "- (2 ^ 63) \<le> i \<Longrightarrow> i < 2 ^ 63 \<Longrightarrow> int64_flag put (decimal_int i) v = Inr (put i v)"
  by (simp add: int64_flag_def ParseInt_decimal)

end
