(* ===== verification/Examples.thy ===== *)
theory Examples
  imports Commands FileScan Flags
begin

text \<open>
  Two programs that use the library (\<open>examples/\<close>): the upload gate of \<open>mockscan\<close> and the
  command \<open>basicscan\<close>, from its arguments to what it prints and its exit code.

  \<open>mockscan\<close> defines the interface it needs (\<open>scanner\<close>), which \<open>Client\<close> satisfies: here a
  locale with the fail-closed contract as its law, interpreted on \<open>Scan\<close>. What \<open>flag\<close> itself prints about
  wrong arguments is left out.
\<close>

subsection \<open>mockscan: UploadGate\<close>

type_synonym scanner_fn = "go_context \<Rightarrow> source option \<Rightarrow> world \<Rightarrow> (scan_outcome \<times> world) option"

record upload_gate =
  Scanner :: scanner_fn

definition gate_error :: "scan_outcome \<Rightarrow> goerr option" where
  "gate_error out =
     (case out of (res, err) \<Rightarrow>
        (case err of
           Some e \<Rightarrow>
             if IsRetryable err
             then Some (Errorf ''%w: scan failed, retry later: %w'' [] [ErrRejected, e])
             else Some (Errorf ''%w: scan failed: %w'' [] [ErrRejected, e])
         | None \<Rightarrow>
             if \<not> Clean res
             then Some (Errorf ''%w: malware detected (%s)'' [FStr (ResultSignature res)] [ErrRejected])
             else None))"

definition Accept ::
  "upload_gate \<Rightarrow> go_context \<Rightarrow> source option \<Rightarrow> world \<Rightarrow> (goerr option \<times> world) option" where
  "Accept g ctx upload w = map_option (\<lambda>(out, w1). (gate_error out, w1)) (Scanner g ctx upload w)"

lemma gate_error_None: "gate_error (res, err) = None \<longleftrightarrow> err = None \<and> Verdict res = VerdictClean"
  by (cases err) (simp_all add: gate_error_def Clean_def)

locale scanner =
  fixes scan :: scanner_fn
  assumes contract: "scan ctx r w = Some (out, w') \<Longrightarrow> fail_closed out"
begin

lemma Accept_clean:
  assumes "Accept \<lparr>Scanner = scan\<rparr> ctx upload w = Some (None, w')"
  shows "\<exists>res. scan ctx upload w = Some ((res, None), w') \<and> Verdict res = VerdictClean"
  using assms by (auto simp: Accept_def gate_error_None)

lemma Accept_rejects:
  assumes "Accept \<lparr>Scanner = scan\<rparr> ctx upload w = Some (Some e, w')"
  shows "errors_Is e ErrRejected \<and>
    (\<exists>res err. scan ctx upload w = Some ((res, err), w') \<and> (err = None \<longrightarrow> Verdict res = VerdictInfected))"
proof -
  from assms obtain res err where s: "scan ctx upload w = Some ((res, err), w')" and g: "gate_error (res, err) = Some e"
    by (auto simp: Accept_def)
  have "errors_Is e ErrRejected"
    using g by (auto simp: gate_error_def errors_Is_simps errors_Is_leaf split: option.splits if_splits)
  moreover have "err = None \<longrightarrow> Verdict res = VerdictInfected"
    using contract [OF s] g by (auto simp: fail_closed_def gate_error_def Clean_def)
  ultimately show ?thesis using s by blast
qed

end

interpretation client_scanner: scanner "\<lambda>ctx r w. Scan env ctx c r w" for env c
  by unfold_locales (rule fail_closed_Scan)

subsection \<open>basicscan\<close>

datatype report = ReportUnknown string "goerr option" | ReportInfected string string | ReportClean string

definition report_of :: "string \<Rightarrow> scan_outcome \<Rightarrow> report \<times> int" where
  "report_of path out =
     (case out of (res, err) \<Rightarrow>
        if err \<noteq> None then (ReportUnknown path err, 2)
        else if Infected res then (ReportInfected path (ResultSignature res), 1)
        else if Clean res then (ReportClean path, 0)
        else (ReportUnknown path None, 2))"

fun scan_args ::
  "env \<Rightarrow> client \<Rightarrow> bool \<Rightarrow> file_sys \<Rightarrow> time \<Rightarrow> string list \<Rightarrow> int \<Rightarrow> world \<Rightarrow> ((report list \<times> int) \<times> world) option" where
  "scan_args env c unix fs timeout [] exit w = Some (([], exit), w)"
| "scan_args env c unix fs timeout (path # paths) exit w =
     (case WithTimeout env background timeout w of (ctx, w1) \<Rightarrow>
        (case ScanFile env ctx c unix fs path w1 of
           None \<Rightarrow> None
         | Some (out, w2) \<Rightarrow>
             (case report_of path out of (rep, code) \<Rightarrow>
                map_option (\<lambda>((reps, x), w3). ((rep # reps, x), w3))
                  (scan_args env c unix fs timeout paths (max exit code) w2))))"

definition minute :: time where
  "minute = 60 * second"

record scan_flags =
  sf_addr :: string
  sf_timeout :: time
  sf_max_size :: int

definition basicscan_defaults :: scan_flags where
  "basicscan_defaults =
     \<lparr>sf_addr = ''unix:///run/clamav/clamd.sock'', sf_timeout = 2 * minute, sf_max_size = 25 * 2 ^ 20\<rparr>"

definition basicscan_flags :: "scan_flags flag_defs" where
  "basicscan_flags =
     [(''addr'', string_flag (\<lambda>s v. v\<lparr>sf_addr := s\<rparr>)),
      (''timeout'', duration_flag (\<lambda>d v. v\<lparr>sf_timeout := d\<rparr>)),
      (''max-size'', int64_flag (\<lambda>n v. v\<lparr>sf_max_size := n\<rparr>))]"

text \<open>The options of the command line fit an \<open>int64\<close>, and a size given in decimal is the limit.\<close>

lemma basicscan_flags_range:
  assumes "flag_Parse basicscan_flags basicscan_defaults args = Inr (fl, paths)"
  shows "- (2 ^ 63) \<le> sf_timeout fl \<and> sf_timeout fl < 2 ^ 63 \<and>
    - (2 ^ 63) \<le> sf_max_size fl \<and> sf_max_size fl < 2 ^ 63"
proof (rule flag_Parse_keeps [OF assms])
  show "- (2 ^ 63) \<le> sf_timeout basicscan_defaults \<and> sf_timeout basicscan_defaults < 2 ^ 63 \<and>
    - (2 ^ 63) \<le> sf_max_size basicscan_defaults \<and> sf_max_size basicscan_defaults < 2 ^ 63"
    by (simp add: basicscan_defaults_def minute_def second_def)
next
  fix name put x and u u' :: scan_flags
  assume "(name, put) \<in> set basicscan_flags" "put x u = Inr u'"
    and "- (2 ^ 63) \<le> sf_timeout u \<and> sf_timeout u < 2 ^ 63 \<and> - (2 ^ 63) \<le> sf_max_size u \<and> sf_max_size u < 2 ^ 63"
  then show "- (2 ^ 63) \<le> sf_timeout u' \<and> sf_timeout u' < 2 ^ 63 \<and>
    - (2 ^ 63) \<le> sf_max_size u' \<and> sf_max_size u' < 2 ^ 63"
    by (auto simp: basicscan_flags_def string_flag_def int64_flag_def duration_flag_def
        split: sum.splits num_error.splits option.splits dest!: ParseInt_range ParseDuration_range)
qed

lemma max_size_given:
  assumes "- (2 ^ 63) \<le> n" "n < 2 ^ 63" "hd path \<noteq> CHR ''-''"
  shows "flag_Parse basicscan_flags basicscan_defaults (''-max-size'' # decimal_int n # path # paths) =
    Inr (basicscan_defaults\<lparr>sf_max_size := n\<rparr>, path # paths)"
proof -
  have split: "split_flag ''max-size'' = (''max-size'', None)" by code_simp
  have flag: "map_of basicscan_flags ''max-size'' = Some (int64_flag (\<lambda>n v. v\<lparr>sf_max_size := n\<rparr>))"
    by (simp add: basicscan_flags_def)
  show ?thesis
    by (subst flag_Parse.simps(2)) (simp add: split flag int64_flag_decimal [OF assms(1,2)] flag_Parse_plain [OF assms(3)])
qed

definition newline :: string where
  "newline = [CHR 0x0A]"

definition report_text :: "(nat \<Rightarrow> bool) \<Rightarrow> report \<Rightarrow> string" where
  "report_text pr rep =
     (case rep of
        ReportUnknown path (Some err) \<Rightarrow>
          Sprintf pr (''%s: UNKNOWN (%v)'' @ newline) [FStr path, FStr (Error pr err)] []
      | ReportUnknown path None \<Rightarrow>
          Sprintf pr (''%s: UNKNOWN (indeterminate verdict)'' @ newline) [FStr path] []
      | ReportInfected path sig \<Rightarrow> Sprintf pr (''%s: INFECTED (%s)'' @ newline) [FStr path, FStr sig] []
      | ReportClean path \<Rightarrow> Sprintf pr (''%s: clean'' @ newline) [FStr path] [])"

record command_run =
  stdout :: "string list"
  stderr :: "string list"
  exit_code :: int

definition basicscan ::
  "env \<Rightarrow> dial_func \<Rightarrow> bool \<Rightarrow> file_sys \<Rightarrow> (nat \<Rightarrow> bool) \<Rightarrow> string list \<Rightarrow> world \<Rightarrow> (command_run \<times> world) option" where
  "basicscan env net_dial unix fs pr args w =
     (case flag_Parse basicscan_flags basicscan_defaults args of
        Inl e \<Rightarrow> Some (\<lparr>stdout = [], stderr = [], exit_code = flag_exit e\<rparr>, w)
      | Inr (fl, paths) \<Rightarrow>
          if paths = []
          then Some (\<lparr>stdout = [], stderr = [''usage: basicscan [-addr ADDR] file [file...]'' @ newline],
                      exit_code = 2\<rparr>, w)
          else (case New net_dial (sf_addr fl) [Some (WithMaxStreamSize (sf_max_size fl))] of
             Inl err \<Rightarrow>
               Some (\<lparr>stdout = [], stderr = [''basicscan: '' @ Error pr err @ newline], exit_code = 2\<rparr>, w)
           | Inr c \<Rightarrow>
               map_option (\<lambda>((reps, exit), w1).
                   (\<lparr>stdout = map (report_text pr) reps, stderr = [], exit_code = exit\<rparr>, w1))
                 (scan_args env c unix fs (sf_timeout fl) paths 0 w)))"

definition code_of :: "report \<Rightarrow> int" where
  "code_of r = (case r of ReportUnknown _ _ \<Rightarrow> 2 | ReportInfected _ _ \<Rightarrow> 1 | ReportClean _ \<Rightarrow> 0)"

definition path_of :: "report \<Rightarrow> string" where
  "path_of r = (case r of ReportUnknown p _ \<Rightarrow> p | ReportInfected p _ \<Rightarrow> p | ReportClean p \<Rightarrow> p)"

lemma report_of_code: "report_of path out = (rep, code) \<Longrightarrow> code = code_of rep \<and> path_of rep = path"
  by (auto simp: report_of_def code_of_def path_of_def split: prod.splits if_splits)

text \<open>The exit code is the worst of the reports, one report per file in the files' order.\<close>

lemma scan_args_reports:
  "scan_args env c unix fs timeout paths exit w = Some ((reps, x), w') \<Longrightarrow>
    map path_of reps = paths \<and> x = foldl max exit (map code_of reps)"
  by (induction paths arbitrary: exit w reps)
    (auto split: prod.splits option.splits dest!: report_of_code)

lemma foldl_max_le: "(foldl max a xs \<le> b) = (a \<le> b \<and> (\<forall>x \<in> set xs. x \<le> b))" for a b :: int
  by (induction xs arbitrary: a) auto

lemma code_of_range: "0 \<le> code_of r" "code_of r \<le> 2"
  by (cases r; simp add: code_of_def)+

lemma foldl_max_zero:
  "foldl max 0 (map code_of reps) = 0 \<longleftrightarrow> (\<forall>r \<in> set reps. code_of r = 0)"
proof -
  have "0 \<le> foldl max 0 (map code_of reps)"
    using foldl_max_le [of 0 "map code_of reps" "foldl max 0 (map code_of reps)"] by simp
  then have "foldl max 0 (map code_of reps) = 0 \<longleftrightarrow> foldl max 0 (map code_of reps) \<le> 0" by simp
  also have "\<dots> \<longleftrightarrow> (\<forall>r \<in> set reps. code_of r = 0)"
    using code_of_range(1) by (auto simp: foldl_max_le intro: antisym)
  finally show ?thesis .
qed

lemma report_of_clean: "report_of path (res, err) = (ReportClean p, code) \<Longrightarrow> p = path \<and> err = None \<and> Clean res"
  by (auto simp: report_of_def split: if_splits)

lemma scan_args_clean:
  assumes "scan_args env c unix fs timeout paths exit w = Some ((reps, x), w')" "ReportClean p \<in> set reps"
  shows "\<exists>u ctx v res v'. WithTimeout env background timeout u = (ctx, v) \<and>
    ScanFile env ctx c unix fs p v = Some ((res, None), v') \<and> Clean res"
  using assms
proof (induction paths arbitrary: exit w reps)
  case Nil
  then show ?case by simp
next
  case (Cons path paths)
  obtain ctx w1 where c: "WithTimeout env background timeout w = (ctx, w1)" by (metis prod.collapse)
  with Cons.prems obtain res err w2 where s: "ScanFile env ctx c unix fs path w1 = Some ((res, err), w2)"
    by (auto split: option.splits)
  obtain rep code where r: "report_of path (res, err) = (rep, code)" by (metis prod.collapse)
  from Cons.prems(1) c s r obtain reps' where
    rest: "scan_args env c unix fs timeout paths (max exit code) w2 = Some ((reps', x), w')" "reps = rep # reps'"
    by auto
  show ?case
  proof (cases "rep = ReportClean p")
    case True
    with report_of_clean [of path res err p code] r s c show ?thesis by blast
  next
    case False
    with Cons.prems(2) rest Cons.IH [OF rest(1)] show ?thesis by auto
  qed
qed

lemma foldl_max_range: "foldl max 0 (map code_of reps) \<in> {0, 1, 2}"
proof -
  have "foldl max a (map code_of reps) \<in> {0, 1, 2}" if "a \<in> {0, 1, 2}" for a
    using that by (induction reps arbitrary: a) (auto simp: code_of_def max_def split: report.splits)
  then show ?thesis by simp
qed

lemma all_clean_reports: "(\<forall>r \<in> set reps. code_of r = 0) \<longleftrightarrow> reps = map ReportClean (map path_of reps)"
  by (induction reps) (auto simp: code_of_def path_of_def split: report.splits)

text \<open>What is printed for a file says which report it was.\<close>

definition clean_line :: "string \<Rightarrow> string" where
  "clean_line path = path @ '': clean'' @ newline"

lemma report_text_clean_iff: "report_text pr rep = clean_line (path_of rep) \<longleftrightarrow> rep = ReportClean (path_of rep)"
  by (auto simp: report_text_def clean_line_def path_of_def fmt_operand_def newline_def
      split: report.splits option.splits)

lemma report_lines_clean_iff:
  "map (report_text pr) reps = map clean_line (map path_of reps) \<longleftrightarrow> reps = map ReportClean (map path_of reps)"
  by (induction reps) (auto simp: report_text_clean_iff)

lemma scan_args_exit_zero:
  assumes "scan_args env c unix fs timeout paths 0 w = Some ((reps, x), w')"
  shows "x = 0 \<longleftrightarrow> map (report_text pr) reps = map clean_line paths"
  using scan_args_reports [OF assms] foldl_max_zero [of reps] all_clean_reports [of reps]
    report_lines_clean_iff [of pr reps] by simp

lemma scan_args_clean_line:
  assumes "scan_args env c unix fs timeout paths exit w = Some ((reps, x), w')" "i < length paths"
    and "report_text pr (reps ! i) = clean_line (paths ! i)"
  shows "\<exists>u ctx v res v'. WithTimeout env background timeout u = (ctx, v) \<and>
    ScanFile env ctx c unix fs (paths ! i) v = Some ((res, None), v') \<and> Clean res"
proof -
  from scan_args_reports [OF assms(1)] have p: "map path_of reps = paths" by simp
  then have i: "i < length reps" "path_of (reps ! i) = paths ! i" using assms(2) by auto
  with assms(3) report_text_clean_iff [of pr "reps ! i"] have "reps ! i = ReportClean (paths ! i)" by simp
  with i(1) have "ReportClean (paths ! i) \<in> set reps" by (metis nth_mem)
  with scan_args_clean [OF assms(1)] show ?thesis by blast
qed

text \<open>With the arguments understood: nothing is scanned, or every path is.\<close>

lemma basicscan_cases:
  assumes "basicscan env net_dial unix fs pr args w = Some (run, w')"
    and "flag_Parse basicscan_flags basicscan_defaults args = Inr (fl, paths)"
  obtains "stdout run = []" "exit_code run = 2"
  | c reps where "paths \<noteq> []" "New net_dial (sf_addr fl) [Some (WithMaxStreamSize (sf_max_size fl))] = Inr c"
      "scan_args env c unix fs (sf_timeout fl) paths 0 w = Some ((reps, exit_code run), w')"
      "stdout run = map (report_text pr) reps"
  using assms by (auto simp: basicscan_def split: if_splits sum.splits)

end
