(* ===== verification/HttpUpload.thy ===== *)
theory HttpUpload
  imports Examples
begin

text \<open>
  The example server \<open>examples/httpupload/main.go\<close>: its two handlers, its log, the table of
  routes, and \<open>main\<close> from the arguments to the server it starts and the exit code.

  From \<open>net/http\<close> come, as arguments, what \<open>FormFile\<close> makes of a request whose body is cut at
  a number of bytes (\<open>req_form\<close>), what the mux answers by itself to a request that no
  pattern matches (\<open>mux_answer\<close>, a redirect or a refusal), and how \<open>ListenAndServe\<close> ends.
\<close>

subsection \<open>Requests, responses and the log\<close>

record file_header =
  Filename :: string
  HeaderSize :: int

record http_request =
  req_method :: string
  req_path :: string
  req_ctx :: go_context
  req_form :: "int \<Rightarrow> goerr + (source \<times> file_header)"

record http_response =
  status :: int
  retry_after :: "string option"
  http_body :: string

definition http_error :: "string \<Rightarrow> int \<Rightarrow> http_response" where
  "http_error msg code = \<lparr>status = code, retry_after = None, http_body = msg @ newline\<rparr>"

text \<open>Records of \<open>log/slog\<close>: level, message, and the attributes with their keys.\<close>

datatype log_level = LevelInfo | LevelWarn | LevelError

datatype log_value = LogString string | LogInt int | LogErr goerr

datatype log_record = LogRecord log_level string "(string \<times> log_value) list"

subsection \<open>The upload handler\<close>

definition maxUploadBytes :: int where
  "maxUploadBytes = 25 * 2 ^ 20"

definition body_cap :: int where
  "body_cap = maxUploadBytes + 2 ^ 20"

definition form_error :: "goerr \<Rightarrow> http_response" where
  "form_error err =
     (if errors_As (\<lambda>e. e = HttpMaxBytesError) err \<noteq> None then http_error ''file too large to scan'' 413
      else if errors_Is err OsErrDeadlineExceeded then http_error ''upload timed out'' 408
      else if errors_Is err IoErrUnexpectedEOF then http_error ''incomplete upload'' 400
      else http_error (''missing multipart field '' @ [CHR 0x27] @ ''file'' @ [CHR 0x27]) 400)"

definition upload_reply :: "file_header \<Rightarrow> scan_outcome \<Rightarrow> http_response \<times> log_record list" where
  "upload_reply header out =
     (case out of (result, err) \<Rightarrow>
        (case err of
           Some e \<Rightarrow>
             if errors_Is e ErrSizeLimitExceeded then (http_error ''file too large to scan'' 413, [])
             else ((http_error ''scan unavailable, upload rejected'' 503)
                     \<lparr>retry_after := if IsRetryable err then Some ''10'' else None\<rparr>,
                   [LogRecord LevelError ''scan failed''
                     [(''file'', LogString (Filename header)), (''error'', LogErr e)]])
         | None \<Rightarrow>
             if Infected result
             then (http_error ''upload rejected'' 400,
                   [LogRecord LevelWarn ''malware detected''
                     [(''file'', LogString (Filename header)), (''signature'', LogString (ResultSignature result))]])
             else if Clean result
             then (\<lparr>status = 200, retry_after = None, http_body = ''accepted'' @ newline\<rparr>,
                   [LogRecord LevelInfo ''upload accepted''
                     [(''file'', LogString (Filename header)), (''bytes'', LogInt (HeaderSize header))]])
             else (http_error ''scan unavailable, upload rejected'' 503,
                   [LogRecord LevelError ''indeterminate verdict'' [(''file'', LogString (Filename header))]])))"

type_synonym handled = "(http_response \<times> log_record list) \<times> world"

definition uploadHandler :: "env \<Rightarrow> client \<Rightarrow> http_request \<Rightarrow> world \<Rightarrow> handled option" where
  "uploadHandler env c req w =
     (case WithTimeout env (req_ctx req) (2 * minute) w of (ctx, w1) \<Rightarrow>
        (case req_form req body_cap of
           Inl err \<Rightarrow> Some ((form_error err, []), w1)
         | Inr (file, header) \<Rightarrow>
             map_option (\<lambda>(out, w2). (upload_reply header out, w2)) (Scan env ctx c (Some file) w1)))"

subsection \<open>main\<close>

text \<open>The client of the service, as \<open>main\<close> configures it, and the readiness handler.\<close>

definition httpupload_scanner :: "dial_func \<Rightarrow> string \<Rightarrow> goerr + client" where
  "httpupload_scanner net_dial addr =
     New net_dial addr [Some (WithMaxStreamSize maxUploadBytes), Some (WithMaxConcurrentScans 4)]"

definition healthz :: "env \<Rightarrow> client \<Rightarrow> http_request \<Rightarrow> world \<Rightarrow> handled option" where
  "healthz env c req w =
     (case WithTimeout env (req_ctx req) (5 * second) w of (ctx, w1) \<Rightarrow>
        map_option (\<lambda>(err, w2).
            ((if err \<noteq> None then http_error ''scanner unavailable'' 503
              else \<lparr>status = 200, retry_after = None, http_body = []\<rparr>, []), w2))
          (Ping env ctx c w1))"

text \<open>
  The patterns \<open>POST /upload\<close> and \<open>GET /healthz\<close> of the mux; \<open>GET\<close> matches \<open>HEAD\<close> too.
\<close>

definition mux ::
  "(http_request \<Rightarrow> http_response) \<Rightarrow> env \<Rightarrow> client \<Rightarrow> http_request \<Rightarrow> world \<Rightarrow> handled option" where
  "mux mux_answer env c req w =
     (if req_method req = ''POST'' \<and> req_path req = ''/upload'' then uploadHandler env c req w
      else if req_method req \<in> {''GET'', ''HEAD''} \<and> req_path req = ''/healthz'' then healthz env c req w
      else Some ((mux_answer req, []), w))"

record http_server =
  Addr :: string
  Handler :: "http_request \<Rightarrow> world \<Rightarrow> handled option"
  ReadHeaderTimeout :: time
  ReadTimeout :: time

record upload_flags =
  uf_addr :: string
  uf_listen :: string

definition httpupload_defaults :: upload_flags where
  "httpupload_defaults = \<lparr>uf_addr = ''unix:///run/clamav/clamd.sock'', uf_listen = ''127.0.0.1:8080''\<rparr>"

definition httpupload_flags :: "upload_flags flag_defs" where
  "httpupload_flags =
     [(''addr'', string_flag (\<lambda>s v. v\<lparr>uf_addr := s\<rparr>)), (''listen'', string_flag (\<lambda>s v. v\<lparr>uf_listen := s\<rparr>))]"

text \<open>How the process ended, the server it started if it got so far, and its log before and after.\<close>

datatype process_end = Exit int | MainReturned

record upload_run =
  started :: "http_server option"
  ended :: process_end
  logged :: "log_record list"

definition upload_server ::
  "(http_request \<Rightarrow> http_response) \<Rightarrow> env \<Rightarrow> client \<Rightarrow> string \<Rightarrow> http_server" where
  "upload_server mux_answer env c listen =
     \<lparr>Addr = listen, Handler = mux mux_answer env c, ReadHeaderTimeout = 10 * second, ReadTimeout = 2 * minute\<rparr>"

definition httpupload ::
  "(http_request \<Rightarrow> http_response) \<Rightarrow> (http_server \<Rightarrow> goerr option) \<Rightarrow> env \<Rightarrow> dial_func \<Rightarrow> string list \<Rightarrow> upload_run" where
  "httpupload mux_answer ListenAndServe env net_dial args =
     (case flag_Parse httpupload_flags httpupload_defaults args of
        Inl e \<Rightarrow> \<lparr>started = None, ended = Exit (flag_exit e), logged = []\<rparr>
      | Inr (fl, _) \<Rightarrow>
          (case httpupload_scanner net_dial (uf_addr fl) of
             Inl err \<Rightarrow>
               \<lparr>started = None, ended = Exit 1,
                logged = [LogRecord LevelError ''configuring scanner'' [(''error'', LogErr err)]]\<rparr>
           | Inr c \<Rightarrow>
               let server = upload_server mux_answer env c (uf_listen fl);
                   listening = LogRecord LevelInfo ''listening''
                     [(''addr'', LogString (uf_listen fl)), (''clamd'', LogString (uf_addr fl))]
               in (case ListenAndServe server of
                     Some err \<Rightarrow>
                       \<lparr>started = Some server, ended = Exit 1,
                        logged = [listening, LogRecord LevelError ''server stopped'' [(''error'', LogErr err)]]\<rparr>
                   | None \<Rightarrow> \<lparr>started = Some server, ended = MainReturned, logged = [listening]\<rparr>)))"

subsection \<open>What a response says\<close>

lemma httpupload_scanner_limits:
  assumes "httpupload_scanner net_dial addr = Inr c"
  shows "sem c = Some 4 \<and> maxStreamSize (cfg c) = maxUploadBytes"
  using assms
  by (auto simp: httpupload_scanner_def New_def WithMaxStreamSize_def WithMaxConcurrentScans_def split: sum.splits option.splits)

lemma form_error_statuses: "status (form_error e) \<in> {400, 408, 413}" "retry_after (form_error e) = None"
  by (simp_all add: form_error_def http_error_def)

lemma upload_reply_spec:
  assumes "fail_closed (res, err)" "upload_reply header (res, err) = (resp, log)"
  shows "status resp = (case err of None \<Rightarrow> if Verdict res = VerdictClean then 200 else 400
      | Some e \<Rightarrow> if errors_Is e ErrSizeLimitExceeded then 413 else 503) \<and>
    (err = None \<longrightarrow> Verdict res \<noteq> VerdictUnknown) \<and>
    (retry_after resp \<noteq> None \<longleftrightarrow> status resp = 503 \<and> IsRetryable err)"
  using assms
  by (auto simp: upload_reply_def http_error_def fail_closed_def Clean_def Infected_def IsRetryable_def
      split: option.splits if_splits)

text \<open>
  The texts the uploader can be sent: fixed ones, so that nothing clamd or the library said about the
  file reaches it. A detection is in the log with its signature.
\<close>

definition upload_bodies :: "string list" where
  "upload_bodies = map (\<lambda>s. s @ newline)
     [''accepted'', ''upload rejected'', ''file too large to scan'', ''upload timed out'', ''incomplete upload'',
      ''missing multipart field '' @ [CHR 0x27] @ ''file'' @ [CHR 0x27], ''scan unavailable, upload rejected'']"

lemma form_error_body: "http_body (form_error e) \<in> set upload_bodies"
  by (simp add: form_error_def http_error_def upload_bodies_def)

lemma upload_reply_body: "upload_reply header out = (resp, log) \<Longrightarrow> http_body resp \<in> set upload_bodies"
  by (auto simp: upload_reply_def http_error_def upload_bodies_def split: prod.splits option.splits if_splits)

lemma upload_reply_audit:
  "upload_reply header (res, None) = (resp, log) \<Longrightarrow> Verdict res = VerdictInfected \<Longrightarrow>
    log = [LogRecord LevelWarn ''malware detected''
      [(''file'', LogString (Filename header)), (''signature'', LogString (ResultSignature res))]]"
  by (auto simp: upload_reply_def Infected_def)

text \<open>The two ways an upload is handled.\<close>

lemma uploadHandler_cases [consumes 1, case_names refused scanned]:
  assumes "uploadHandler env c req w = Some ((resp, log), w')"
  obtains (refused) e where "req_form req body_cap = Inl e" "resp = form_error e" "log = []"
  | (scanned) f hdr ctx w1 res err where "req_form req body_cap = Inr (f, hdr)"
      "WithTimeout env (req_ctx req) (2 * minute) w = (ctx, w1)"
      "Scan env ctx c (Some f) w1 = Some ((res, err), w')" "upload_reply hdr (res, err) = (resp, log)"
  using assms by (auto simp: uploadHandler_def split: prod.splits sum.splits)

text \<open>A server that was started has the client of the two limits behind its routes.\<close>

lemma httpupload_started:
  assumes "started (httpupload mux_answer ListenAndServe env net_dial args) = Some server"
  obtains fl rest c where "flag_Parse httpupload_flags httpupload_defaults args = Inr (fl, rest)"
    "httpupload_scanner net_dial (uf_addr fl) = Inr c" "server = upload_server mux_answer env c (uf_listen fl)"
  using assms by (auto simp: httpupload_def Let_def split: sum.splits option.splits)

text \<open>The mux's own answers are redirects and refusals.\<close>

definition mux_refuses :: "(http_request \<Rightarrow> http_response) \<Rightarrow> bool" where
  "mux_refuses mux_answer \<longleftrightarrow> (\<forall>req. status (mux_answer req) \<in> {301, 307, 308, 400, 404, 405})"

text \<open>The scan under which a file was accepted.\<close>

definition scanned_clean :: "env \<Rightarrow> client \<Rightarrow> http_request \<Rightarrow> world \<Rightarrow> world \<Rightarrow> bool" where
  "scanned_clean env c req w w' \<longleftrightarrow>
     (\<exists>file header ctx w1 res. req_form req body_cap = Inr (file, header) \<and>
        WithTimeout env (req_ctx req) (2 * minute) w = (ctx, w1) \<and>
        Scan env ctx c (Some file) w1 = Some ((res, None), w') \<and> Verdict res = VerdictClean)"

lemma uploadHandler_accepts:
  assumes "uploadHandler env c req w = Some ((resp, log), w')"
  shows "status resp = 200 \<longleftrightarrow> scanned_clean env c req w w'"
  using assms
proof (cases rule: uploadHandler_cases)
  case (refused e)
  with form_error_statuses(1) [of e] show ?thesis by (auto simp: scanned_clean_def)
next
  case (scanned f hdr ctx w1 res err)
  with upload_reply_spec [OF fail_closed_Scan [OF scanned(3)] scanned(4)] show ?thesis
    by (auto simp: scanned_clean_def split: option.splits if_splits)
qed

lemma mux_ready:
  assumes "mux mux_answer env c req w = Some ((resp, log), w')" "mux_refuses mux_answer" "status resp = 200"
  shows "req_method req = ''POST'' \<and> req_path req = ''/upload'' \<or>
    req_path req = ''/healthz'' \<and> (\<exists>ctx w1. Ping env ctx c w1 = Some (None, w'))"
proof (rule ccontr)
  assume no: "\<not> ?thesis"
  from assms(2) have "status (mux_answer req) \<in> {301, 307, 308, 400, 404, 405}" by (simp only: mux_refuses_def)
  then have "status (mux_answer req) \<noteq> 200" by auto
  with assms(1,3) no have "healthz env c req w = Some ((resp, log), w')" "req_path req = ''/healthz''"
    by (auto simp: mux_def split: if_splits)
  with assms(3) no show False by (auto simp: healthz_def http_error_def split: prod.splits if_splits)
qed

end
