(* ===== verification/ErrorTexts.thy ===== *)
theory ErrorTexts
  imports FileScan GoFmt
begin

text \<open>
  The errors of a scan and their texts. \<open>scan_error\<close> lists the shapes an error of \<open>Scan\<close>,
  \<open>ScanBytes\<close> and \<open>ScanFile\<close> can have: a refusal at a size limit, what clamd answered, a
  failed connection, or a cause from outside that is relayed. The lemmas show that the list
  is complete, and what the texts of its shapes are.
\<close>

subsection \<open>Replies have one line\<close>

definition one_line :: "string \<Rightarrow> bool" where
  "one_line s \<longleftrightarrow> CHR 0x0A \<notin> set s \<and> CHR 0x0D \<notin> set s"

lemma one_line_Nil [simp]: "one_line []"
  by (simp add: one_line_def)

lemma one_line_append [simp]: "one_line (s @ t) \<longleftrightarrow> one_line s \<and> one_line t"
  by (auto simp: one_line_def)

lemma one_line_Cons [simp]: "one_line (c # s) \<longleftrightarrow> c \<noteq> CHR 0x0A \<and> c \<noteq> CHR 0x0D \<and> one_line s"
  by (auto simp: one_line_def)

lemma one_line_subset: "one_line s \<Longrightarrow> set t \<subseteq> set s \<Longrightarrow> one_line t"
  by (auto simp: one_line_def)

lemma visible_one_line: "(\<And>c. c \<in> set s \<Longrightarrow> visible c) \<Longrightarrow> one_line s"
  by (force simp: one_line_def visible_literal)

lemma ReadLine_loop_one_line:
  "ReadLine_loop rd mx buf b w = ((line, t, None), b', w') \<Longrightarrow> one_line line"
proof (induction rd\<equiv>rd mx buf b w rule: ReadLine_loop.induct)
  case (1 mx buf b w)
  obtain res b1 w1 where rb: "ReadByte rd b w = (res, b1, w1)" by (metis prod.collapse)
  show ?case
  proof (cases "\<exists>c. res = Inr c \<and> c \<noteq> 0")
    case True
    then obtain c where c: "res = Inr c" "c \<noteq> 0" by blast
    with "1.prems" rb have small: "\<not> mx \<le> int (length buf)"
      and run: "ReadLine_loop rd mx (buf @ [c]) b1 w1 = ((line, t, None), b', w')"
      by (auto simp: ReadLine_loop.simps [of rd mx buf b w] split: if_splits)
    show ?thesis by (rule 1(1) [OF rb [symmetric] c(1) refl c(2) small run])
  next
    case False
    with "1.prems" rb have "finishLine (string_of buf) = (line, None)"
      by (cases res; auto simp: ReadLine_loop.simps [of rd mx buf b w] split: if_splits prod.splits)+
    then show ?thesis by (auto simp: one_line_def dest: finishLine_ok)
  qed
qed

lemma ReadLine_one_line: "ReadLine rd mx b w = ((line, t, None), b', w') \<Longrightarrow> one_line line"
  unfolding ReadLine_def by (rule ReadLine_loop_one_line)

lemma trim_runes_subset: "set (trim_runes rs s) \<subseteq> set s"
proof (induction rs s rule: trim_runes.induct)
  case (1 rs s)
  show ?case
  proof (cases "List.find (\<lambda>r. r \<noteq> [] \<and> HasPrefix s r) rs")
    case None
    then show ?thesis by (simp add: trim_runes.simps [of rs s])
  next
    case (Some r)
    with 1 [OF Some] set_drop_subset [of "length r" s] show ?thesis
      by (simp add: trim_runes.simps [of rs s])
  qed
qed

lemma parse_message_subset: "set (Message (ParseScanResponse line)) \<subseteq> set line"
proof -
  have "set (TrimSpace s) \<subseteq> set s" for s
    using trim_runes_subset [of space_runes s] trim_runes_subset [of "map rev space_runes" "rev (trim_runes space_runes s)"]
    by (auto simp: TrimSpace_def)
  moreover have "set (TrimSuffix s p) \<subseteq> set s" for s p
    using set_take_subset [of "length s - length p" s] by (simp add: TrimSuffix_def)
  ultimately show ?thesis
    using TrimRight_subset [of line reply_padding]
    by (auto simp: ParseScanResponse_def Let_def zero_response_def split: if_splits) blast+
qed

subsection \<open>The shapes of a scan's errors\<close>

definition relay_steps :: "string list" where
  "relay_steps =
     [[], ''waiting for scan slot: '', ''dial: '', ''write: '', ''read: '', ''scan aborted: '',
      ''reading scan source: '', ''stat scan target: '', ''opening scan target: '']"

definition cause_formats :: "string list" where
  "cause_formats = map (\<lambda>step. ''clamav: '' @ step @ ''%w'') relay_steps"

inductive scan_error :: "goerr \<Rightarrow> bool" where
  nil_reader: "scan_error (NewError ''clamav: nil reader'' [])"
| not_regular: "scan_error (NewError ''clamav: scan target %s is not a regular file (mode %v)'' [FStr path, FMode m])"
| payload_limit: "scan_error (Errorf ''%w: input is %d bytes, client-side limit is %d (WithMaxStreamSize)''
    [FInt n, FInt mx] [ErrSizeLimitExceeded])"
| file_limit: "scan_error (Errorf ''%w: file is %d bytes, client-side limit is %d (WithMaxStreamSize)''
    [FInt n, FInt mx] [ErrSizeLimitExceeded])"
| stream_limit: "scan_error (Errorf ''%w: input exceeds client-side limit of %d bytes (WithMaxStreamSize)''
    [FInt mx] [ErrSizeLimitExceeded])"
| server_limit: "one_line msg \<Longrightarrow>
    scan_error (Errorf ''%w: %w (clamd StreamMaxLength)'' [] [ErrSizeLimitExceeded, ClamdError msg])"
| clamd_error: "one_line msg \<Longrightarrow> scan_error (ClamdError msg)"
| protocol_error: "scan_error (ProtocolError ''INSTREAM'' reply)"
| connection_error: "oper \<in> {''dial'', ''read'', ''write''} \<Longrightarrow> scan_error (ConnectionError oper e)"
| cause: "f \<in> set cause_formats \<Longrightarrow> scan_error (Errorf f [] [e])"

text \<open>An outcome whose error, if it has one, has one of the shapes.\<close>

definition error_listed :: "scan_outcome \<Rightarrow> bool" where
  "error_listed out \<longleftrightarrow> (\<forall>e. snd out = Some e \<longrightarrow> scan_error e)"

named_theorems listed \<open>functions whose error has one of the shapes\<close>

lemma error_listed_simps [simp]:
  "error_listed (res, None)" "error_listed (res, Some e) \<longleftrightarrow> scan_error e"
  by (simp_all add: error_listed_def)

lemma cause_listed [listed]:
  "scan_error (Errorf ''clamav: %w'' [] [e])" "scan_error (Errorf ''clamav: waiting for scan slot: %w'' [] [e])"
  "scan_error (Errorf ''clamav: dial: %w'' [] [e])" "scan_error (Errorf ''clamav: write: %w'' [] [e])"
  "scan_error (Errorf ''clamav: read: %w'' [] [e])" "scan_error (Errorf ''clamav: scan aborted: %w'' [] [e])"
  "scan_error (Errorf ''clamav: reading scan source: %w'' [] [e])"
  "scan_error (Errorf ''clamav: stat scan target: %w'' [] [e])"
  "scan_error (Errorf ''clamav: opening scan target: %w'' [] [e])"
  by (rule scan_error.cause; simp add: cause_formats_def relay_steps_def)+

lemmas shapes [listed] = nil_reader not_regular payload_limit file_limit stream_limit protocol_error

lemma connection_listed [listed]:
  "scan_error (ConnectionError ''dial'' e)" "scan_error (ConnectionError ''read'' e)"
  "scan_error (ConnectionError ''write'' e)"
  by (rule connection_error; simp)+

lemma clamdErrorFrom_listed:
  assumes "one_line line"
  shows "scan_error (clamdErrorFrom (ParseScanResponse line))"
  using one_line_subset [OF assms parse_message_subset]
  by (auto simp: clamdErrorFrom_def Let_def intro: server_limit clamd_error)

lemma resultFromLine_listed: "one_line line \<Longrightarrow> error_listed (resultFromLine line t)"
  by (simp add: resultFromLine_def Let_def clamdErrorFrom_listed listed split: outcome.split)

lemma wrap_listed [listed]:
  "scan_error (fst (wrapWriteErr env ctx e w))" "scan_error (fst (wrapReadErr env ctx ''INSTREAM'' e w))"
  by (simp_all add: wrapWriteErr_def wrapReadErr_def listed split: prod.split option.split)

lemma as_result_listed [listed]: "scan_error (fst ew) \<Longrightarrow> error_listed (fst (as_result ew))"
  by (cases ew) (simp add: as_result_def)

lemma write_failure_listed [listed]: "error_listed (fst (write_failure env ctx e w))"
  by (simp add: write_failure_def listed split: option.split)

lemma recover_listed [listed]: "error_listed (fst (recoverStreamError env ctx c cn iot br e w))"
proof -
  have "error_listed (fst (recover_reply env ctx cn iot br e v))" for v
  proof -
    obtain line t re b' w2 where r:
      "ReadLine (dc_read env ctx cn (min iot (2 * second))) MaxLineResponse br v = ((line, t, re), b', w2)"
      by (metis prod.collapse)
    show ?thesis
    proof (cases re)
      case None
      with r have "one_line line" by (simp add: ReadLine_one_line)
      with r None show ?thesis
        by (simp add: recover_reply_def Let_def listed clamdErrorFrom_listed split: outcome.split)
    next
      case (Some x)
      with r show ?thesis by (simp add: recover_reply_def Let_def listed)
    qed
  qed
  then show ?thesis by (simp add: recoverStreamError_def listed split: prod.split option.split)
qed

lemma exchange_listed:
  assumes "scan_exchange env ctx c cn src w = Some (res, w')"
  shows "error_listed res"
  using assms
proof (cases rule: scan_exchange_cases)
  case (unsent n e w1)
  then show ?thesis using as_result_listed [OF wrap_listed(1)] by (metis fst_conv)
next
  case (stream n w1 k e w2)
  then show ?thesis using recover_listed by (metis fst_conv)
next
  case (unread n w1 k w2 line t e b w3)
  then show ?thesis using as_result_listed [OF wrap_listed(2)] by (metis fst_conv)
next
  case (reply n w1 k w2 line t b)
  then show ?thesis using resultFromLine_listed ReadLine_one_line by metis
qed

lemma dial_listed: "dial env ctx c w = Some (Inl e, w') \<Longrightarrow> scan_error e"
  by (auto simp: dial_def Let_def listed split: prod.splits option.splits)

lemma acquire_listed: "acquireScanSlot env ctx c w = Some (Some e, w') \<Longrightarrow> scan_error e"
  by (auto simp: acquireScanSlot_def listed split: prod.splits option.splits dest: select_slotD)

lemma scanStream_listed: "scanStream env ctx c src w = Some (res, w') \<Longrightarrow> error_listed res"
  by (erule scanStream_cases) (auto dest: dial_listed exchange_listed)

lemma Scan_listed: "Scan env ctx c r w = Some (res, w') \<Longrightarrow> error_listed res"
  by (auto simp: Scan_def listed split: option.splits prod.splits dest: acquire_listed scanStream_listed)

lemma ScanBytes_listed: "ScanBytes env ctx c data w = Some (res, w') \<Longrightarrow> error_listed res"
  by (auto simp: ScanBytes_def listed split: if_splits dest: Scan_listed)

lemma check_listed: "checkScanTarget mx path fi = Some e \<Longrightarrow> scan_error e"
  by (auto simp: checkScanTarget_def listed split: if_splits)

lemma ScanFile_listed: "ScanFile env ctx c unix fs path w = Some (res, w') \<Longrightarrow> error_listed res"
  by (auto simp: ScanFile_def scan_path_def scan_descriptor_def Let_def listed
      split: option.splits prod.splits sum.splits open_answer.splits
      dest: check_listed acquire_listed scanStream_listed)

subsection \<open>Their texts\<close>

text \<open>\<open>e\<close> only passes on the error \<open>x\<close>, of the source, the transport, the file system or the context.\<close>

definition relayed :: "goerr \<Rightarrow> goerr \<Rightarrow> bool" where
  "relayed e x \<longleftrightarrow> (\<exists>f \<in> set cause_formats. e = Errorf f [] [x]) \<or> (\<exists>oper. e = ConnectionError oper x)"

lemma fmt_operand_simps [simp]:
  "fmt_operand pr v (FInt i) = decimal_int i"
  "fmt_operand pr v (FStr s) = (if v = CHR ''q'' then Quote pr s else s)"
  "fmt_operand pr v (FMode m) = FileMode_String m"
  "fmt_operand pr v (FDur d) = Duration_String d"
  by (simp_all add: fmt_operand_def)

lemmas Error_texts = ClamdError_Error_def ProtocolError_Error_def ConnectionError_Error_def
  SourceError_Error_def SinkError_Error_def sourceAbortedError_Error_def

lemma limit_texts:
  "Error pr (Errorf ''%w: input is %d bytes, client-side limit is %d (WithMaxStreamSize)''
     [FInt n, FInt mx] [ErrSizeLimitExceeded]) =
   ''clamav: stream size limit exceeded: input is '' @ decimal_int n @ '' bytes, client-side limit is '' @
     decimal_int mx @ '' (WithMaxStreamSize)''"
  "Error pr (Errorf ''%w: file is %d bytes, client-side limit is %d (WithMaxStreamSize)''
     [FInt n, FInt mx] [ErrSizeLimitExceeded]) =
   ''clamav: stream size limit exceeded: file is '' @ decimal_int n @ '' bytes, client-side limit is '' @
     decimal_int mx @ '' (WithMaxStreamSize)''"
  "Error pr (Errorf ''%w: input exceeds client-side limit of %d bytes (WithMaxStreamSize)''
     [FInt mx] [ErrSizeLimitExceeded]) =
   ''clamav: stream size limit exceeded: input exceeds client-side limit of '' @ decimal_int mx @
     '' bytes (WithMaxStreamSize)''"
  "Error pr (Errorf ''%w: %w (clamd StreamMaxLength)'' [] [ErrSizeLimitExceeded, ClamdError msg]) =
   ''clamav: stream size limit exceeded: clamav: clamd error: '' @ msg @ '' (clamd StreamMaxLength)''"
  by (simp_all add: Error_texts)

lemma reply_texts:
  "Error pr (ClamdError msg) = ''clamav: clamd error: '' @ msg"
  "Error pr (ProtocolError command reply) =
     ''clamav: unexpected '' @ command @ '' response from clamd: '' @ Quote pr reply"
  "Error pr (ConnectionError oper e) = ''clamav: '' @ oper @ '': '' @ Error pr e"
  by (simp_all add: Error_texts)

lemma cause_text:
  assumes "f \<in> set cause_formats"
  shows "\<exists>what. Error pr (Errorf f [] [e]) = ''clamav: '' @ what @ Error pr e \<and> one_line what"
proof -
  have "\<exists>what. f = ''clamav: '' @ what @ ''%w'' \<and> CHR ''%'' \<notin> set what \<and> one_line what"
  proof -
    have "\<forall>step \<in> set relay_steps. CHR ''%'' \<notin> set step \<and> one_line step" by (simp add: relay_steps_def)
    with assms show ?thesis by (auto simp: cause_formats_def)
  qed
  then obtain what where f: "f = ''clamav: '' @ what @ ''%w''" "CHR ''%'' \<notin> set what" "one_line what"
    by blast
  have "Sprintf pr (s @ ''%w'') [] [t] = s @ t" if "CHR ''%'' \<notin> set s" for s t
    using that
  proof (induction s)
    case (Cons c s)
    then have "c \<noteq> CHR ''%''" by auto
    with Cons show ?case by (cases s) simp_all
  qed simp
  from this [of "''clamav: '' @ what" "Error pr e"] f show ?thesis by auto
qed

lemma scan_error_prefix:
  assumes "scan_error e"
  shows "HasPrefix (Error pr e) ''clamav: ''"
  using assms
proof cases
  case (cause f x)
  from cause_text [OF cause(2), of pr x] show ?thesis unfolding cause(1) by (auto simp only: HasPrefix_append)
next
  case nil_reader
  then show ?thesis by (simp add: HasPrefix_def)
next
  case not_regular
  then show ?thesis by (simp add: HasPrefix_def)
next
  case payload_limit
  then show ?thesis unfolding limit_texts by (simp add: HasPrefix_def)
next
  case file_limit
  then show ?thesis by (simp only: limit_texts) (simp add: HasPrefix_def)
next
  case stream_limit
  then show ?thesis by (simp only: limit_texts) (simp add: HasPrefix_def)
next
  case server_limit
  then show ?thesis by (simp only: limit_texts) (simp add: HasPrefix_def)
next
  case clamd_error
  then show ?thesis by (simp only: reply_texts) (simp add: HasPrefix_def)
next
  case protocol_error
  then show ?thesis by (simp only: reply_texts) (simp add: HasPrefix_def)
next
  case connection_error
  then show ?thesis by (simp only: reply_texts) (simp add: HasPrefix_def)
qed

text \<open>Which side enforced a limit is the end of the text.\<close>

lemma HasSuffix_end: "t = a @ p \<Longrightarrow> HasSuffix t p"
  by simp

lemma scan_error_side:
  assumes "scan_error e" "errors_Is e ErrSizeLimitExceeded"
  shows "HasSuffix (Error pr e) ''(WithMaxStreamSize)'' \<or> HasSuffix (Error pr e) ''(clamd StreamMaxLength)'' \<or>
    (\<exists>x. relayed e x \<and> errors_Is x ErrSizeLimitExceeded)"
  using assms(1)
proof cases
  case (cause f x)
  with assms(2) show ?thesis by (auto simp: relayed_def errors_Is_simps)
next
  case (connection_error oper x)
  with assms(2) show ?thesis by (auto simp: relayed_def errors_Is_simps)
next
  case (payload_limit n mx)
  then have "HasSuffix (Error pr e) ''(WithMaxStreamSize)''"
    by (intro HasSuffix_end [of _ "''clamav: stream size limit exceeded: input is '' @ decimal_int n @
      '' bytes, client-side limit is '' @ decimal_int mx @ '' ''"]) (simp only: limit_texts, simp)
  then show ?thesis ..
next
  case (file_limit n mx)
  then have "HasSuffix (Error pr e) ''(WithMaxStreamSize)''"
    by (intro HasSuffix_end [of _ "''clamav: stream size limit exceeded: file is '' @ decimal_int n @
      '' bytes, client-side limit is '' @ decimal_int mx @ '' ''"]) (simp only: limit_texts, simp)
  then show ?thesis ..
next
  case (stream_limit mx)
  then have "HasSuffix (Error pr e) ''(WithMaxStreamSize)''"
    by (intro HasSuffix_end [of _ "''clamav: stream size limit exceeded: input exceeds client-side limit of '' @
      decimal_int mx @ '' bytes ''"]) (simp only: limit_texts, simp)
  then show ?thesis ..
next
  case (server_limit msg)
  then have "HasSuffix (Error pr e) ''(clamd StreamMaxLength)''"
    by (intro HasSuffix_end [of _ "''clamav: stream size limit exceeded: clamav: clamd error: '' @ msg @ '' ''"])
      (simp only: limit_texts, simp)
  then show ?thesis by blast
qed (use assms(2) in \<open>auto simp: errors_Is_leaf\<close>)

text \<open>A line break can only be in the text of a relayed cause, or in the path of a file.\<close>

lemma decimal_int_one_line [simp]: "one_line (decimal_int i)"
  by (rule visible_one_line)
    (auto simp: decimal_int_def visible_literal dest: visible_decimal split: if_splits)

lemma enumerate_letters: "x \<in> set (List.enumerate n s) \<Longrightarrow> snd x \<in> set s"
  by (cases x) (auto simp: enumerate_eq_zip dest: set_zip_rightD)

lemma FileMode_one_line [simp]: "one_line (FileMode_String m)"
proof -
  have "one_line (map snd (filter P (List.enumerate 0 mode_letters)))" for P
    by (rule one_line_subset [of mode_letters]) (auto simp: mode_letters_def one_line_def dest!: enumerate_letters)
  moreover have "one_line (map (\<lambda>(i, c). if Q i then c else CHR ''-'') (List.enumerate 0 ''rwxrwxrwx''))" for Q
    by (rule one_line_subset [of "''-rwx''"]) (auto dest!: enumerate_letters)
  ultimately show ?thesis by (simp add: FileMode_String_def Let_def)
qed

definition not_regular_format :: string where
  "not_regular_format = ''clamav: scan target %s is not a regular file (mode %v)''"

lemma not_regular_text:
  "Error pr (NewError not_regular_format [FStr path, FMode m]) =
    ''clamav: scan target '' @ path @ '' is not a regular file (mode '' @ FileMode_String m @ '')''"
  by (simp add: not_regular_format_def)

lemma scan_error_one_line:
  assumes "scan_error e"
  shows "one_line (Error pr e) \<or> (\<exists>x. relayed e x \<and> \<not> one_line (Error pr x)) \<or>
    (\<exists>path m. e = NewError not_regular_format [FStr path, FMode m] \<and> \<not> one_line path)"
  using assms
proof cases
  case (cause f x)
  from cause_text [OF cause(2), of pr x] cause show ?thesis by (auto simp: relayed_def simp del: Error.simps)
next
  case (connection_error oper x)
  then show ?thesis by (auto simp: relayed_def reply_texts simp del: Error.simps)
next
  case protocol_error
  then show ?thesis using visible_one_line [OF Quote_visible]
    by (simp add: reply_texts del: Error.simps)
next
  case nil_reader
  then show ?thesis by simp
next
  case (not_regular path m)
  then show ?thesis using not_regular_text [of pr path m]
    by (auto simp: not_regular_format_def simp del: Error.simps)
qed (simp_all add: limit_texts reply_texts del: Error.simps)

text \<open>A protocol error quotes the reply, so that it can be read back from the text.\<close>

lemma protocol_error_text:
  "\<exists>q. Error pr (ProtocolError command reply) = ''clamav: unexpected '' @ command @ '' response from clamd: '' @ q \<and>
    unquote q = Some reply \<and> (\<forall>ch \<in> set q. visible ch)"
  using Quote_visible unquote_Quote by (auto simp: reply_texts simp del: Error.simps)

end
