(* ===== verification/ScanSlots.thy ===== *)
theory ScanSlots
  imports ScanWire
begin

text \<open>
  Many scans of one client at a time: the channel \<open>sem\<close> of \<open>Client\<close> under any interleaving
  of \<open>acquireScanSlot\<close> and \<open>releaseScanSlot\<close> (\<open>client.go\<close>).

  \<open>World\<close> follows one call and counts the slots of the others as an input; here every
  goroutine is a row of a table, and a step is one goroutine's channel operation. The
  invariant by rule induction is that the elements in the channel are exactly the scans in
  progress, so the limit holds in every reachable state, a release never blocks, and no
  slot is lost.
\<close>

subsection \<open>The step relation\<close>

datatype phase = Idle | Queued | Scanning

record slots =
  chan :: nat
  phases :: "phase list"

definition start_slots :: "nat \<Rightarrow> slots" where
  "start_slots n = \<lparr>chan = 0, phases = replicate n Idle\<rparr>"

definition move :: "nat \<Rightarrow> phase \<Rightarrow> slots \<Rightarrow> slots" where
  "move g p s = s\<lparr>phases := (phases s)[g := p]\<rparr>"

definition at_phase :: "slots \<Rightarrow> nat \<Rightarrow> phase \<Rightarrow> bool" where
  "at_phase s g p \<longleftrightarrow> g < length (phases s) \<and> phases s ! g = p"

text \<open>
  \<open>arrive\<close>: a call whose context is live starts waiting; \<open>enter\<close>: the send on the channel;
  \<open>give_up\<close>: \<open>ctx.Done()\<close> while waiting; \<open>leave\<close>: the deferred receive, which would block on
  an empty channel. Without a channel entering and leaving touch nothing.
\<close>

inductive slot_step :: "nat option \<Rightarrow> slots \<Rightarrow> slots \<Rightarrow> bool" for cap where
  arrive: "at_phase s g Idle \<Longrightarrow> slot_step cap s (move g Queued s)"
| enter: "at_phase s g Queued \<Longrightarrow> cap = Some k \<Longrightarrow> chan s < k \<Longrightarrow>
    slot_step cap s (move g Scanning (s\<lparr>chan := Suc (chan s)\<rparr>))"
| enter_free: "at_phase s g Queued \<Longrightarrow> cap = None \<Longrightarrow> slot_step cap s (move g Scanning s)"
| give_up: "at_phase s g Queued \<Longrightarrow> slot_step cap s (move g Idle s)"
| leave: "at_phase s g Scanning \<Longrightarrow> cap = Some k \<Longrightarrow> 0 < chan s \<Longrightarrow>
    slot_step cap s (move g Idle (s\<lparr>chan := chan s - 1\<rparr>))"
| leave_free: "at_phase s g Scanning \<Longrightarrow> cap = None \<Longrightarrow> slot_step cap s (move g Idle s)"

inductive_cases slot_stepE: "slot_step cap s s'"

abbreviation slot_run :: "nat option \<Rightarrow> nat \<Rightarrow> slots \<Rightarrow> bool" where
  "slot_run cap n \<equiv> reachable (slot_step cap) (start_slots n)"

definition in_progress :: "slots \<Rightarrow> nat" where
  "in_progress s = count_list (phases s) Scanning"

subsection \<open>The invariant\<close>

definition slots_inv :: "nat option \<Rightarrow> nat \<Rightarrow> slots \<Rightarrow> bool" where
  "slots_inv cap n s \<longleftrightarrow> length (phases s) = n \<and>
     (case cap of None \<Rightarrow> chan s = 0 | Some k \<Rightarrow> chan s = in_progress s \<and> chan s \<le> k)"

lemma count_list_update:
  "g < length xs \<Longrightarrow> count_list (xs[g := y]) x + (if xs ! g = x then 1 else 0) =
    count_list xs x + (if y = x then 1 else 0)"
proof (induction xs arbitrary: g)
  case (Cons a xs)
  show ?case
  proof (cases g)
    case (Suc h)
    with Cons.prems Cons.IH [of h] show ?thesis by auto
  qed simp
qed simp

lemma count_list_move:
  "at_phase s g p \<Longrightarrow> in_progress (move g q s) + (if p = Scanning then 1 else 0) =
    in_progress s + (if q = Scanning then 1 else 0)"
  using count_list_update [of g "phases s" q Scanning] by (auto simp: at_phase_def in_progress_def move_def)

lemma move_simps [simp]:
  "chan (move g q s) = chan s" "length (phases (move g q s)) = length (phases s)"
  "in_progress (s\<lparr>chan := k\<rparr>) = in_progress s" "at_phase (s\<lparr>chan := k\<rparr>) g p = at_phase s g p"
  by (simp_all add: move_def in_progress_def at_phase_def)

lemma at_phase_move [simp]: "at_phase s g p \<Longrightarrow> at_phase (move g q (s\<lparr>chan := k\<rparr>)) g q"
    "at_phase s g p \<Longrightarrow> at_phase (move g q s) g q"
  by (simp_all add: at_phase_def move_def)

lemma slot_step_inv:
  assumes "slot_step cap s s'" "slots_inv cap n s"
  shows "slots_inv cap n s'"
  using assms
proof (induction rule: slot_step.induct)
  case (arrive s g)
  with count_list_move [of s g Idle Queued] show ?case by (auto simp: slots_inv_def split: option.splits)
next
  case (enter s g k)
  with count_list_move [of "s\<lparr>chan := Suc (chan s)\<rparr>" g Queued Scanning] show ?case
    by (auto simp: slots_inv_def split: option.splits)
next
  case (enter_free s g)
  then show ?case by (auto simp: slots_inv_def)
next
  case (give_up s g)
  with count_list_move [of s g Queued Idle] show ?case by (auto simp: slots_inv_def split: option.splits)
next
  case (leave s g k)
  with count_list_move [of "s\<lparr>chan := chan s - 1\<rparr>" g Scanning Idle] show ?case
    by (auto simp: slots_inv_def split: option.splits)
next
  case (leave_free s g)
  then show ?case by (auto simp: slots_inv_def)
qed

lemma slots_inv_start: "slots_inv cap n (start_slots n)"
  by (simp add: slots_inv_def start_slots_def in_progress_def count_list_0_iff split: option.split)

interpretation scan_slots: invariant_of "slot_step cap" "start_slots n" "slots_inv cap n" for cap n
  by unfold_locales (auto intro: slots_inv_start slot_step_inv)

lemma in_progress_pos: "at_phase s g Scanning \<Longrightarrow> 0 < in_progress s"
  by (metis at_phase_def count_list_0_iff gr0I in_progress_def nth_mem)

text \<open>A release never blocks, and a waiting scan enters whenever the limit is not reached.\<close>

lemma slot_run_leave:
  assumes "slot_run cap n s" "at_phase s g Scanning"
  shows "\<exists>s'. slot_step cap s s' \<and> at_phase s' g Idle"
proof (cases cap)
  case None
  with leave_free [OF assms(2)] at_phase_move(2) [OF assms(2)] show ?thesis by blast
next
  case (Some k)
  with scan_slots.holds [OF assms(1)] in_progress_pos [OF assms(2)] have "0 < chan s" by (simp add: slots_inv_def)
  with leave [OF assms(2) Some] at_phase_move(1) [OF assms(2)] show ?thesis by blast
qed

lemma slot_run_enter:
  assumes "slot_run (Some k) n s" "at_phase s g Queued" "in_progress s < k"
  shows "\<exists>s'. slot_step (Some k) s s' \<and> at_phase s' g Scanning"
proof -
  have "chan s < k" using scan_slots.holds [OF assms(1)] assms(3) by (simp add: slots_inv_def)
  with enter [OF assms(2) refl] at_phase_move(1) [OF assms(2)] show ?thesis by blast
qed

subsection \<open>The call of World and the table\<close>

text \<open>
  A call that is let in by its channel operation is the table's \<open>enter\<close>, and its release the table's
  \<open>leave\<close>, when the others it met at that tick are those of the table.
\<close>

lemma acquire_enters:
  assumes "acquireScanSlot env ctx c w = Some (None, w')" "sem c = Some k" "slots_held w = 0"
    "e_others env (clock w') = chan s" "at_phase s g Queued"
  shows "slot_step (Some k) s (move g Scanning (s\<lparr>chan := Suc (chan s)\<rparr>))" "slots_held w' = 1"
proof -
  obtain e w1 where c: "ctx_Err env ctx w = (e, w1)" by (metis prod.collapse)
  note d = ctx_ErrD [OF c]
  from assms(1,2) c have "select_slot env ctx k w1 = Some (None, w')"
    by (auto simp: acquireScanSlot_def split: option.splits)
  from select_slotD [OF this] d assms(3,4) have "chan s < k" "slots_held w' = 1" by simp_all
  then show "slot_step (Some k) s (move g Scanning (s\<lparr>chan := Suc (chan s)\<rparr>))" "slots_held w' = 1"
    using enter [OF assms(5) refl] by simp_all
qed

subsection \<open>Properties\<close>

text \<open>
  C34: the concurrency limit holds under every interleaving. In every reachable state of any number
  of goroutines, at most \<open>cap\<close> scans are in progress and the channel holds exactly one element for
  each; a finished scan's release never blocks; a waiting scan can enter whenever fewer than
  \<open>cap\<close> are in progress; and a call that \<open>acquireScanSlot\<close> lets in, when the others it met are those
  of the state, leads to a reachable state again, so the limit still holds with it.
\<close>

theorem concurrency_limit:
  assumes "slot_run (Some k) n s"
  shows "in_progress s \<le> k \<and> chan s = in_progress s \<and>
    (at_phase s g Scanning \<longrightarrow> (\<exists>s'. slot_step (Some k) s s' \<and> at_phase s' g Idle)) \<and>
    (at_phase s g Queued \<and> in_progress s < k \<longrightarrow> (\<exists>s'. slot_step (Some k) s s' \<and> at_phase s' g Scanning)) \<and>
    (at_phase s g Queued \<and> sem c = Some k \<and> slots_held w = 0 \<and>
      acquireScanSlot env ctx c w = Some (None, w') \<and> e_others env (clock w') = in_progress s \<longrightarrow>
      (\<exists>s'. slot_run (Some k) n s' \<and> at_phase s' g Scanning \<and> in_progress s' = e_others env (clock w') + slots_held w' \<and>
        in_progress s' \<le> k))"
proof -
  have inv: "chan s = in_progress s" "in_progress s \<le> k"
    using scan_slots.holds [OF assms] by (auto simp: slots_inv_def)
  have "\<exists>s'. slot_run (Some k) n s' \<and> at_phase s' g Scanning \<and> in_progress s' = e_others env (clock w') + slots_held w' \<and>
      in_progress s' \<le> k"
    if q: "at_phase s g Queued" "sem c = Some k" "slots_held w = 0" "acquireScanSlot env ctx c w = Some (None, w')"
      "e_others env (clock w') = in_progress s"
  proof -
    let ?s = "move g Scanning (s\<lparr>chan := Suc (chan s)\<rparr>)"
    have e: "slot_step (Some k) s ?s" "slots_held w' = 1"
      using acquire_enters [OF q(4,2,3) _ q(1)] q(5) inv(1) by simp_all
    have r: "slot_run (Some k) n ?s" by (rule run_step [OF assms e(1)])
    have "chan ?s = in_progress ?s" "in_progress ?s \<le> k" using scan_slots.holds [OF r] by (auto simp: slots_inv_def)
    with r e(2) q(1,5) inv(1) show ?thesis by (intro exI [of _ ?s]) simp
  qed
  with inv slot_run_leave [OF assms] slot_run_enter [OF assms] show ?thesis by blast
qed

theorem concurrency_limit_witness:
  "\<exists>s. slot_run (Some 1) 2 s \<and> at_phase s 0 Scanning \<and> at_phase s 1 Queued \<and> in_progress s \<le> 1 \<and> chan s = 1"
proof -
  let ?a = "move 0 Queued (start_slots 2)"
  let ?b = "move 1 Queued ?a"
  let ?c = "move 0 Scanning (?b\<lparr>chan := Suc (chan ?b)\<rparr>)"
  have "slot_run (Some 1) 2 ?a"
    by (rule run_step [OF run_start]) (rule arrive, simp add: at_phase_def start_slots_def)
  then have "slot_run (Some 1) 2 ?b"
    by (rule run_step) (rule arrive, simp add: at_phase_def start_slots_def move_def)
  then have run: "slot_run (Some 1) 2 ?c"
    by (rule run_step) (rule enter [where k = 1], simp_all add: at_phase_def start_slots_def move_def)
  have "at_phase ?c 0 Scanning" "at_phase ?c 1 Queued" "chan ?c = 1"
    by (simp_all add: at_phase_def start_slots_def move_def)
  with run concurrency_limit [OF run] show ?thesis by blast
qed

end
