(* ===== verification/FakeServer.thy ===== *)
theory FakeServer
  imports FakeClamd
begin

text \<open>
  The life of the fake server (\<open>internal/clamdtest/fake.go\<close>): \<open>New\<close>, the accept loop \<open>serve\<close>, the
  goroutine of each connection with its waits (\<open>Hang\<close>, \<open>Delay\<close>, \<open>DripInterval\<close>), the changes of the
  script while it runs (\<open>SetHandler\<close>, \<open>SetStreamLimit\<close>, \<open>SetEarlyReply\<close>), and \<open>Close\<close>.

  A connection's goroutine is a record with a stage, and a step is one thing it does: reading the
  command, loading a part of the script, decoding a chunk, the end of a wait, a write, or its return.
  Time is nondeterminism: a wait may end at any point, and so may \<open>connSafetyDeadline\<close>, after which
  nothing more is received and writes fail.

  What a connection writes is the beginning of an answer to the bytes received on it (\<open>answered\<close>),
  each part of which comes from a script that was set; when the script did not change, that answer is
  \<open>handleConn\<close> of \<open>FakeClamd\<close>: the step relation refines that function. \<open>FakeShutdown\<close> is about
  \<open>Close\<close>.
\<close>

subsection \<open>A connection\<close>

text \<open>One round of the loop of \<open>readChunks\<close>: the body so far, the bytes still to read.\<close>

datatype chunk_result = Short | Ended | Dropped bytes | Grown bytes nat

definition chunk_round :: "(int \<times> bytes) option \<Rightarrow> int \<Rightarrow> bytes \<Rightarrow> bytes \<Rightarrow> chunk_result" where
  "chunk_round early limit body br =
     (if length br < 4 then Short
      else let n = be_get32 (take 4 br); br' = drop 4 br in
        if n = 0 then Ended
        else if n > maxFakeChunk then Dropped []
        else if length br' < unat n then Short
        else let body' = body @ take (unat n) br' in
          (case early of
             Some (after, data) \<Rightarrow>
               if int (length body') > after then Dropped data
               else if limit > 0 \<and> int (length body') > limit
               then Dropped (nul_terminated ''INSTREAM size limit exceeded. ERROR'')
               else Grown body' (unat n + 4)
           | None \<Rightarrow>
               if limit > 0 \<and> int (length body') > limit
               then Dropped (nul_terminated ''INSTREAM size limit exceeded. ERROR'')
               else Grown body' (unat n + 4)))"

text \<open>
  The stages of \<open>handleConn\<close>. \<open>Chunking lim body k\<close> is \<open>readChunks\<close> with the limit it has loaded,
  after \<open>k\<close> of the received bytes; \<open>Asking\<close>, about to get the handler.
\<close>

datatype stage = Reading | Chunking int bytes nat | Asking request | Hanging | Delaying response |
  Sending bytes | Dripping bytes | Returned | Gone

record fconn =
  c_recv :: bytes
  c_sent :: bytes
  c_at :: stage
  c_expired :: bool

definition new_fconn :: fconn where
  "new_fconn = \<lparr>c_recv = [], c_sent = [], c_at = Reading, c_expired = False\<rparr>"

definition after_delay :: "response \<Rightarrow> stage" where
  "after_delay resp =
     (if Data resp = [] then Returned
      else if DripInterval resp > 0 then Dripping (Data resp)
      else Sending (Data resp))"

definition start_reply :: "response \<Rightarrow> stage" where
  "start_reply resp = (if Hang resp then Hanging else if Delay resp > 0 then Delaying resp else after_delay resp)"

text \<open>
  \<open>f\<close>: the script now; \<open>dn\<close>: the channel \<open>done\<close> is closed; \<open>smooth\<close>: no read or write fails before
  the safety deadline. A \<open>select\<close> with both cases ready takes either.
\<close>

inductive conn_step :: "fake \<Rightarrow> bool \<Rightarrow> bool \<Rightarrow> fconn \<Rightarrow> fconn \<Rightarrow> bool" for f dn smooth where
  bad_command: "c_at c = Reading \<Longrightarrow> readCommand (c_recv c) = Inl e \<Longrightarrow> e \<noteq> IoEOF \<Longrightarrow>
    conn_step f dn smooth c (c\<lparr>c_at := Returned\<rparr>)"
| command: "c_at c = Reading \<Longrightarrow> readCommand (c_recv c) = Inr (cmd, br) \<Longrightarrow> cmd \<noteq> ''INSTREAM'' \<Longrightarrow>
    conn_step f dn smooth c (c\<lparr>c_at := Asking \<lparr>Command = cmd, Body = []\<rparr>\<rparr>)"
| instream: "c_at c = Reading \<Longrightarrow> readCommand (c_recv c) = Inr (''INSTREAM'', br) \<Longrightarrow>
    conn_step f dn smooth c (c\<lparr>c_at := Chunking (streamLimit f) [] (length (c_recv c) - length br)\<rparr>)"
| chunk: "c_at c = Chunking lim body k \<Longrightarrow>
    chunk_round (earlyReply f) lim body (drop k (c_recv c)) = Grown body' n \<Longrightarrow>
    conn_step f dn smooth c (c\<lparr>c_at := Chunking lim body' (k + n)\<rparr>)"
| chunk_refused: "c_at c = Chunking lim body k \<Longrightarrow>
    chunk_round (earlyReply f) lim body (drop k (c_recv c)) = Dropped out \<Longrightarrow>
    conn_step f dn smooth c (c\<lparr>c_at := if out = [] then Returned else Sending out\<rparr>)"
| chunks_end: "c_at c = Chunking lim body k \<Longrightarrow>
    chunk_round (earlyReply f) lim body (drop k (c_recv c)) = Ended \<Longrightarrow>
    conn_step f dn smooth c (c\<lparr>c_at := Asking \<lparr>Command = ''INSTREAM'', Body = body\<rparr>\<rparr>)"
| ask: "c_at c = Asking req \<Longrightarrow> conn_step f dn smooth c (c\<lparr>c_at := start_reply (fake_handler f req)\<rparr>)"
| read_fails: "c_at c = Reading \<or> c_at c = Chunking lim body k \<Longrightarrow> \<not> smooth \<or> c_expired c \<Longrightarrow>
    conn_step f dn smooth c (c\<lparr>c_at := Returned\<rparr>)"
| hang_over: "c_at c = Hanging \<Longrightarrow> dn \<Longrightarrow> conn_step f dn smooth c (c\<lparr>c_at := Returned\<rparr>)"
| delay_over: "c_at c = Delaying resp \<Longrightarrow> conn_step f dn smooth c (c\<lparr>c_at := after_delay resp\<rparr>)"
| delay_cut: "c_at c = Delaying resp \<Longrightarrow> dn \<Longrightarrow> conn_step f dn smooth c (c\<lparr>c_at := Returned\<rparr>)"
| send: "c_at c = Sending d \<Longrightarrow> \<not> c_expired c \<Longrightarrow>
    conn_step f dn smooth c (c\<lparr>c_sent := c_sent c @ d, c_at := Returned\<rparr>)"
| send_fails: "c_at c = Sending d \<Longrightarrow> \<not> smooth \<or> c_expired c \<Longrightarrow>
    conn_step f dn smooth c (c\<lparr>c_sent := c_sent c @ take k d, c_at := Returned\<rparr>)"
| drip: "c_at c = Dripping (b # bs) \<Longrightarrow> \<not> c_expired c \<Longrightarrow>
    conn_step f dn smooth c (c\<lparr>c_sent := c_sent c @ [b], c_at := Dripping bs\<rparr>)"
| drip_cut: "c_at c = Dripping (b # bs) \<Longrightarrow> dn \<or> \<not> smooth \<or> c_expired c \<Longrightarrow>
    conn_step f dn smooth c (c\<lparr>c_at := Returned\<rparr>)"
| drip_end: "c_at c = Dripping [] \<Longrightarrow> conn_step f dn smooth c (c\<lparr>c_at := Returned\<rparr>)"

inductive_cases conn_stepE: "conn_step f dn smooth c c'"

inductive_simps conn_step_Reading: "conn_step f dn smooth \<lparr>c_recv = br, c_sent = d, c_at = Reading, c_expired = x\<rparr> c'"
  and conn_step_Asking: "conn_step f dn smooth \<lparr>c_recv = br, c_sent = d, c_at = Asking req, c_expired = x\<rparr> c'"
  and conn_step_Sending: "conn_step f dn smooth \<lparr>c_recv = br, c_sent = d, c_at = Sending out, c_expired = x\<rparr> c'"

subsection \<open>The server\<close>

text \<open>How far \<open>closeOnce\<close> has come with the body of \<open>Close\<close>.\<close>

datatype closing = NotClosed | DoneClosed | Draining | Completed

record server =
  script :: fake
  listening :: bool
  done_closed :: bool
  accepting :: bool
  wg :: nat
  once :: closing
  conns :: "fconn list"

definition start_server :: server where
  "start_server = \<lparr>script = new_fake, listening = True, done_closed = False, accepting = True, wg = 1,
     once = NotClosed, conns = []\<rparr>"

datatype fatal = FatalDir goerr | FatalListen string goerr | FatalNetwork string

text \<open>
  \<open>New\<close>: what \<open>os.MkdirTemp\<close>, \<open>filepath.Join\<close> and \<open>Listen\<close> return are arguments; \<open>listen\<close> gives the
  listener's address. \<open>Inl\<close> is \<open>t.Fatalf\<close>.
\<close>

definition fake_New ::
  "goerr + string \<Rightarrow> (string \<Rightarrow> string \<Rightarrow> string) \<Rightarrow> (string \<Rightarrow> string \<Rightarrow> goerr + string) \<Rightarrow> string \<Rightarrow>
    fatal + (string \<times> server)" where
  "fake_New tempdir join listen net =
     (if net = ''unix'' then
        (case tempdir of
           Inl e \<Rightarrow> Inl (FatalDir e)
         | Inr dir \<Rightarrow>
             let sock = join dir ''clamd.sock'' in
             (case listen ''unix'' sock of
                Inl e \<Rightarrow> Inl (FatalListen sock e)
              | Inr _ \<Rightarrow> Inr (''unix://'' @ sock, start_server)))
      else if net = ''tcp'' then
        (case listen ''tcp'' ''127.0.0.1:0'' of
           Inl e \<Rightarrow> Inl (FatalListen ''tcp'' e)
         | Inr addr \<Rightarrow> Inr (''tcp://'' @ addr, start_server))
      else Inl (FatalNetwork net))"

text \<open>
  The steps of the goroutines: \<open>serve\<close> accepts a connection or returns when the listener is closed;
  a connection moves, or, its handler having returned, is closed and leaves the wait group; the
  first call of \<open>Close\<close> goes through its three statements.
\<close>

inductive goroutine_step :: "bool \<Rightarrow> server \<Rightarrow> server \<Rightarrow> bool" for smooth where
  accept: "accepting s \<Longrightarrow> listening s \<Longrightarrow>
    goroutine_step smooth s (s\<lparr>wg := Suc (wg s), conns := conns s @ [new_fconn]\<rparr>)"
| accept_ends: "accepting s \<Longrightarrow> \<not> listening s \<Longrightarrow>
    goroutine_step smooth s (s\<lparr>accepting := False, wg := wg s - 1\<rparr>)"
| serve: "i < length (conns s) \<Longrightarrow> conn_step (script s) (done_closed s) smooth (conns s ! i) c \<Longrightarrow>
    goroutine_step smooth s (s\<lparr>conns := (conns s)[i := c]\<rparr>)"
| finish: "i < length (conns s) \<Longrightarrow> c_at (conns s ! i) = Returned \<Longrightarrow>
    goroutine_step smooth s (s\<lparr>conns := (conns s)[i := (conns s ! i)\<lparr>c_at := Gone\<rparr>], wg := wg s - 1\<rparr>)"
| close_done: "once s = NotClosed \<Longrightarrow> goroutine_step smooth s (s\<lparr>done_closed := True, once := DoneClosed\<rparr>)"
| close_listener: "once s = DoneClosed \<Longrightarrow> goroutine_step smooth s (s\<lparr>listening := False, once := Draining\<rparr>)"
| close_returns: "once s = Draining \<Longrightarrow> wg s = 0 \<Longrightarrow> goroutine_step smooth s (s\<lparr>once := Completed\<rparr>)"

inductive_cases goroutine_stepE: "goroutine_step smooth s s'"

text \<open>
  What happens around them: a client's bytes arrive on an open connection, the safety deadline of a
  connection passes, the test changes the script. \<open>A\<close>: the scripts it changes to.
\<close>

inductive client_sends :: "server \<Rightarrow> server \<Rightarrow> bool" where
  "i < length (conns s) \<Longrightarrow> c_at (conns s ! i) \<noteq> Gone \<Longrightarrow> \<not> c_expired (conns s ! i) \<Longrightarrow>
    client_sends s (s\<lparr>conns := (conns s)[i := (conns s ! i)\<lparr>c_recv := c_recv (conns s ! i) @ bs\<rparr>]\<rparr>)"

inductive deadline_passes :: "server \<Rightarrow> server \<Rightarrow> bool" where
  "i < length (conns s) \<Longrightarrow>
    deadline_passes s (s\<lparr>conns := (conns s)[i := (conns s ! i)\<lparr>c_expired := True\<rparr>]\<rparr>)"

inductive script_changes :: "fake set \<Rightarrow> server \<Rightarrow> server \<Rightarrow> bool" for A where
  set_handler: "SetHandler h (script s) \<in> A \<Longrightarrow> script_changes A s (s\<lparr>script := SetHandler h (script s)\<rparr>)"
| set_limit: "SetStreamLimit n (script s) \<in> A \<Longrightarrow> script_changes A s (s\<lparr>script := SetStreamLimit n (script s)\<rparr>)"
| set_early: "SetEarlyReply n raw (script s) \<in> A \<Longrightarrow>
    script_changes A s (s\<lparr>script := SetEarlyReply n raw (script s)\<rparr>)"

inductive_cases client_sendsE: "client_sends s s'"
inductive_cases deadline_passesE: "deadline_passes s s'"
inductive_cases script_changesE: "script_changes A s s'"

definition server_step :: "fake set \<Rightarrow> bool \<Rightarrow> server \<Rightarrow> server \<Rightarrow> bool" where
  "server_step A smooth s s' \<longleftrightarrow>
     goroutine_step smooth s s' \<or> client_sends s s' \<or> deadline_passes s s' \<or> script_changes A s s'"

lemma server_goroutine: "goroutine_step smooth s s' \<Longrightarrow> server_step A smooth s s'"
  by (simp add: server_step_def)

text \<open>A server whose script was set before the first connection.\<close>

definition scripted :: "fake \<Rightarrow> server" where
  "scripted f = start_server\<lparr>script := f\<rparr>"

subsection \<open>What a connection is answered\<close>

text \<open>
  The contract, without goroutines: how far \<open>readChunks\<close> has come with the received bytes, the request
  that was decoded, and the answer, when each part of the script is taken from some script of \<open>A\<close> at
  the moment it is needed.
\<close>

inductive streamed_to :: "fake set \<Rightarrow> bytes \<Rightarrow> int \<Rightarrow> bytes \<Rightarrow> nat \<Rightarrow> bool" for A br where
  start: "readCommand br = Inr (''INSTREAM'', rest) \<Longrightarrow> g \<in> A \<Longrightarrow>
    streamed_to A br (streamLimit g) [] (length br - length rest)"
| grown: "streamed_to A br lim body k \<Longrightarrow> g \<in> A \<Longrightarrow>
    chunk_round (earlyReply g) lim body (drop k br) = Grown body' n \<Longrightarrow> streamed_to A br lim body' (k + n)"

inductive asked :: "fake set \<Rightarrow> bytes \<Rightarrow> request \<Rightarrow> bool" for A br where
  plain: "readCommand br = Inr (cmd, rest) \<Longrightarrow> cmd \<noteq> ''INSTREAM'' \<Longrightarrow> asked A br \<lparr>Command = cmd, Body = []\<rparr>"
| stream: "streamed_to A br lim body k \<Longrightarrow> g \<in> A \<Longrightarrow> chunk_round (earlyReply g) lim body (drop k br) = Ended \<Longrightarrow>
    asked A br \<lparr>Command = ''INSTREAM'', Body = body\<rparr>"

inductive answered :: "fake set \<Rightarrow> bytes \<Rightarrow> served \<Rightarrow> bool" for A br where
  no_command: "readCommand br = Inl e \<Longrightarrow> e \<noteq> IoEOF \<Longrightarrow> answered A br (Closed [])"
| refused: "streamed_to A br lim body k \<Longrightarrow> g \<in> A \<Longrightarrow>
    chunk_round (earlyReply g) lim body (drop k br) = Dropped out \<Longrightarrow> answered A br (Closed out)"
| handled: "asked A br req \<Longrightarrow> g \<in> A \<Longrightarrow> answered A br (respond g req)"

text \<open>With one script the answer is that of \<open>handleConn\<close>.\<close>

lemma readChunks_loop_round:
  "readChunks_loop f body br =
     (case chunk_round (earlyReply f) (streamLimit f) body br of
        Short \<Rightarrow> Starving | Ended \<Rightarrow> Chunks body | Dropped out \<Rightarrow> Dropping out
      | Grown body' n \<Rightarrow> readChunks_loop f body' (drop n br))"
  by (subst readChunks_loop.simps) (auto simp: chunk_round_def Let_def split: option.split)

lemma readCommand_rest: "readCommand br = Inr (cmd, rest) \<Longrightarrow> \<exists>pre. br = pre @ rest"
proof -
  have "\<exists>pre. br = pre @ rest" if "readCommand_loop buf br = Inr (cmd, rest)" for buf
    using that
  proof (induction br arbitrary: buf)
    case (Cons b br)
    show ?case
    proof (cases "b = 0 \<or> b = 10")
      case True
      with Cons.prems show ?thesis by auto
    next
      case False
      with Cons.prems have "readCommand_loop (buf @ [b]) br = Inr (cmd, rest)" by (auto split: if_splits)
      from Cons.IH [OF this] show ?thesis by (metis append_Cons)
    qed
  qed simp
  then show "readCommand br = Inr (cmd, rest) \<Longrightarrow> \<exists>pre. br = pre @ rest" by (auto simp: readCommand_def)
qed

lemma streamed_to_one:
  assumes "streamed_to {f} br lim body k"
  shows "lim = streamLimit f \<and> (\<exists>rest. readCommand br = Inr (''INSTREAM'', rest) \<and>
    readChunks f rest = readChunks_loop f body (drop k br))"
  using assms
proof (induction rule: streamed_to.induct)
  case (start rest g)
  then show ?case using readCommand_rest [OF start(1)] by (auto simp: readChunks_def)
next
  case (grown lim body k g body' n)
  then show ?case by (auto simp: readChunks_loop_round [of f body "drop k br"] add.commute)
qed

lemma asked_one:
  assumes "asked {f} br req"
  shows "handleConn f br = respond f req"
  using assms
proof (cases rule: asked.cases)
  case (stream lim body k g)
  then show ?thesis
    using streamed_to_one [OF stream(2)] readChunks_loop_round [of f body "drop k br"] by (auto simp: handleConn_def)
qed (simp add: handleConn_def)

lemma answered_one:
  assumes "answered {f} br res"
  shows "handleConn f br = res"
  using assms
proof (cases rule: answered.cases)
  case (refused lim body k g out)
  then show ?thesis
    using streamed_to_one [OF refused(2)] readChunks_loop_round [of f body "drop k br"] by (auto simp: handleConn_def)
next
  case (handled req g)
  then show ?thesis using asked_one [OF handled(2)] by simp
qed (simp add: handleConn_def)

subsection \<open>What has been decided stays decided\<close>

lemma readCommand_more:
  assumes "readCommand br \<noteq> Inl IoEOF"
  shows "readCommand (br @ x) = map_sum id (\<lambda>(cmd, rest). (cmd, rest @ x)) (readCommand br)"
proof -
  have "readCommand_loop buf (br @ x) = map_sum id (\<lambda>(cmd, rest). (cmd, rest @ x)) (readCommand_loop buf br)"
    if "readCommand_loop buf br \<noteq> Inl IoEOF" for buf
    using that by (induction br arbitrary: buf) auto
  with assms show ?thesis by (simp add: readCommand_def)
qed

lemma chunk_round_more:
  assumes "chunk_round e lim body br \<noteq> Short"
  shows "chunk_round e lim body (br @ x) = chunk_round e lim body br"
proof -
  let ?n = "be_get32 br"
  have four: "\<not> length br < 4" using assms by (auto simp: chunk_round_def)
  then have hd: "be_get32 (br @ x) = ?n" "drop 4 (br @ x) = drop 4 br @ x" "\<not> length (br @ x) < 4"
    using be_get32_take [of "br @ x"] be_get32_take [of br] by (simp_all del: be_get32_take)
  show ?thesis
  proof (cases "?n = 0 \<or> ?n > maxFakeChunk")
    case True
    then show ?thesis using four hd(1,3) by (elim disjE) (simp_all add: chunk_round_def Let_def)
  next
    case False
    then have "\<not> length (drop 4 br) < unat ?n" using assms four by (auto simp: chunk_round_def Let_def)
    then have "\<not> length (drop 4 br @ x) < unat ?n" "take (unat ?n) (drop 4 br @ x) = take (unat ?n) (drop 4 br)"
      by simp_all
    with \<open>\<not> length (drop 4 br) < unat ?n\<close> False four hd show ?thesis
      by (simp only: chunk_round_def Let_def be_get32_take)
  qed
qed

lemma chunk_round_grown:
  assumes "chunk_round e lim body br = Grown body' n"
  shows "0 < n" "n \<le> length br"
  using assms by (auto simp: chunk_round_def Let_def split: if_splits option.splits)

lemma streamed_to_length: "streamed_to A br lim body k \<Longrightarrow> k \<le> length br"
proof (induction rule: streamed_to.induct)
  case (grown lim body k g body' n)
  then show ?case using chunk_round_grown [OF grown(3)] by simp
qed simp

lemma streamed_to_more: "streamed_to A br lim body k \<Longrightarrow> streamed_to A (br @ x) lim body k"
proof (induction rule: streamed_to.induct)
  case (start rest g)
  then show ?case
    using streamed_to.start [of "br @ x" "rest @ x" g A] readCommand_more [of br x] by simp
next
  case (grown lim body k g body' n)
  then have "chunk_round (earlyReply g) lim body (drop k (br @ x)) = Grown body' n"
    using chunk_round_more [of "earlyReply g" lim body "drop k br" x] streamed_to_length [OF grown(1)] by simp
  with grown show ?case by (intro streamed_to.grown)
qed

lemma asked_more:
  assumes "asked A br req"
  shows "asked A (br @ x) req"
  using assms
proof (cases rule: asked.cases)
  case (plain cmd rest)
  then show ?thesis using asked.plain [of "br @ x" cmd "rest @ x" A] readCommand_more [of br x] by simp
next
  case (stream lim body k g)
  then show ?thesis
    using asked.stream [OF streamed_to_more [OF stream(2)] stream(3)] streamed_to_length [OF stream(2)]
      chunk_round_more [of "earlyReply g" lim body "drop k br" x] by simp
qed

lemma answered_more:
  assumes "answered A br res"
  shows "answered A (br @ x) res"
  using assms
proof (cases rule: answered.cases)
  case (no_command e)
  then show ?thesis using answered.no_command [of "br @ x" e A] readCommand_more [of br x] by simp
next
  case (refused lim body k g out)
  then show ?thesis
    using answered.refused [OF streamed_to_more [OF refused(2)] refused(3)] streamed_to_length [OF refused(2)]
      chunk_round_more [of "earlyReply g" lim body "drop k br" x] by simp
next
  case (handled req g)
  then show ?thesis using answered.handled asked_more by simp
qed

subsection \<open>A connection is answered\<close>

text \<open>
  What a connection has written, and what it will write. \<open>strict\<close>: nothing has failed, so that at
  the end all is written.
\<close>

definition conn_ok :: "fake set \<Rightarrow> bool \<Rightarrow> fconn \<Rightarrow> bool" where
  "conn_ok A strict c =
     (case c_at c of
        Reading \<Rightarrow> c_sent c = []
      | Chunking lim body k \<Rightarrow> c_sent c = [] \<and> streamed_to A (c_recv c) lim body k
      | Asking req \<Rightarrow> c_sent c = [] \<and> asked A (c_recv c) req
      | Hanging \<Rightarrow> c_sent c = []
      | Delaying resp \<Rightarrow> c_sent c = [] \<and> answered A (c_recv c) (Closed (Data resp))
      | Sending d \<Rightarrow> c_sent c = [] \<and> answered A (c_recv c) (Closed d)
      | Dripping d \<Rightarrow> answered A (c_recv c) (Closed (c_sent c @ d))
      | _ \<Rightarrow> (c_sent c = [] \<or> (\<exists>d. answered A (c_recv c) (Closed (c_sent c @ d)))) \<and>
          (strict \<and> \<not> c_expired c \<longrightarrow> answered A (c_recv c) (Closed (c_sent c))))"

lemma answered_prefix: "answered A br (Closed d) \<Longrightarrow> \<exists>e. answered A br (Closed (d @ e))"
  by (rule exI [of _ "[]"]) simp

lemma conn_ok_new [simp]: "conn_ok A strict new_fconn"
  by (simp add: conn_ok_def new_fconn_def)

lemma conn_ok_weaken: "conn_ok A strict c \<Longrightarrow> (strict' \<Longrightarrow> strict) \<Longrightarrow> conn_ok A strict' c"
  by (auto simp: conn_ok_def split: stage.splits)

lemma conn_ok_gone: "conn_ok A strict c \<Longrightarrow> c_at c = Returned \<Longrightarrow> conn_ok A strict (c\<lparr>c_at := Gone\<rparr>)"
  by (simp add: conn_ok_def)

lemma conn_ok_expired: "conn_ok A strict c \<Longrightarrow> conn_ok A strict (c\<lparr>c_expired := True\<rparr>)"
  by (auto simp: conn_ok_def split: stage.splits)

lemma conn_ok_more: "conn_ok A strict c \<Longrightarrow> conn_ok A strict (c\<lparr>c_recv := c_recv c @ bs\<rparr>)"
  by (auto simp: conn_ok_def dest: answered_more asked_more streamed_to_more split: stage.splits)

lemma conn_ok_reply:
  assumes "c_sent c = []" "answered A (c_recv c) (Closed (Data resp))"
  shows "conn_ok A strict (c\<lparr>c_at := after_delay resp\<rparr>)"
  using assms by (auto simp: conn_ok_def after_delay_def)

lemma conn_ok_step:
  assumes "conn_step f dn smooth c c'" "conn_ok A strict c" "strict \<Longrightarrow> smooth \<and> \<not> dn" "f \<in> A"
  shows "conn_ok A strict c'"
  using assms
proof (induction rule: conn_step.induct)
  case (bad_command c e)
  then show ?case using answered.no_command [of "c_recv c" e A] by (simp add: conn_ok_def)
next
  case (command c cmd br)
  then show ?case using asked.plain [of "c_recv c" cmd br A] by (simp add: conn_ok_def)
next
  case (instream c br)
  then show ?case using streamed_to.start [of "c_recv c" br f A] by (simp add: conn_ok_def)
next
  case (chunk c lim body k body' n)
  then show ?case using streamed_to.grown [of A "c_recv c" lim body k f body' n] by (simp add: conn_ok_def)
next
  case (chunk_refused c lim body k out)
  then show ?case using answered.refused [of A "c_recv c" lim body k f out] by (auto simp: conn_ok_def)
next
  case (chunks_end c lim body k)
  then show ?case using asked.stream [of A "c_recv c" lim body k f] by (simp add: conn_ok_def)
next
  case (ask c req)
  then have h: "answered A (c_recv c) (respond f req)" "c_sent c = []"
    using answered.handled [of A "c_recv c" req f] by (simp_all add: conn_ok_def)
  show ?case
  proof (cases "Hang (fake_handler f req) \<or> Delay (fake_handler f req) > 0")
    case True
    with h show ?thesis by (auto simp: conn_ok_def start_reply_def respond_def Let_def)
  next
    case False
    with h conn_ok_reply [of c A "fake_handler f req" strict] show ?thesis
      by (simp add: start_reply_def respond_def Let_def)
  qed
next
  case (delay_over c resp)
  then show ?case using conn_ok_reply [of c A resp strict] by (simp add: conn_ok_def)
next
  case (send_fails c d k)
  then have "answered A (c_recv c) (Closed (take k d @ drop k d))" "\<not> strict \<or> c_expired c" "c_sent c = []"
    by (auto simp: conn_ok_def)
  then have "\<exists>e. answered A (c_recv c) (Closed (take k d @ e))" by blast
  with \<open>\<not> strict \<or> c_expired c\<close> \<open>c_sent c = []\<close> show ?case by (auto simp: conn_ok_def)
next
  case (send c d)
  then have "answered A (c_recv c) (Closed (c_sent c @ d))" by (simp add: conn_ok_def)
  with answered_prefix [OF this] show ?case by (simp add: conn_ok_def)
next
  case (drip_end c)
  then have "answered A (c_recv c) (Closed (c_sent c))" by (simp add: conn_ok_def)
  with answered_prefix [OF this] show ?case by (simp add: conn_ok_def)
qed (auto simp: conn_ok_def)

subsection \<open>The invariant of the server\<close>

definition gone :: "fconn \<Rightarrow> bool" where
  "gone c \<longleftrightarrow> c_at c = Gone"

definition running :: "server \<Rightarrow> nat" where
  "running s = (if accepting s then 1 else 0) + length (filter (\<lambda>c. \<not> gone c) (conns s))"

definition server_inv :: "fake set \<Rightarrow> bool \<Rightarrow> server \<Rightarrow> bool" where
  "server_inv A smooth s \<longleftrightarrow> script s \<in> A \<and> wg s = running s \<and>
     (\<forall>c \<in> set (conns s). conn_ok A (smooth \<and> \<not> done_closed s) c) \<and>
     (once s = NotClosed \<longleftrightarrow> \<not> done_closed s) \<and>
     (once s \<in> {Draining, Completed} \<longleftrightarrow> \<not> listening s) \<and>
     (once s = Completed \<longrightarrow> wg s = 0)"

lemma length_filter_update:
  "i < length xs \<Longrightarrow> length (filter P (xs[i := y])) + (if P (xs ! i) then 1 else 0) =
    length (filter P xs) + (if P y then 1 else 0)"
proof (induction xs arbitrary: i)
  case (Cons a xs)
  then show ?case by (cases i) auto
qed simp

lemma conn_step_not_gone:
  assumes "conn_step f dn smooth c c'"
  shows "\<not> gone c" "\<not> gone c'"
  using assms by (auto elim!: conn_stepE simp: gone_def after_delay_def start_reply_def split: if_splits)

lemma running_update:
  assumes "i < length (conns s)"
  shows "running (s\<lparr>conns := (conns s)[i := c]\<rparr>) + (if gone (conns s ! i) then 0 else 1) =
    running s + (if gone c then 0 else 1)"
  using length_filter_update [OF assms, of "\<lambda>c. \<not> gone c" c] by (auto simp: running_def split: if_splits)

lemma set_update_all: "\<forall>x \<in> set xs. P x \<Longrightarrow> P y \<Longrightarrow> \<forall>x \<in> set (xs[i := y]). P x"
  using set_update_subset_insert by fastforce

lemma server_inv_start: "f \<in> A \<Longrightarrow> server_inv A smooth (scripted f)"
  by (simp add: server_inv_def scripted_def start_server_def running_def)

lemma running_simps [simp]:
  "running (s\<lparr>wg := n\<rparr>) = running s" "running (s\<lparr>once := k\<rparr>) = running s"
  "running (s\<lparr>done_closed := b\<rparr>) = running s" "running (s\<lparr>listening := b\<rparr>) = running s"
  "running (s\<lparr>script := g\<rparr>) = running s"
  by (simp_all add: running_def)

lemma server_inv_update:
  assumes "server_inv A smooth s" "i < length (conns s)" "conn_ok A (smooth \<and> \<not> done_closed s) c"
    "gone c = gone (conns s ! i)"
  shows "server_inv A smooth (s\<lparr>conns := (conns s)[i := c]\<rparr>)"
proof -
  have "\<forall>c \<in> set ((conns s)[i := c]). conn_ok A (smooth \<and> \<not> done_closed s) c"
    using assms(1,3) by (intro set_update_all) (auto simp: server_inv_def)
  moreover have "running (s\<lparr>conns := (conns s)[i := c]\<rparr>) = running s"
    using running_update [OF assms(2), of c] assms(4) by simp
  ultimately show ?thesis using assms(1) by (auto simp: server_inv_def)
qed

lemma goroutine_step_inv:
  assumes "goroutine_step smooth s s'" "server_inv A smooth s"
  shows "server_inv A smooth s'"
  using assms
proof (induction rule: goroutine_step.induct)
  case (accept s)
  then show ?case by (auto simp: server_inv_def running_def gone_def new_fconn_def conn_ok_def)
next
  case (accept_ends s)
  then show ?case by (auto simp: server_inv_def running_def)
next
  case (serve i s c)
  then have "conn_ok A (smooth \<and> \<not> done_closed s) c"
    by (intro conn_ok_step [OF serve(2)]) (auto simp: server_inv_def)
  with serve conn_step_not_gone [OF serve(2)] show ?case by (intro server_inv_update) auto
next
  case (finish i s)
  let ?ok = "conn_ok A (smooth \<and> \<not> done_closed s)" and ?c = "(conns s ! i)\<lparr>c_at := Gone\<rparr>"
  have "?ok ?c" using finish by (intro conn_ok_gone) (auto simp: server_inv_def)
  then have "\<forall>c \<in> set ((conns s)[i := ?c]). ?ok c"
    using finish(3) by (intro set_update_all) (auto simp: server_inv_def)
  moreover have "running (s\<lparr>conns := (conns s)[i := ?c]\<rparr>) = running s - 1" "running s \<noteq> 0"
    using running_update [OF finish(1), of ?c] finish(2) by (auto simp: gone_def)
  ultimately show ?case using finish(3) by (auto simp: server_inv_def)
next
  case (close_done s)
  then show ?case by (auto simp: server_inv_def intro: conn_ok_weaken)
qed (auto simp: server_inv_def)

lemma environment_step_inv:
  assumes "server_inv A smooth s"
  shows "client_sends s s' \<Longrightarrow> server_inv A smooth s'" "deadline_passes s s' \<Longrightarrow> server_inv A smooth s'"
    "script_changes A s s' \<Longrightarrow> server_inv A smooth s'"
proof -
  have ok: "conn_ok A (smooth \<and> \<not> done_closed s) (conns s ! i)" if "i < length (conns s)" for i
    using assms that by (auto simp: server_inv_def)
  show "client_sends s s' \<Longrightarrow> server_inv A smooth s'"
    by (elim client_sendsE) (auto intro!: server_inv_update assms conn_ok_more ok simp: gone_def)
  show "deadline_passes s s' \<Longrightarrow> server_inv A smooth s'"
    by (elim deadline_passesE) (auto intro!: server_inv_update assms conn_ok_expired ok simp: gone_def)
  show "script_changes A s s' \<Longrightarrow> server_inv A smooth s'"
    using assms by (elim script_changesE) (auto simp: server_inv_def)
qed

interpretation fake_server: invariant_of "server_step A smooth" "scripted f" "server_inv (insert f A) smooth"
  for A smooth f
proof
  show "server_inv (insert f A) smooth (scripted f)" by (rule server_inv_start) simp
next
  fix s s' assume inv: "server_inv (insert f A) smooth s" and "server_step A smooth s s'"
  then consider "goroutine_step smooth s s'" | "client_sends s s'" | "deadline_passes s s'" |
    "script_changes (insert f A) s s'"
    by (auto simp: server_step_def elim!: script_changesE intro: script_changes.intros)
  then show "server_inv (insert f A) smooth s'"
    by cases (use inv environment_step_inv goroutine_step_inv in blast)+
qed

text \<open>The address of the fake is one that \<open>New\<close> of the client takes.\<close>

lemma fake_New_address:
  assumes "fake_New tempdir join listen net = Inr (addr, sv)"
    and "\<And>dir s. hd (join dir s) = CHR ''/'' \<and> join dir s \<noteq> []"
    and "\<And>a. listen ''tcp'' ''127.0.0.1:0'' = Inr a \<Longrightarrow>
      \<exists>host port. SplitHostPort a = Inr (host, port) \<and> host \<noteq> [] \<and> port \<noteq> []"
  shows "\<exists>t. parseAddress addr = Inr (net, t)" "sv = start_server"
proof -
  from assms(1) consider
    (unix) t where "net = ''unix''" "addr = ''unix://'' @ t" "hd t = CHR ''/''" "t \<noteq> []"
  | (tcp) t where "net = ''tcp''" "addr = ''tcp://'' @ t" "listen ''tcp'' ''127.0.0.1:0'' = Inr t"
    using assms(2) by (auto simp: fake_New_def Let_def split: if_splits sum.splits)
  then show "\<exists>t. parseAddress addr = Inr (net, t)"
  proof cases
    case unix
    then show ?thesis using parseAddress_unix [of addr t] by auto
  next
    case tcp
    with assms(3) show ?thesis using parseAddress_tcp [of addr t] by auto
  qed
  show "sv = start_server"
    using assms(1) by (auto simp: fake_New_def Let_def split: if_splits sum.splits)
qed


text \<open>A script set while the server runs.\<close>

definition infected_fake :: fake where
  "infected_fake = SetHandler (RespondWith (nul_terminated ''stream: Eicar-Test FOUND'')) new_fake"

subsection \<open>Properties\<close>

text \<open>
  C20: a connection to the fake follows the script. Whatever the other connections, the waits,
  \<open>Close\<close> and changes of the script do, the bytes written on a connection are the beginning of an
  answer to the bytes received on it, with each part of the script taken from one that was set; when
  nothing failed, its deadline did not pass and \<open>Close\<close> was not called, a finished connection has
  written the answer in full. When the script did not change, the answer is that of \<open>handleConn\<close>.
\<close>

theorem fake_follows_script:
  assumes "reachable (server_step A smooth) (scripted f) s" "c \<in> set (conns s)"
  shows "(c_sent c = [] \<or> (\<exists>rest. answered (insert f A) (c_recv c) (Closed (c_sent c @ rest)))) \<and>
    (smooth \<and> \<not> done_closed s \<and> \<not> c_expired c \<and> c_at c = Gone \<longrightarrow>
      answered (insert f A) (c_recv c) (Closed (c_sent c)) \<and>
      (A \<subseteq> {f} \<longrightarrow> handleConn f (c_recv c) = Closed (c_sent c))) \<and>
    (A \<subseteq> {f} \<longrightarrow> (\<exists>rest. fake_output f (c_recv c) = c_sent c @ rest))"
proof -
  from fake_server.holds [OF assms(1)] assms(2) have ok: "conn_ok (insert f A) (smooth \<and> \<not> done_closed s) c"
    by (simp add: server_inv_def)
  have one: "insert f A = {f}" if "A \<subseteq> {f}" using that by blast
  have sent: "c_sent c = [] \<or> (\<exists>rest. answered (insert f A) (c_recv c) (Closed (c_sent c @ rest)))"
    using ok by (auto simp: conn_ok_def split: stage.splits)
  moreover have "\<exists>rest. fake_output f (c_recv c) = c_sent c @ rest" if "A \<subseteq> {f}"
    using sent answered_one [of f] by (auto simp: one [OF that] fake_output_def)
  moreover have "answered (insert f A) (c_recv c) (Closed (c_sent c))"
    if "smooth \<and> \<not> done_closed s \<and> \<not> c_expired c \<and> c_at c = Gone"
    using ok that by (simp add: conn_ok_def)
  moreover have "handleConn f (c_recv c) = Closed (c_sent c)"
    if "A \<subseteq> {f}" "answered (insert f A) (c_recv c) (Closed (c_sent c))"
    using that(2) answered_one [of f] by (simp add: one [OF that(1)])
  ultimately show ?thesis by blast
qed

theorem fake_follows_script_witness:
  "\<exists>s c. reachable (server_step {infected_fake} True) (scripted new_fake) s \<and> c \<in> set (conns s) \<and> c_at c = Gone \<and>
    c_sent c = nul_terminated ''stream: Eicar-Test FOUND'' \<and>
    answered {new_fake, infected_fake} (c_recv c) (Closed (c_sent c))"
proof -
  let ?f = "infected_fake" and ?d = "nul_terminated ''stream: Eicar-Test FOUND''"
  let ?S = "\<lambda>f n cs. \<lparr>script = f, listening = True, done_closed = False, accepting = True, wg = n, once = NotClosed,
    conns = cs\<rparr>"
  let ?C = "\<lambda>d g. \<lparr>c_recv = EncodeCommand ''PING'', c_sent = d, c_at = g, c_expired = False\<rparr>"
  let ?q = "\<lparr>Command = ''PING'', Body = []\<rparr>"
  let ?r = "reachable (server_step {?f} True) (scripted new_fake)"
  note step = run_step [where step = "server_step {?f} True"] and go = server_goroutine [where A = "{?f}" and smooth = True]
  have cmd: "readCommand (EncodeCommand ''PING'') = Inr (''PING'', [])"
    using readCommand_EncodeCommand [of "''PING''" "[]"] by (simp add: graphic_def)
  have serve1: "?r (?S f 2 [c']) " if "?r (?S f 2 [c])" "conn_step f False True c c'" for f c c'
    using step [OF that(1) go [OF serve [of 0 "?S f 2 [c]" True c']]] that(2) by simp
  have "?r (?S new_fake 1 [])"
    using run_start [of "server_step {?f} True" "scripted new_fake"] by (simp add: scripted_def start_server_def)
  then have "?r (?S new_fake 2 [new_fconn])"
    by (rule step) (use accept [of "?S new_fake 1 []" True] in \<open>auto intro!: go simp: numeral_2_eq_2\<close>)
  then have "?r (?S new_fake 2 [?C [] Reading])"
    by (rule step) (use client_sends.intros [of 0 "?S new_fake 2 [new_fconn]" "EncodeCommand ''PING''"] in
      \<open>simp add: server_step_def new_fconn_def\<close>)
  then have "?r (?S new_fake 2 [?C [] (Asking ?q)])"
    by (rule serve1) (use cmd in \<open>simp add: conn_step_Reading\<close>)
  then have "?r (?S ?f 2 [?C [] (Asking ?q)])"
    by (rule step) (use set_handler [of "RespondWith ?d" "?S new_fake 2 [?C [] (Asking ?q)]" "{?f}"] in
      \<open>simp add: server_step_def infected_fake_def\<close>)
  then have "?r (?S ?f 2 [?C [] (Sending ?d)])"
    by (rule serve1) (simp add: conn_step_Asking start_reply_def after_delay_def infected_fake_def SetHandler_def
        RespondWith_def data_response_def nul_terminated_def)
  then have "?r (?S ?f 2 [?C ?d Returned])"
    by (rule serve1) (simp add: conn_step_Sending)
  then have run: "?r (?S ?f 1 [?C ?d Gone])"
    by (rule step) (use finish [of 0 "?S ?f 2 [?C ?d Returned]" True] in \<open>auto intro!: go\<close>)
  have "answered {new_fake, ?f} (c_recv (?C ?d Gone)) (Closed (c_sent (?C ?d Gone)))"
    using fake_follows_script [OF run, of "?C ?d Gone"] by simp
  with run show ?thesis by (intro exI [of _ "?S ?f 1 [?C ?d Gone]"] exI [of _ "?C ?d Gone"]) simp
qed

end
