(* ===== verification/FakeShutdown.thy ===== *)
theory FakeShutdown
  imports FakeServer "HOL-Library.Multiset"
begin

text \<open>
  \<open>Close\<close> of the fake server (\<open>internal/clamdtest/fake.go\<close>): after it has closed the channel \<open>done\<close> and
  the listener it waits for the goroutines, and they end. Each of their steps lowers a measure, the
  multiset of the connections' weights, as soon as the safety deadlines keep the clients from adding
  to it; and there is a step as long as one of them is left. So a run that the scheduler does not
  stop comes to the return of \<open>Close\<close>.
\<close>

subsection \<open>Close\<close>

text \<open>
  Each step of a goroutine after the listener is closed does some of the work that is left: the
  weights of the connections, compared as multisets, and what \<open>serve\<close> and \<open>Close\<close> have to do. Only a
  client's bytes add work, and a connection takes none after its deadline.
\<close>

fun weight :: "nat \<Rightarrow> stage \<Rightarrow> nat \<times> nat" where
  "weight _ Reading = (7, 0)"
| "weight r (Chunking _ _ k) = (6, r - k)"
| "weight _ (Asking _) = (5, 0)"
| "weight _ (Delaying _) = (4, 0)"
| "weight _ Hanging = (3, 0)"
| "weight _ (Sending _) = (2, 0)"
| "weight _ (Dripping bs) = (2, length bs)"
| "weight _ Returned = (1, 0)"
| "weight _ Gone = (0, 0)"

definition conn_weight :: "fconn \<Rightarrow> nat \<times> nat" where
  "conn_weight c = weight (length (c_recv c)) (c_at c)"

definition work :: "server \<Rightarrow> nat \<times> (nat \<times> nat) multiset" where
  "work s = ((if accepting s then 1 else 0) + (if once s = Completed then 0 else 1),
     mset (map conn_weight (conns s)))"

definition less_work :: "((nat \<times> (nat \<times> nat) multiset) \<times> (nat \<times> (nat \<times> nat) multiset)) set" where
  "less_work = less_than <*lex*> mult (less_than <*lex*> less_than)"

lemma wf_less_work: "wf less_work"
  unfolding less_work_def by (intro wf_lex_prod wf_mult wf_less_than)

lemma trans_less_work: "trans less_work"
  by (simp add: less_work_def trans_mult)

lemma conn_step_weight:
  assumes "conn_step f dn smooth c c'"
  shows "(conn_weight c', conn_weight c) \<in> less_than <*lex*> less_than"
  using assms
proof (cases rule: conn_step.cases)
  case (chunk lim body k body' n)
  then show ?thesis using chunk_round_grown [OF chunk(3)] by (auto simp: conn_weight_def)
qed (auto simp: conn_weight_def after_delay_def start_reply_def)

lemma mult_update:
  assumes "i < length xs" "(y, xs ! i) \<in> r"
  shows "(mset (xs[i := y]), mset xs) \<in> mult r"
proof -
  let ?M = "mset xs - {#xs ! i#}"
  have "(add_mset y ?M, add_mset (xs ! i) ?M) \<in> mult r"
    using one_step_implies_mult [of "{#xs ! i#}" "{#y#}" r ?M] assms(2) by simp
  moreover have "add_mset (xs ! i) ?M = mset xs" using assms(1) by simp
  ultimately show ?thesis using assms(1) by (simp only: mset_update)
qed

lemma conns_update_work:
  assumes "i < length (conns s)" "(conn_weight c, conn_weight (conns s ! i)) \<in> less_than <*lex*> less_than"
  shows "(work (s\<lparr>conns := (conns s)[i := c]\<rparr>), work s) \<in> less_work"
  using mult_update [of i "map conn_weight (conns s)" "conn_weight c"] assms
  by (simp add: work_def less_work_def map_update)

lemma goroutine_step_work:
  assumes "goroutine_step smooth s s'" "once s \<in> {Draining, Completed}" "\<not> listening s"
  shows "(work s', work s) \<in> less_work"
  using assms
proof (induction rule: goroutine_step.induct)
  case (serve i s c)
  then show ?case by (intro conns_update_work conn_step_weight)
next
  case (finish i s)
  then have "(work (s\<lparr>conns := (conns s)[i := (conns s ! i)\<lparr>c_at := Gone\<rparr>]\<rparr>), work s) \<in> less_work"
    by (intro conns_update_work) (auto simp: conn_weight_def)
  then show ?case by (simp add: work_def)
qed (auto simp: work_def less_work_def)

lemma environment_step_work:
  "deadline_passes s s' \<Longrightarrow> work s' = work s" "script_changes A s s' \<Longrightarrow> work s' = work s"
proof -
  assume "deadline_passes s s'"
  then obtain i where i: "i < length (conns s)"
    and s': "s' = s\<lparr>conns := (conns s)[i := (conns s ! i)\<lparr>c_expired := True\<rparr>]\<rparr>"
    by (elim deadline_passesE)
  have "map conn_weight ((conns s)[i := (conns s ! i)\<lparr>c_expired := True\<rparr>]) = map conn_weight (conns s)"
    using i by (simp add: map_update list_update_same_conv conn_weight_def)
  then show "work s' = work s" by (simp add: work_def s')
next
  assume "script_changes A s s'"
  then show "work s' = work s" by (elim script_changesE) (simp_all add: work_def)
qed

text \<open>A connection is over for its client when its deadline has passed or it is closed.\<close>

definition over :: "fconn \<Rightarrow> bool" where
  "over c \<longleftrightarrow> c_expired c \<or> gone c"

lemma over_simps [simp]: "over (c\<lparr>c_at := Gone\<rparr>)" "over (c\<lparr>c_expired := True\<rparr>)"
  "over (c\<lparr>c_recv := br\<rparr>) = over c"
  by (simp_all add: over_def gone_def)

lemma conn_step_over: "conn_step f dn smooth c c' \<Longrightarrow> over c \<Longrightarrow> over c'"
  using conn_step_not_gone(1) [of f dn smooth c c'] by (auto simp: over_def elim!: conn_stepE)

lemma over_update: "over (xs ! i) \<Longrightarrow> (i = j \<Longrightarrow> over (xs ! j) \<Longrightarrow> over c) \<Longrightarrow> over (xs[j := c] ! i)"
  by (cases "i = j") (metis list_update_beyond nth_list_update_eq not_le_imp_less, simp)

lemma server_step_over:
  assumes "server_step A smooth s s'" "\<not> listening s"
  shows "\<not> listening s'" "length (conns s') = length (conns s)" "over (conns s ! i) \<Longrightarrow> over (conns s' ! i)"
  using assms
  by (auto simp: server_step_def intro!: over_update dest: conn_step_over
      elim!: goroutine_stepE client_sendsE deadline_passesE script_changesE)

text \<open>A sequence that never grows and shrinks infinitely often cannot be.\<close>

lemma finitely_many_decreases:
  fixes m :: "nat \<Rightarrow> 'a"
  assumes "wf r" "trans r" "\<And>i. i \<in> D \<Longrightarrow> (m (Suc i), m i) \<in> r" "\<And>i. i \<notin> D \<Longrightarrow> m (Suc i) = m i"
  shows "finite D"
proof (rule ccontr)
  assume inf: "infinite D"
  obtain k where min: "\<And>j. (m j, m k) \<notin> r"
    using wfE_min [OF assms(1), of "m 0" "range m"] by (metis rangeE rangeI)
  have down: "m (k + j) = m k \<or> (m (k + j), m k) \<in> r" for j
  proof (induction j)
    case (Suc j)
    then show ?case
      using assms(3) [of "k + j"] assms(4) [of "k + j"] transD [OF assms(2)] by (cases "k + j \<in> D") auto
  qed simp
  obtain n where "n \<in> D" "k \<le> n" using inf by (metis finite_nat_set_iff_bounded linorder_not_le nat_less_le)
  then have "m n = m k" "(m (Suc n), m n) \<in> r"
    using down [of "n - k"] min [of n] assms(3) [of n] by auto
  then have "(m (Suc n), m k) \<in> r" by simp
  with min show False by blast
qed

lemma server_step_mono: "server_step A smooth s s' \<Longrightarrow> server_step (insert f A) smooth s s'"
  by (auto simp: server_step_def elim!: script_changesE intro: script_changes.intros)

lemma draining_step:
  assumes "server_step A smooth s s'" "once s \<in> {Draining, Completed}"
  shows "once s' \<in> {Draining, Completed}" "once s = Completed \<Longrightarrow> once s' = Completed"
  using assms
  by (auto simp: server_step_def elim!: goroutine_stepE client_sendsE deadline_passesE script_changesE)

lemma running_0: "running s = 0 \<longleftrightarrow> \<not> accepting s \<and> (\<forall>c \<in> set (conns s). c_at c = Gone)"
  by (auto simp: running_def gone_def filter_empty_conv)

text \<open>With \<open>done\<close> closed every connection whose deadline has passed can move.\<close>

lemma conn_step_enabled:
  assumes "c_at c \<notin> {Returned, Gone}" "c_expired c"
  shows "\<exists>c'. conn_step f True smooth c c'"
proof (cases "c_at c")
  case (Dripping bs)
  with assms show ?thesis by (cases bs) (auto intro: conn_step.intros)
qed (use assms in \<open>auto intro: conn_step.intros\<close>)

lemma drain_step_enabled:
  assumes "server_inv A smooth s" "once s = Draining" "\<forall>c \<in> set (conns s). over c"
  shows "\<exists>s'. goroutine_step smooth s s'"
proof (cases "wg s = 0")
  case True
  with assms show ?thesis by (auto intro: close_returns)
next
  case False
  with assms have "accepting s \<or> (\<exists>c \<in> set (conns s). \<not> gone c)"
    by (auto simp: server_inv_def running_def filter_empty_conv split: if_splits)
  then consider "accepting s" | i where "i < length (conns s)" "c_at (conns s ! i) \<noteq> Gone"
    by (auto simp: gone_def in_set_conv_nth)
  then show ?thesis
  proof cases
    case 1
    with assms show ?thesis by (auto simp: server_inv_def intro: accept_ends)
  next
    case 2
    have "done_closed s" using assms by (auto simp: server_inv_def)
    have "c_expired (conns s ! i)" using assms(3) 2 by (auto simp: over_def gone_def)
    show ?thesis
    proof (cases "c_at (conns s ! i) = Returned")
      case True
      with 2(1) show ?thesis by (auto intro: finish)
    next
      case False
      with 2 conn_step_enabled [of "conns s ! i" "script s" smooth] \<open>c_expired (conns s ! i)\<close>
      obtain c where "conn_step (script s) True smooth (conns s ! i) c" by auto
      with 2(1) \<open>done_closed s\<close> serve [of i s smooth c] show ?thesis by auto
    qed
  qed
qed

text \<open>
  A run of the server: a step, or nothing, at every point. \<open>Close\<close> can count on the clock, which lets
  every deadline pass, and on the scheduler, which does not stop while some goroutine can move.
\<close>

definition server_run :: "fake set \<Rightarrow> bool \<Rightarrow> (nat \<Rightarrow> server) \<Rightarrow> bool" where
  "server_run A smooth \<sigma> \<longleftrightarrow> (\<forall>i. server_step A smooth (\<sigma> i) (\<sigma> (Suc i)) \<or> \<sigma> (Suc i) = \<sigma> i)"

definition deadlines_pass :: "(nat \<Rightarrow> server) \<Rightarrow> bool" where
  "deadlines_pass \<sigma> \<longleftrightarrow> (\<forall>c < length (conns (\<sigma> 0)). \<exists>i. over (conns (\<sigma> i) ! c))"

definition scheduled :: "bool \<Rightarrow> (nat \<Rightarrow> server) \<Rightarrow> bool" where
  "scheduled smooth \<sigma> \<longleftrightarrow>
     (\<forall>i. (\<exists>s'. goroutine_step smooth (\<sigma> i) s') \<longrightarrow> (\<exists>j \<ge> i. goroutine_step smooth (\<sigma> j) (\<sigma> (Suc j))))"

lemma server_inv_step:
  assumes "server_inv A smooth s" "server_step A smooth s s'"
  shows "server_inv A smooth s'"
proof -
  have "insert (script s) A = A" using assms(1) by (auto simp: server_inv_def)
  with fake_server.inv_step [of "script s" A smooth s s'] assms show ?thesis by simp
qed

lemma run_draining:
  assumes "server_inv A smooth (\<sigma> 0)" "once (\<sigma> 0) = Draining" "server_run A smooth \<sigma>"
  shows "server_inv A smooth (\<sigma> i)" "once (\<sigma> i) \<in> {Draining, Completed}" "\<not> listening (\<sigma> i)"
    "length (conns (\<sigma> i)) = length (conns (\<sigma> 0))" "i \<le> j \<Longrightarrow> over (conns (\<sigma> i) ! c) \<Longrightarrow> over (conns (\<sigma> j) ! c)"
proof -
  have one: "server_inv A smooth (\<sigma> i) \<and> once (\<sigma> i) \<in> {Draining, Completed} \<and>
      length (conns (\<sigma> i)) = length (conns (\<sigma> 0))" for i
  proof (induction i)
    case (Suc i)
    from assms(3) have "server_step A smooth (\<sigma> i) (\<sigma> (Suc i)) \<or> \<sigma> (Suc i) = \<sigma> i" by (simp add: server_run_def)
    then show ?case
    proof
      assume st: "server_step A smooth (\<sigma> i) (\<sigma> (Suc i))"
      from Suc have "\<not> listening (\<sigma> i)" by (auto simp: server_inv_def)
      with server_step_over(2) [OF st] draining_step(1) [OF st] server_inv_step [OF _ st] Suc show ?thesis by simp
    qed (use Suc in simp)
  qed (use assms(1,2) in simp)
  then show "server_inv A smooth (\<sigma> i)" "once (\<sigma> i) \<in> {Draining, Completed}"
    "length (conns (\<sigma> i)) = length (conns (\<sigma> 0))" by blast+
  have quiet: "\<not> listening (\<sigma> i)" for i using one [of i] by (auto simp: server_inv_def)
  then show "\<not> listening (\<sigma> i)" .
  assume "i \<le> j" "over (conns (\<sigma> i) ! c)"
  then show "over (conns (\<sigma> j) ! c)"
  proof (induction j rule: dec_induct)
    case (step j)
    from assms(3) have "server_step A smooth (\<sigma> j) (\<sigma> (Suc j)) \<or> \<sigma> (Suc j) = \<sigma> j" by (simp add: server_run_def)
    with server_step_over(3) [OF _ quiet] step show ?case by metis
  qed
qed

lemma all_over:
  assumes "server_inv A smooth (\<sigma> 0)" "once (\<sigma> 0) = Draining" "server_run A smooth \<sigma>" "deadlines_pass \<sigma>"
  shows "\<exists>k. \<forall>i \<ge> k. \<forall>c \<in> set (conns (\<sigma> i)). over c"
proof -
  note run = run_draining [OF assms(1-3)]
  define n where "n = length (conns (\<sigma> 0))"
  from assms(4) obtain h where h: "\<And>c. c < n \<Longrightarrow> over (conns (\<sigma> (h c)) ! c)"
    unfolding deadlines_pass_def n_def by metis
  have "over c" if "Max (insert 0 (h ` {..<n})) \<le> i" "c \<in> set (conns (\<sigma> i))" for i c
  proof -
    from that(2) obtain m where m: "m < n" "c = conns (\<sigma> i) ! m"
      using run(4) [where i = i] by (auto simp: in_set_conv_nth n_def)
    have "h m \<le> Max (insert 0 (h ` {..<n}))" using m(1) by (intro Max_ge) auto
    then have "h m \<le> i" using that(1) by (rule order_trans)
    from run(5) [OF this h [OF m(1)]] m(2) show ?thesis by simp
  qed
  then show ?thesis by blast
qed

text \<open>When all connections are over, only goroutines change what is left to do.\<close>

lemma over_step_work:
  assumes "server_step A smooth s s' \<or> s' = s" "\<not> goroutine_step smooth s s'" "\<forall>c \<in> set (conns s). over c"
  shows "work s' = work s"
proof -
  have "\<not> client_sends s s'"
  proof
    assume "client_sends s s'"
    then obtain i where "i < length (conns s)" "\<not> over (conns s ! i)"
      by (elim client_sendsE) (auto simp: over_def gone_def)
    with assms(3) show False by simp
  qed
  with assms(1,2) environment_step_work show ?thesis by (auto simp: server_step_def)
qed

lemma drains:
  assumes "server_inv A smooth (\<sigma> 0)" "once (\<sigma> 0) = Draining" "server_run A smooth \<sigma>"
    and k: "\<forall>i \<ge> k. \<forall>c \<in> set (conns (\<sigma> i)). over c"
  shows "finite {i. goroutine_step smooth (\<sigma> (k + i)) (\<sigma> (Suc (k + i)))}"
proof (rule finitely_many_decreases [OF wf_less_work trans_less_work, where m = "\<lambda>i. work (\<sigma> (k + i))"])
  note run = run_draining [OF assms(1-3)]
  fix i
  show "(work (\<sigma> (k + Suc i)), work (\<sigma> (k + i))) \<in> less_work"
    if "i \<in> {i. goroutine_step smooth (\<sigma> (k + i)) (\<sigma> (Suc (k + i)))}"
    using that goroutine_step_work [of smooth "\<sigma> (k + i)" "\<sigma> (Suc (k + i))"] run(2,3) [where i = "k + i"] by simp
  show "work (\<sigma> (k + Suc i)) = work (\<sigma> (k + i))"
    if "i \<notin> {i. goroutine_step smooth (\<sigma> (k + i)) (\<sigma> (Suc (k + i)))}"
  proof -
    from assms(3) have "server_step A smooth (\<sigma> (k + i)) (\<sigma> (Suc (k + i))) \<or> \<sigma> (Suc (k + i)) = \<sigma> (k + i)"
      by (simp only: server_run_def)
    moreover have "\<forall>c \<in> set (conns (\<sigma> (k + i))). over c" using k le_add1 by blast
    ultimately show ?thesis using over_step_work [of A smooth "\<sigma> (k + i)" "\<sigma> (Suc (k + i))"] that by simp
  qed
qed

lemma close_completes:
  assumes "server_inv A smooth (\<sigma> 0)" "once (\<sigma> 0) = Draining" "server_run A smooth \<sigma>"
    and "deadlines_pass \<sigma>" "scheduled smooth \<sigma>"
  shows "\<exists>i. once (\<sigma> i) = Completed"
proof (rule ccontr)
  assume never: "\<nexists>i. once (\<sigma> i) = Completed"
  note run = run_draining [OF assms(1-3)]
  obtain k where k: "\<forall>i \<ge> k. \<forall>c \<in> set (conns (\<sigma> i)). over c"
    using all_over [OF assms(1-4)] by blast
  obtain m where m: "\<forall>i \<in> {i. goroutine_step smooth (\<sigma> (k + i)) (\<sigma> (Suc (k + i)))}. i < m"
    using drains [OF assms(1-3) k] finite_nat_set_iff_bounded by metis
  have "once (\<sigma> (k + m)) = Draining" using never run(2) [where i = "k + m"] by auto
  moreover have "\<forall>c \<in> set (conns (\<sigma> (k + m))). over c" using k le_add1 by blast
  ultimately have "\<exists>s'. goroutine_step smooth (\<sigma> (k + m)) s'" by (rule drain_step_enabled [OF run(1)])
  with assms(5) obtain j where
    "k + m \<le> j" "goroutine_step smooth (\<sigma> j) (\<sigma> (Suc j))" unfolding scheduled_def by blast
  with m have "j - k < m" by simp
  with \<open>k + m \<le> j\<close> show False by simp
qed

subsection \<open>Properties\<close>

text \<open>
  C37: \<open>Close\<close> shuts the fake down. When it has returned, the listener is closed and no goroutine is
  left. And it does return: while it waits for them, every run comes to its end, whatever the clients
  send, as the safety deadline of each connection passes and the scheduler goes on.
\<close>

theorem close_shuts_down:
  assumes "reachable (server_step A smooth) (scripted f) s"
  shows "(once s = Completed \<longrightarrow> \<not> listening s \<and> \<not> accepting s \<and> (\<forall>c \<in> set (conns s). c_at c = Gone)) \<and>
    (once s = Draining \<longrightarrow> (\<forall>\<sigma>. \<sigma> 0 = s \<and> server_run A smooth \<sigma> \<and> deadlines_pass \<sigma> \<and> scheduled smooth \<sigma> \<longrightarrow>
      (\<exists>i. once (\<sigma> i) = Completed)))"
proof -
  note inv = fake_server.holds [OF assms]
  have "\<not> listening s \<and> \<not> accepting s \<and> (\<forall>c \<in> set (conns s). c_at c = Gone)" if "once s = Completed"
    using inv that running_0 [of s] by (auto simp: server_inv_def)
  moreover have "\<exists>i. once (\<sigma> i) = Completed"
    if "once s = Draining" "\<sigma> 0 = s" "server_run A smooth \<sigma>" "deadlines_pass \<sigma>" "scheduled smooth \<sigma>" for \<sigma>
  proof (rule close_completes [where A = "insert f A"])
    show "server_run (insert f A) smooth \<sigma>" using that(3) server_step_mono unfolding server_run_def by blast
  qed (use inv that in auto)
  ultimately show ?thesis by blast
qed

theorem close_shuts_down_witness:
  "\<exists>s \<sigma>. reachable (server_step {} False) (scripted new_fake) s \<and> once s = Draining \<and> \<sigma> 0 = s \<and>
    server_run {} False \<sigma> \<and> (\<exists>i. once (\<sigma> i) = Completed)"
proof -
  let ?a = "(scripted new_fake)\<lparr>done_closed := True, once := DoneClosed\<rparr>"
  let ?b = "?a\<lparr>listening := False, once := Draining\<rparr>"
  let ?c = "?b\<lparr>accepting := False, wg := 0\<rparr>"
  let ?d = "?c\<lparr>once := Completed\<rparr>"
  let ?g = "goroutine_step False"
  define \<sigma> where "\<sigma> i = (if i = 0 then ?b else if i = 1 then ?c else ?d)" for i :: nat
  have "reachable (server_step {} False) (scripted new_fake) ?a"
    by (rule run_step [OF run_start], rule server_goroutine, rule close_done) (simp add: scripted_def start_server_def)
  then have run: "reachable (server_step {} False) (scripted new_fake) ?b"
    by (rule run_step, intro server_goroutine close_listener) simp
  have g: "?g ?b ?c" "?g ?c ?d"
    using accept_ends [of ?b False] close_returns [of ?c False] by (simp_all add: scripted_def start_server_def)
  have r: "server_run {} False \<sigma>"
    using g by (auto simp: server_run_def server_step_def \<sigma>_def)
  have "deadlines_pass \<sigma>" by (simp add: deadlines_pass_def \<sigma>_def scripted_def start_server_def)
  moreover have "scheduled False \<sigma>"
    unfolding scheduled_def
  proof (intro allI impI)
    fix i assume "\<exists>s'. ?g (\<sigma> i) s'"
    then have "i = 0 \<or> i = 1"
      by (auto simp: \<sigma>_def scripted_def start_server_def elim!: goroutine_stepE split: if_splits)
    with g show "\<exists>j \<ge> i. ?g (\<sigma> j) (\<sigma> (Suc j))" by (intro exI [of _ i]) (auto simp: \<sigma>_def)
  qed
  moreover have "once ?b = Draining" and z: "\<sigma> 0 = ?b" by (simp_all add: \<sigma>_def)
  ultimately have "\<exists>i. once (\<sigma> i) = Completed" using close_shuts_down [OF run] r by blast
  with run r show ?thesis by (intro exI [of _ ?b] exI [of _ \<sigma>]) (simp add: z)
qed

end
