(* ===== verification/ZipCrypto.thy ===== *)
theory ZipCrypto
  imports Prelude
begin

text \<open>
  The archive and cipher builders of the test kit (\<open>internal/clamdtest/zipcrypto.go\<close>,
  \<open>samples.go\<close>, \<open>eicar.go\<close>): the table-driven CRC of \<open>hash/crc32\<close>, the PKWARE
  traditional cipher, \<open>BuildZip\<close> and the benign samples.

  A panic is \<open>None\<close>. The deflate compressor is an argument (\<open>flate\<close>): its output is the
  compressed entry. The lemmas show that decryption undoes encryption and that an
  archive's directory says where its entries are.
\<close>

subsection \<open>hash/crc32\<close>

text \<open>\<open>simpleMakeTable\<close> with the reflected IEEE polynomial, one entry.\<close>

definition crc_poly :: "32 word" where
  "crc_poly = 0xedb88320"

definition crc_step :: "32 word \<Rightarrow> 32 word" where
  "crc_step crc = (if crc AND 1 = 1 then drop_bit 1 crc XOR crc_poly else drop_bit 1 crc)"

definition IEEETable :: "byte \<Rightarrow> 32 word" where
  "IEEETable b = (crc_step ^^ 8) (ucast b)"

definition crcShift :: "32 word \<Rightarrow> byte \<Rightarrow> 32 word" where
  "crcShift crc b = IEEETable (ucast (crc AND 0xff) XOR b) XOR drop_bit 8 crc"

definition ChecksumIEEE :: "bytes \<Rightarrow> 32 word" where
  "ChecksumIEEE data = NOT (foldl crcShift (NOT 0) data)"

subsection \<open>The cipher\<close>

record zip_crypto =
  k0 :: "32 word"
  k1 :: "32 word"
  k2 :: "32 word"

definition update :: "zip_crypto \<Rightarrow> byte \<Rightarrow> zip_crypto" where
  "update z plain =
     (let a = crcShift (k0 z) plain;
          b = (k1 z + (a AND 0xff)) * 134775813 + 1;
          c = crcShift (k2 z) (ucast (drop_bit 24 b AND 0xff))
      in \<lparr>k0 = a, k1 = b, k2 = c\<rparr>)"

definition newZipCrypto :: "string \<Rightarrow> zip_crypto" where
  "newZipCrypto password =
     foldl update \<lparr>k0 = 0x12345678, k1 = 0x23456789, k2 = 0x34567890\<rparr> (bytes_of password)"

definition streamByte :: "zip_crypto \<Rightarrow> byte" where
  "streamByte z = (let t = (k2 z AND 0xffff) OR 2 in ucast (drop_bit 8 (t * (t XOR 1)) AND 0xff))"

text \<open>Both return the output and the keys they leave behind.\<close>

fun encrypt :: "zip_crypto \<Rightarrow> bytes \<Rightarrow> bytes \<times> zip_crypto" where
  "encrypt z [] = ([], z)"
| "encrypt z (p # ps) =
     (case encrypt (update z p) ps of (out, z') \<Rightarrow> ((p XOR streamByte z) # out, z'))"

fun decrypt :: "zip_crypto \<Rightarrow> bytes \<Rightarrow> bytes \<times> zip_crypto" where
  "decrypt z [] = ([], z)"
| "decrypt z (c # cs) =
     (let p = c XOR streamByte z in
      (case decrypt (update z p) cs of (out, z') \<Rightarrow> (p # out, z')))"

subsection \<open>The cipher round trip\<close>

lemma decrypt_encrypt_keys: "decrypt z (fst (encrypt z ps)) = (ps, snd (encrypt z ps))"
  by (induction z ps rule: encrypt.induct) (auto simp: Let_def xor.assoc split: prod.splits)

lemma length_encrypt [simp]: "length (fst (encrypt z ps)) = length ps"
  by (induction z ps rule: encrypt.induct) (auto split: prod.splits)

subsection \<open>The table against the bitwise definition\<close>

text \<open>
  The shift by a table entry is eight steps of the bitwise division, because a step is
  linear and only the low byte meets the polynomial.
\<close>

lemma crc_step_xor: "crc_step (x XOR y) = crc_step x XOR crc_step y"
proof -
  have "(x XOR y) AND 1 = 1 \<longleftrightarrow> (x AND 1 = 1) \<noteq> (y AND 1 = 1)"
    by (simp add: and_one_eq odd_iff_mod_2_eq_one [symmetric] bit_xor_iff flip: bit_0)
  then show ?thesis
    by (auto simp: crc_step_def drop_bit_xor xor.assoc xor.left_commute xor.commute)
qed

lemma crc_steps_xor: "(crc_step ^^ n) (x XOR y) = (crc_step ^^ n) x XOR (crc_step ^^ n) y"
  by (induction n) (simp_all add: crc_step_xor)

lemma crc_steps_high:
  "(\<And>i. i < n \<Longrightarrow> \<not> bit x i) \<Longrightarrow> (crc_step ^^ n) x = drop_bit n x"
proof (induction n arbitrary: x)
  case (Suc n)
  have "x AND 1 \<noteq> 1" using Suc.prems [of 0] by (simp add: and_one_eq bit_0 odd_iff_mod_2_eq_one)
  then have "crc_step x = drop_bit 1 x" by (simp add: crc_step_def)
  moreover have "(crc_step ^^ n) (drop_bit 1 x) = drop_bit n (drop_bit 1 x)"
    by (rule Suc.IH) (use Suc.prems in \<open>simp add: bit_drop_bit_eq\<close>)
  ultimately show ?case by (simp add: funpow_Suc_right del: funpow.simps)
qed simp

lemma mask_byte: "(0xff :: 32 word) = mask 8"
  by (simp add: mask_eq_exp_minus_1)

lemma crcShift_bitwise: "crcShift crc b = (crc_step ^^ 8) (crc XOR ucast b)"
proof -
  let ?lo = "ucast (ucast (crc AND 0xff) XOR b) :: 32 word" and ?hi = "push_bit 8 (drop_bit 8 crc) :: 32 word"
  have split: "crc XOR ucast b = ?lo XOR ?hi"
  proof (rule bit_word_eqI)
    fix n assume "n < LENGTH(32)"
    then show "bit (crc XOR ucast b) n = bit (?lo XOR ?hi) n"
      unfolding mask_byte by (cases "n < 8") (auto simp: bit_simps)
  qed
  have "(crc_step ^^ 8) ?hi = drop_bit 8 ?hi"
    by (rule crc_steps_high) (simp add: bit_push_bit_iff)
  also have "\<dots> = drop_bit 8 crc"
    by (rule bit_word_eqI) (auto simp: bit_simps dest: bit_imp_le_length)
  finally show ?thesis
    by (simp add: crcShift_def IEEETable_def split crc_steps_xor)
qed

subsection \<open>BuildZip\<close>

record zip_entry =
  Name :: string
  EntryData :: bytes
  Password :: string
  Deflate :: bool

definition u16 :: "nat \<Rightarrow> 16 word option" where
  "u16 n = (if n > 65535 then None else Some (word_of_nat n))"

definition u32 :: "nat \<Rightarrow> 32 word option" where
  "u32 n = (if n > 4294967295 then None else Some (word_of_nat n))"

definition encryption_header :: "32 word \<Rightarrow> bytes" where
  "encryption_header crc = [1, 2, 3, 4, 5, 6, 7, 8, 9, 10, 11, ucast (drop_bit 24 crc AND 0xff)]"

text \<open>The flags, the method and the stored bytes of an entry.\<close>

definition pack_entry :: "(bytes \<Rightarrow> bytes option) \<Rightarrow> zip_entry \<Rightarrow> (16 word \<times> 16 word \<times> bytes) option" where
  "pack_entry flate e =
     (let crc = ChecksumIEEE (EntryData e) in
      if Password e \<noteq> []
      then (if Deflate e then None
            else Some (1, 0, fst (encrypt (newZipCrypto (Password e)) (encryption_header crc @ EntryData e))))
      else if Deflate e
      then (case flate (EntryData e) of None \<Rightarrow> None | Some packed \<Rightarrow> Some (0, 8, packed))
      else Some (0, 0, EntryData e))"

definition local_header ::
  "16 word \<Rightarrow> 16 word \<Rightarrow> 32 word \<Rightarrow> 32 word \<Rightarrow> 32 word \<Rightarrow> 16 word \<Rightarrow> bytes" where
  "local_header flags method crc clen dlen nlen =
     le_put32 0x04034b50 @ le_put16 20 @ le_put16 flags @ le_put16 method @ le_put16 0 @ le_put16 0x21 @
     le_put32 crc @ le_put32 clen @ le_put32 dlen @ le_put16 nlen @ le_put16 0"

definition central_header ::
  "16 word \<Rightarrow> 16 word \<Rightarrow> 32 word \<Rightarrow> 32 word \<Rightarrow> 32 word \<Rightarrow> 16 word \<Rightarrow> 32 word \<Rightarrow> bytes" where
  "central_header flags method crc clen dlen nlen off =
     le_put32 0x02014b50 @ le_put16 20 @ le_put16 20 @ le_put16 flags @ le_put16 method @ le_put16 0 @
     le_put16 0x21 @ le_put32 crc @ le_put32 clen @ le_put32 dlen @ le_put16 nlen @ replicate 12 0 @ le_put32 off"

definition end_record :: "16 word \<Rightarrow> 32 word \<Rightarrow> 32 word \<Rightarrow> bytes" where
  "end_record n clen blen =
     le_put32 0x06054b50 @ replicate 4 0 @ le_put16 n @ le_put16 n @ le_put32 clen @ le_put32 blen @ replicate 2 0"

text \<open>One round of the loop: what it appends to the body and to the central directory.\<close>

definition add_entry ::
  "(bytes \<Rightarrow> bytes option) \<Rightarrow> zip_entry \<Rightarrow> nat \<Rightarrow> (bytes \<times> bytes) option" where
  "add_entry flate e body_len =
     (case pack_entry flate e of
        None \<Rightarrow> None
      | Some (flags, method, packed) \<Rightarrow>
          (case (u32 body_len, u32 (length packed), u32 (length (EntryData e)), u16 (length (Name e))) of
             (Some off, Some clen, Some dlen, Some nlen) \<Rightarrow>
               let crc = ChecksumIEEE (EntryData e) in
               Some (local_header flags method crc clen dlen nlen @ bytes_of (Name e) @ packed,
                     central_header flags method crc clen dlen nlen off @ bytes_of (Name e))
           | _ \<Rightarrow> None))"

fun add_entries ::
  "(bytes \<Rightarrow> bytes option) \<Rightarrow> zip_entry list \<Rightarrow> bytes \<Rightarrow> bytes \<Rightarrow> (bytes \<times> bytes) option" where
  "add_entries flate [] body central = Some (body, central)"
| "add_entries flate (e # es) body central =
     (case add_entry flate e (length body) of
        None \<Rightarrow> None
      | Some (l, cd) \<Rightarrow> add_entries flate es (body @ l) (central @ cd))"

definition BuildZip :: "(bytes \<Rightarrow> bytes option) \<Rightarrow> zip_entry list \<Rightarrow> bytes option" where
  "BuildZip flate entries =
     (case add_entries flate entries [] [] of
        None \<Rightarrow> None
      | Some (body, central) \<Rightarrow>
          (case (u16 (length entries), u32 (length central), u32 (length body)) of
             (Some n, Some clen, Some blen) \<Rightarrow> Some (body @ central @ end_record n clen blen)
           | _ \<Rightarrow> None))"

subsection \<open>Reading an archive back\<close>

text \<open>
  The contract of the format, as a reader: the end record gives the central directory, whose
  entries give the names and where the stored bytes are.
\<close>

record member =
  m_name :: string
  m_flags :: "16 word"
  m_method :: "16 word"
  m_crc :: "32 word"
  m_size :: nat
  m_stored :: bytes

definition read_member :: "bytes \<Rightarrow> bytes \<Rightarrow> member" where
  "read_member out cd =
     (let loc = drop (unat (le_get32 (drop 42 cd))) out in
      \<lparr>m_name = string_of (take (unat (le_get16 (drop 28 cd))) (drop 46 cd)),
       m_flags = le_get16 (drop 8 cd), m_method = le_get16 (drop 10 cd), m_crc = le_get32 (drop 16 cd),
       m_size = unat (le_get32 (drop 24 cd)),
       m_stored = take (unat (le_get32 (drop 20 cd))) (drop (30 + unat (le_get16 (drop 26 loc))) loc)\<rparr>)"

fun read_central :: "bytes \<Rightarrow> bytes \<Rightarrow> nat \<Rightarrow> member list option" where
  "read_central out cd 0 = Some []"
| "read_central out cd (Suc n) =
     (if le_get32 cd = 0x02014b50
      then map_option (Cons (read_member out cd))
        (read_central out (drop (46 + unat (le_get16 (drop 28 cd))) cd) n)
      else None)"

definition read_zip :: "bytes \<Rightarrow> member list option" where
  "read_zip out =
     (let e = drop (length out - 22) out in
      if length out < 22 \<or> le_get32 e \<noteq> 0x06054b50 then None
      else read_central out (drop (unat (le_get32 (drop 16 e))) out) (unat (le_get16 (drop 10 e))))"

definition member_of :: "(bytes \<Rightarrow> bytes option) \<Rightarrow> zip_entry \<Rightarrow> member option" where
  "member_of flate e =
     map_option (\<lambda>(flags, method, packed).
         \<lparr>m_name = Name e, m_flags = flags, m_method = method, m_crc = ChecksumIEEE (EntryData e),
          m_size = length (EntryData e), m_stored = packed\<rparr>)
       (pack_entry flate e)"

lemma u16_Some: "u16 n = Some w \<longleftrightarrow> n \<le> 65535 \<and> w = word_of_nat n"
  by (auto simp: u16_def)

lemma u32_Some: "u32 n = Some w \<longleftrightarrow> n \<le> 4294967295 \<and> w = word_of_nat n"
  by (auto simp: u32_def)

lemma unat_u16: "n \<le> 65535 \<Longrightarrow> unat (word_of_nat n :: 16 word) = n"
  by (simp add: unat_of_nat)

lemma unat_u32: "n \<le> 4294967295 \<Longrightarrow> unat (word_of_nat n :: 32 word) = n"
  by (simp add: unat_of_nat)

lemma length_headers [simp]:
  "length (local_header f m c cl dl nl) = 30" "length (central_header f m c cl dl nl off) = 46"
  "length (end_record n cl bl) = 22"
  by (simp_all add: local_header_def central_header_def end_record_def)

lemma central_fields:
  "le_get32 (central_header f m c cl dl nl off @ r) = 0x02014b50"
  "le_get16 (drop 8 (central_header f m c cl dl nl off @ r)) = f"
  "le_get16 (drop 10 (central_header f m c cl dl nl off @ r)) = m"
  "le_get32 (drop 16 (central_header f m c cl dl nl off @ r)) = c"
  "le_get32 (drop 20 (central_header f m c cl dl nl off @ r)) = cl"
  "le_get32 (drop 24 (central_header f m c cl dl nl off @ r)) = dl"
  "le_get16 (drop 28 (central_header f m c cl dl nl off @ r)) = nl"
  "le_get32 (drop 42 (central_header f m c cl dl nl off @ r)) = off"
  by (simp_all add: central_header_def)

lemma local_name_length: "le_get16 (drop 26 (local_header f m c cl dl nl @ r)) = nl"
  by (simp add: local_header_def)

lemma drop_headers:
  "drop (46 + k) (central_header f m c cl dl nl off @ r) = drop k r"
  "drop 46 (central_header f m c cl dl nl off @ r) = r"
  "drop (30 + k) (local_header f m c cl dl nl @ r) = drop k r"
  "drop (length body) (body @ r) = r"
  by simp_all

lemma end_fields:
  "le_get32 (end_record n cl bl) = 0x06054b50" "le_get16 (drop 10 (end_record n cl bl)) = n"
  "le_get32 (drop 16 (end_record n cl bl)) = bl"
  by (simp_all add: end_record_def)

lemma add_entryD:
  assumes "add_entry flate e k = Some (l, cd)"
  obtains flags meth packed off clen dlen nlen where "pack_entry flate e = Some (flags, meth, packed)"
    "l = local_header flags meth (ChecksumIEEE (EntryData e)) clen dlen nlen @ bytes_of (Name e) @ packed"
    "cd = central_header flags meth (ChecksumIEEE (EntryData e)) clen dlen nlen off @ bytes_of (Name e)"
    "unat off = k" "unat clen = length packed" "unat dlen = length (EntryData e)" "unat nlen = length (Name e)"
  using assms
  by (auto simp: add_entry_def Let_def u16_Some u32_Some unat_u16 unat_u32 split: option.splits)

lemma read_member_added:
  assumes "add_entry flate e (length body) = Some (l, cd)"
  shows "Some (read_member (body @ l @ s) (cd @ r)) = member_of flate e"
    "le_get32 (cd @ r) = 0x02014b50" "drop (46 + unat (le_get16 (drop 28 (cd @ r)))) (cd @ r) = r"
proof -
  from assms obtain flags meth packed off clen dlen nlen where
    e: "pack_entry flate e = Some (flags, meth, packed)"
    "l = local_header flags meth (ChecksumIEEE (EntryData e)) clen dlen nlen @ bytes_of (Name e) @ packed"
    "cd = central_header flags meth (ChecksumIEEE (EntryData e)) clen dlen nlen off @ bytes_of (Name e)"
    "unat off = length body" "unat clen = length packed" "unat dlen = length (EntryData e)"
    "unat nlen = length (Name e)" by (rule add_entryD)
  have name: "take (length (Name e)) (bytes_of (Name e) @ r) = bytes_of (Name e)" for r by simp
  have stored: "take (length packed) (drop (length (Name e)) (bytes_of (Name e) @ packed @ s)) = packed" by simp
  show "Some (read_member (body @ l @ s) (cd @ r)) = member_of flate e"
    by (simp add: e(2-7) read_member_def member_of_def e(1) central_fields local_name_length drop_headers
        name stored Let_def del: drop_append take_append)
  show "le_get32 (cd @ r) = 0x02014b50"
    by (simp add: e(3) central_fields)
  have "drop (length (Name e)) (bytes_of (Name e) @ r) = r" by simp
  then show "drop (46 + unat (le_get16 (drop 28 (cd @ r)))) (cd @ r) = r"
    by (simp add: e(3,7) central_fields drop_headers del: drop_append)
qed

lemma add_entries_read:
  assumes "add_entries flate es body central = Some (b, c)"
  shows "\<exists>L C. b = body @ L \<and> c = central @ C \<and>
    (\<forall>s r. read_central (b @ s) (C @ r) (length es) = those (map (member_of flate) es))"
  using assms
proof (induction es arbitrary: body central)
  case Nil
  then show ?case by simp
next
  case (Cons e es)
  then obtain l cd where a: "add_entry flate e (length body) = Some (l, cd)"
    and rest: "add_entries flate es (body @ l) (central @ cd) = Some (b, c)"
    by (auto split: option.splits)
  from Cons.IH [OF rest] obtain L C where LC: "b = (body @ l) @ L" "c = (central @ cd) @ C"
    "\<And>s r. read_central (b @ s) (C @ r) (length es) = those (map (member_of flate) es)" by blast
  have "read_central (b @ s) (cd @ C @ r) (length (e # es)) = those (map (member_of flate) (e # es))" for s r
  proof -
    have m: "member_of flate e = Some (read_member (b @ s) (cd @ C @ r))"
      using read_member_added(1) [OF a, of "L @ s" "C @ r"] LC(1) by simp
    have "read_central (b @ s) (cd @ C @ r) (length (e # es)) =
        map_option (Cons (read_member (b @ s) (cd @ C @ r))) (read_central (b @ s) (C @ r) (length es))"
      using read_member_added(2,3) [OF a, of "C @ r"] by (simp del: drop_append)
    then show ?thesis using m LC(3) [of s r] by simp
  qed
  with LC show ?case by (intro exI [of _ "l @ L"] exI [of _ "cd @ C"]) simp
qed

lemma BuildZip_read:
  assumes "BuildZip flate entries = Some out"
  shows "read_zip out = those (map (member_of flate) entries)"
proof -
  from assms obtain body central n cl bl where
    a: "add_entries flate entries [] [] = Some (body, central)" and
    n: "u16 (length entries) = Some n" "u32 (length body) = Some bl" and
    out: "out = body @ central @ end_record n cl bl"
    by (auto simp: BuildZip_def split: option.splits)
  have "drop (length out - 22) out = end_record n cl bl" by (simp add: out)
  with add_entries_read [OF a] n show ?thesis
    by (auto simp: read_zip_def out end_fields Let_def u16_Some u32_Some unat_u16 unat_u32)
qed

lemma BuildZip_total:
  assumes "BuildZip flate entries = Some out"
  shows "those (map (member_of flate) entries) \<noteq> None"
proof -
  have "add_entries flate es b c = Some r \<Longrightarrow> those (map (member_of flate) es) \<noteq> None" for es b c r
    by (induction es arbitrary: b c)
      (auto simp: member_of_def add_entry_def split: option.splits prod.splits)
  then show ?thesis using assms by (auto simp: BuildZip_def split: option.splits)
qed

text \<open>What a reader that knows the password gets from a member.\<close>

definition holds_entry :: "(bytes \<Rightarrow> bytes option) \<Rightarrow> zip_entry \<Rightarrow> member \<Rightarrow> bool" where
  "holds_entry flate e m \<longleftrightarrow>
     m_name m = Name e \<and> m_crc m = ChecksumIEEE (EntryData e) \<and> m_size m = length (EntryData e) \<and>
     (if Password e \<noteq> []
      then m_flags m = 1 \<and> m_method m = 0 \<and>
        (\<exists>hdr. length hdr = 12 \<and> last hdr = ucast (drop_bit 24 (m_crc m)) \<and>
          fst (decrypt (newZipCrypto (Password e)) (m_stored m)) = hdr @ EntryData e)
      else m_flags m = 0 \<and>
        (if Deflate e then m_method m = 8 \<and> flate (EntryData e) = Some (m_stored m)
         else m_method m = 0 \<and> m_stored m = EntryData e))"

lemma encryption_header_check:
  "length (encryption_header crc) = 12" "last (encryption_header crc) = ucast (drop_bit 24 crc)"
proof -
  have "drop_bit 24 crc AND 0xff = drop_bit 24 crc"
  proof (rule bit_word_eqI)
    fix n
    assume "n < LENGTH(32)"
    show "bit (drop_bit 24 crc AND 0xff) n \<longleftrightarrow> bit (drop_bit 24 crc) n"
      using bit_imp_le_length [of crc "24 + n"]
      by (auto simp: bit_and_iff bit_drop_bit_eq mask_byte bit_mask_iff)
  qed
  then show "length (encryption_header crc) = 12" "last (encryption_header crc) = ucast (drop_bit 24 crc)"
    by (simp_all add: encryption_header_def)
qed

lemma member_of_holds:
  assumes "member_of flate e = Some m"
  shows "holds_entry flate e m"
  using assms encryption_header_check [of "ChecksumIEEE (EntryData e)"]
  by (auto simp: member_of_def pack_entry_def holds_entry_def decrypt_encrypt_keys Let_def split: if_splits option.splits)

lemma those_members:
  "those (map (member_of flate) es) = Some ms \<Longrightarrow> list_all2 (holds_entry flate) es ms"
  by (induction es arbitrary: ms) (auto simp: member_of_holds split: option.splits)

subsection \<open>Properties\<close>

text \<open>
  C36: an archive can be read back. Whatever the entries, when \<open>BuildZip\<close> does not panic, following
  the end record and the central directory of its output finds every entry in order, with its name,
  checksum and size; and its data can be recovered: it is stored as it is, or as what \<open>flate\<close> made of
  it, or decrypts under the password to a twelve-byte header with the check byte and the data.
\<close>

theorem archive_read_back:
  assumes "BuildZip flate entries = Some out"
  shows "\<exists>ms. read_zip out = Some ms \<and> list_all2 (holds_entry flate) entries ms"
proof -
  from BuildZip_total [OF assms] obtain ms where "those (map (member_of flate) entries) = Some ms" by auto
  with BuildZip_read [OF assms] show ?thesis by (auto intro: those_members)
qed

theorem archive_read_back_witness:
  "\<exists>out m. BuildZip (\<lambda>_. None) [\<lparr>Name = ''a'', EntryData = [1, 2], Password = ''pw'', Deflate = False\<rparr>] = Some out \<and>
    read_zip out = Some [m] \<and> drop 12 (fst (decrypt (newZipCrypto ''pw'') (m_stored m))) = [1, 2]"
proof -
  let ?e = "\<lparr>Name = ''a'', EntryData = [1, 2], Password = ''pw'', Deflate = False\<rparr>"
  have "BuildZip (\<lambda>_. None) [?e] \<noteq> None"
    by (simp add: BuildZip_def add_entry_def pack_entry_def u16_def u32_def length_encrypt encryption_header_def Let_def)
  then obtain out where out: "BuildZip (\<lambda>_. None) [?e] = Some out" by blast
  from archive_read_back [OF out] obtain m where "read_zip out = Some [m]" "holds_entry (\<lambda>_. None) ?e m"
    by (auto simp: list_all2_Cons1)
  with out show ?thesis by (auto simp: holds_entry_def)
qed

text \<open>
  The table-driven checksum is the bitwise one. One step of \<open>crcShift\<close> by a table entry equals
  eight steps of division by the reflected IEEE polynomial.
\<close>

lemma crc_table_bitwise:
  "crcShift crc b = (crc_step ^^ 8) (crc XOR ucast b)"
  by (rule crcShift_bitwise)

end
