(* ===== verification/Samples.thy ===== *)
theory Samples
  imports ZipCrypto GoFmt
begin

text \<open>
  The sample files of the integration tests (\<open>internal/clamdtest/samples.go\<close>, \<open>eicar.go\<close>): archives in
  archives, truncated and broken pictures, the EICAR string. The encoder of \<open>image/png\<close> is an
  argument, as the compressor of \<open>compress/flate\<close> is.
\<close>

subsection \<open>The samples\<close>

definition plain_entry :: "string \<Rightarrow> bytes \<Rightarrow> zip_entry" where
  "plain_entry nm d = \<lparr>Name = nm, EntryData = d, Password = [], Deflate = False\<rparr>"

fun nest :: "(bytes \<Rightarrow> bytes option) \<Rightarrow> nat \<Rightarrow> nat \<Rightarrow> bytes \<Rightarrow> bytes option" where
  "nest flate i 0 cur = Some cur"
| "nest flate i (Suc k) cur =
     (case BuildZip flate [plain_entry (''level'' @ decimal i @ ''.zip'') cur] of
        None \<Rightarrow> None
      | Some cur' \<Rightarrow> nest flate (Suc i) k cur')"

definition NestedZip :: "(bytes \<Rightarrow> bytes option) \<Rightarrow> int \<Rightarrow> string \<Rightarrow> bytes \<Rightarrow> bytes option" where
  "NestedZip flate depth nm data =
     (case BuildZip flate [plain_entry nm data] of
        None \<Rightarrow> None
      | Some cur \<Rightarrow> nest flate 1 (nat (depth - 1)) cur)"

definition HeaderOnlyJPEG :: bytes where
  "HeaderOnlyJPEG =
     [0xff, 0xd8, 0xff, 0xe0, 0x00, 0x10] @ bytes_of ''JFIF'' @
     [0x00, 0x01, 0x01, 0x00, 0x00, 0x01, 0x00, 0x01, 0x00, 0x00] @ replicate 4096 0xaa"

definition eicarPart1 :: string where
  "eicarPart1 = ''X5O!P%@AP[4'' @ [CHR 0x5C] @ ''PZX54(P^)7CC)7}$''"

definition eicarPart2 :: string where
  "eicarPart2 = ''EICAR-STANDARD-ANTIVIRUS-TEST-FILE!$H+H*''"

definition EICAR :: bytes where
  "EICAR = bytes_of (eicarPart1 @ eicarPart2)"

subsection \<open>The PNG sample\<close>

record rgba =
  R :: byte
  G :: byte
  B :: byte
  A :: byte

text \<open>The rows of the picture; \<open>None\<close> is the panic on an error of the encoder.\<close>

definition picture :: "rgba list list" where
  "picture = map (\<lambda>y. map (\<lambda>x. \<lparr>R = word_of_nat (x * 4), G = word_of_nat (y * 4), B = 0x7f, A = 0xff\<rparr>) [0..<64]) [0..<64]"

definition validPNG :: "(rgba list list \<Rightarrow> bytes option) \<Rightarrow> bytes option" where
  "validPNG encode = encode picture"

definition TruncatedPNG :: "(rgba list list \<Rightarrow> bytes option) \<Rightarrow> bytes option" where
  "TruncatedPNG encode = map_option (\<lambda>full. take (length full * 60 div 100) full) (validPNG encode)"

subsection \<open>What they are\<close>

text \<open>No colour of the gradient wraps around.\<close>

lemma picture_gradient:
  assumes "x < 64" "y < 64"
  shows "unat (R (picture ! y ! x)) = 4 * x \<and> unat (G (picture ! y ! x)) = 4 * y"
proof -
  have "unat (word_of_nat (k * 4) :: byte) = 4 * k" if "k < 64" for k
    using that by (simp add: unat_of_nat del: of_nat_mult)
  with assms show ?thesis by (simp add: picture_def del: of_nat_mult)
qed

text \<open>The truncated picture is a proper beginning of the whole one, of three fifths of its length.\<close>

lemma TruncatedPNG_proper:
  assumes "validPNG encode = Some full" "full \<noteq> []"
  shows "\<exists>cut_off rest. TruncatedPNG encode = Some cut_off \<and> full = cut_off @ rest \<and> rest \<noteq> [] \<and>
    5 * length cut_off \<le> 3 * length full \<and> 3 * length full < 5 * length cut_off + 5"
proof (intro exI conjI)
  let ?k = "length full * 60 div 100"
  have k: "?k < length full" by (rule less_mult_imp_div_less) (use assms(2) in simp)
  have k5: "5 * ?k \<le> 3 * length full" "3 * length full < 5 * ?k + 5" by linarith+
  show "TruncatedPNG encode = Some (take ?k full)" by (simp add: TruncatedPNG_def assms(1))
  show "full = take ?k full @ drop ?k full" by simp
  show "drop ?k full \<noteq> []" "5 * length (take ?k full) \<le> 3 * length full"
    "3 * length full < 5 * length (take ?k full) + 5" using k k5 by simp_all
qed

lemma length_EICAR: "length EICAR = 68"
  by (simp add: EICAR_def eicarPart1_def eicarPart2_def)

text \<open>Peeling a nested archive: as many layers as asked for, with the data in the innermost.\<close>

fun peel :: "nat \<Rightarrow> bytes \<Rightarrow> bytes option" where
  "peel 0 bs = Some bs"
| "peel (Suc k) bs = (case read_zip bs of Some [m] \<Rightarrow> peel k (m_stored m) | _ \<Rightarrow> None)"

lemma read_plain:
  assumes "BuildZip flate [plain_entry nm d] = Some out"
  shows "\<exists>m. read_zip out = Some [m] \<and> m_stored m = d"
  using BuildZip_read [OF assms] by (auto simp: member_of_def pack_entry_def plain_entry_def Let_def)

lemma peel_nest:
  assumes "nest flate i k cur = Some out"
  shows "peel (k + j) out = peel j cur"
  using assms
proof (induction k arbitrary: i j cur)
  case (Suc k)
  from Suc.prems obtain cur' where
    z: "BuildZip flate [plain_entry (''level'' @ decimal i @ ''.zip'') cur] = Some cur'" "nest flate (Suc i) k cur' = Some out"
    by (auto split: option.splits)
  from read_plain [OF z(1)] Suc.IH [OF z(2), of "Suc j"] show ?case by auto
qed simp

lemma NestedZip_peel:
  assumes "NestedZip flate depth nm data = Some out"
  shows "peel (Suc (nat (depth - 1))) out = Some data"
proof -
  from assms obtain cur where z: "BuildZip flate [plain_entry nm data] = Some cur" "nest flate 1 (nat (depth - 1)) cur = Some out"
    by (auto simp: NestedZip_def split: option.splits)
  from read_plain [OF z(1)] peel_nest [OF z(2), of 1] show ?thesis by (auto simp: numeral_1_eq_Suc_0)
qed

end
