(* ===== verification/Scenario.thy ===== *)
theory Scenario
  imports Recovery Contexts Examples HttpUpload ErrorTexts ScanSlots FakeShutdown Samples
begin

text \<open>
  Concrete inputs: a quiet environment, contexts, a client of the fake server built by
  \<open>New\<close>, and the runs of scans on them, at which the theorems are instantiated.
\<close>

definition calm :: env where
  "calm = \<lparr>e_now = (\<lambda>_. 0), e_fire = (\<lambda>_. Some True), e_others = (\<lambda>_. 0), e_select = (\<lambda>_. True),
     e_timer = (\<lambda>_. None)\<rparr>"

definition cancelled :: go_context where
  "cancelled = \<lparr>ctx_done_at = Some 0, ctx_because = ByCancel, ctx_deadline = None\<rparr>"

definition whole :: "nat \<Rightarrow> nat" where
  "whole _ = 4095"

definition client_of :: "bool \<Rightarrow> fake \<Rightarrow> client" where
  "client_of refuse f =
     \<lparr>network = ''unix'', target = ''/run/clamav/clamd.sock'', cfg = defaultConfig (fake_dial refuse whole f), sem = None\<rparr>"

lemma New_client_of:
  "New (fake_dial refuse whole f) ''unix:///run/clamav/clamd.sock'' [] = Inr (client_of refuse f)"
proof -
  have "parseAddress ''unix:///run/clamav/clamd.sock'' = Inr (''unix'', ''/run/clamav/clamd.sock'')"
    by (simp add: parseAddress_unix)
  moreover have "validate (defaultConfig (fake_dial refuse whole f)) = None"
    by (simp add: validate_iff defaultConfig_ok)
  ultimately show ?thesis by (simp add: New_def client_of_def defaultConfig_def)
qed

lemma client_of_ok: "client_ok (client_of refuse f)"
  using New_client_of by (rule New_client_ok)

lemma client_of_limit [simp]:
  "maxStreamSize (cfg (client_of refuse f)) = 25 * 2 ^ 20" "sem (client_of refuse f) = None"
  "dialFunc (cfg (client_of refuse f)) = Some (fake_dial refuse whole f)"
  by (simp_all add: client_of_def defaultConfig_def DefaultMaxStreamSize_def)

lemma full_writes_fake: "full_writes (fake_conn refuse seg f)"
  by (simp add: full_writes_def)

lemma dials_full_writes: "dials_to (client_of refuse f) full_writes"
  by (auto simp: dials_to_def fake_dial_def full_writes_fake)

lemma settable_fake: "settable (fake_conn refuse seg f)"
  by (simp add: settable_def)

text \<open>A clean scan, a detection, and a reply in the middle of the stream.\<close>

lemma line_of_nul:
  assumes "CHR 0x00 \<notin> set s" "set s \<inter> set eol = {}" "int (length s) \<le> mx"
  shows "line_of mx [] (nul_terminated s) = (s, True, None)"
  using line_of_reply [OF assms, of "[]"] by (simp add: nul_terminated_def)

lemma clean_run:
  assumes "length data \<le> 1000"
  shows "\<exists>w'. ScanBytes calm background (client_of False new_fake) data fresh_world =
    Some ((\<lparr>Verdict = VerdictClean, ResultSignature = [], Raw = ''stream: OK''\<rparr>, None), w')"
proof -
  have "line_of MaxLineResponse [] (nul_terminated ''stream: OK'') = (''stream: OK'', True, None)"
    by (rule line_of_nul) (auto simp: eol_def MaxLineResponse_def)
  moreover have "resultFromLine ''stream: OK'' True = (\<lparr>Verdict = VerdictClean, ResultSignature = [], Raw = ''stream: OK''\<rparr>, None)"
    by code_simp
  moreover have "respond new_fake \<lparr>Command = ''INSTREAM'', Body = data\<rparr> = Closed (nul_terminated ''stream: OK'')"
    by (simp add: new_fake_def DefaultHandler_def data_response_def)
  moreover have "unhindered new_fake (length data)" by (simp add: unhindered_def new_fake_def)
  moreover have "slot_free calm (client_of False new_fake) fresh_world" by (simp add: slot_free_def)
  ultimately show ?thesis
    using fake_ScanBytes [of background calm "client_of False new_fake" fresh_world whole new_fake data
        "nul_terminated ''stream: OK''" "''stream: OK''" True] assms by auto
qed

lemma clean_run_sent:
  assumes "length data \<le> 1000"
    "ScanBytes calm background (client_of False new_fake) data fresh_world = Some (out, w')"
  shows "wire_out w' = EncodeCommand ''INSTREAM'' @
    frames (chunks_of (nat (clamp_chunk (chunkSize (cfg (client_of False new_fake))))) data) @ terminator"
proof -
  have "line_of MaxLineResponse [] (nul_terminated ''stream: OK'') = (''stream: OK'', True, None)"
    by (rule line_of_nul) (auto simp: eol_def MaxLineResponse_def)
  moreover have "respond new_fake \<lparr>Command = ''INSTREAM'', Body = data\<rparr> = Closed (nul_terminated ''stream: OK'')"
    by (simp add: new_fake_def DefaultHandler_def data_response_def)
  moreover have "unhindered new_fake (length data)" by (simp add: unhindered_def new_fake_def)
  moreover have "slot_free calm (client_of False new_fake) fresh_world" by (simp add: slot_free_def)
  ultimately show ?thesis
    using fake_ScanBytes [of background calm "client_of False new_fake" fresh_world whole new_fake data
        "nul_terminated ''stream: OK''" "''stream: OK''" True] assms by auto
qed

lemma infected_run:
  assumes "length data \<le> 1000"
  shows "\<exists>w'. ScanBytes calm background (client_of False infected_fake) data fresh_world =
    Some ((\<lparr>Verdict = VerdictInfected, ResultSignature = ''Eicar-Test'', Raw = ''stream: Eicar-Test FOUND''\<rparr>, None), w')"
proof -
  let ?s = "''stream: Eicar-Test FOUND''"
  have "line_of MaxLineResponse [] (nul_terminated ?s) = (?s, True, None)"
    by (rule line_of_nul) (auto simp: eol_def MaxLineResponse_def)
  moreover have "resultFromLine ?s True =
      (\<lparr>Verdict = VerdictInfected, ResultSignature = ''Eicar-Test'', Raw = ?s\<rparr>, None)"
    by code_simp
  moreover have "respond infected_fake \<lparr>Command = ''INSTREAM'', Body = data\<rparr> = Closed (nul_terminated ?s)"
    by (simp add: infected_fake_def SetHandler_def RespondWith_def data_response_def)
  moreover have "unhindered infected_fake (length data)"
    by (simp add: unhindered_def infected_fake_def SetHandler_def new_fake_def)
  moreover have "slot_free calm (client_of False infected_fake) fresh_world" by (simp add: slot_free_def)
  ultimately show ?thesis
    using fake_ScanBytes [of background calm "client_of False infected_fake" fresh_world whole infected_fake data
        "nul_terminated ?s" ?s True] assms by auto
qed

text \<open>\<open>ScanBytes\<close> is a scan of its reader, when the data is within the limit.\<close>

definition demo_data :: bytes where
  "demo_data = bytes_of ''hello''"

lemma demo_scan:
  "ScanBytes calm background (client_of refuse f) demo_data fresh_world =
    Scan calm background (client_of refuse f) (Some (bytes_reader 0 demo_data)) fresh_world"
  by (simp add: ScanBytes_def demo_data_def fresh_world_def)

lemma demo_clean:
  "\<exists>w'. Scan calm background (client_of False new_fake) (Some (bytes_reader 0 demo_data)) fresh_world =
    Some ((\<lparr>Verdict = VerdictClean, ResultSignature = [], Raw = ''stream: OK''\<rparr>, None), w')"
  using clean_run [of demo_data] unfolding demo_scan by (simp add: demo_data_def)

lemma demo_infected:
  "\<exists>w'. Scan calm background (client_of False infected_fake) (Some (bytes_reader 0 demo_data)) fresh_world =
    Some ((\<lparr>Verdict = VerdictInfected, ResultSignature = ''Eicar-Test'', Raw = ''stream: Eicar-Test FOUND''\<rparr>, None), w')"
  using infected_run [of demo_data] unfolding demo_scan by (simp add: demo_data_def)

text \<open>A verdict takes a connection.\<close>

lemma Scan_opened:
  assumes "Scan env ctx c r w = Some ((res, None), w')"
  shows "opened w' = Suc (opened w)"
  using assms
proof (cases rule: Scan_cases [where P = "\<lambda>_. True"])
  case (early e)
  then show ?thesis by simp
next
  case (ran src cn w0 w1 w2)
  from scan_exchange_books [OF ran(3)] acquireScanSlotD [OF ran(6)] ran(7) ran(4) show ?thesis
    by (auto simp: same_books_def releaseScanSlot_def close_conn_def stop_watch_def AfterFunc_abort_def connected_def)
qed

lemma demo_clean_sent:
  "\<exists>w'. Scan calm background (client_of False new_fake) (Some (bytes_reader 0 demo_data)) fresh_world =
      Some ((\<lparr>Verdict = VerdictClean, ResultSignature = [], Raw = ''stream: OK''\<rparr>, None), w') \<and>
    wire_out w' = EncodeCommand ''INSTREAM'' @
      frames (chunks_of (nat (clamp_chunk (chunkSize (cfg (client_of False new_fake))))) demo_data) @ terminator \<and>
    opened w' \<noteq> opened fresh_world"
proof -
  from demo_clean obtain w' where
    run: "Scan calm background (client_of False new_fake) (Some (bytes_reader 0 demo_data)) fresh_world =
      Some ((\<lparr>Verdict = VerdictClean, ResultSignature = [], Raw = ''stream: OK''\<rparr>, None), w')" by blast
  with clean_run_sent [of demo_data, unfolded demo_scan, OF _ run] Scan_opened [OF run] show ?thesis
    by (auto simp: demo_data_def)
qed

text \<open>A connection made just as the context ends: the watcher runs before the first write.\<close>

lemma cancelled_exchange:
  "\<exists>w'. scan_exchange calm cancelled (client_of False new_fake) (fake_conn False whole new_fake)
      (bytes_reader 0 demo_data) (AfterFunc_abort (connected fresh_world)) =
    Some ((zero_result, Some (Errorf ''clamav: write: %w'' [] [CtxCanceled])), w') \<and> slammed w'"
  by (simp add: scan_exchange_def dc_write_def refresh_def ctx_Err_def ctx_done_def tick_def cancelled_def
      AfterFunc_abort_def connected_def fresh_world_def calm_def as_result_def wrapWriteErr_def ctxError_def
      ctx_reason_def Let_def)

text \<open>A regular file of five bytes, and its scan.\<close>

definition demo_info :: file_info where
  "demo_info = \<lparr>Mode = 420, Size = 5\<rparr>"

definition demo_fs :: file_sys where
  "demo_fs = \<lparr>os_stat = (\<lambda>_ _. Inr demo_info),
     os_open = (\<lambda>_ _ _. Opened \<lparr>f_stat = (\<lambda>_. Inr demo_info), f_read = bytes_reader 0 demo_data\<rparr>)\<rparr>"

lemma demo_info_accepted: "checkScanTarget mx path demo_info = None \<longleftrightarrow> mx = NoSizeLimit \<or> 5 \<le> mx"
proof -
  have "IsRegular (Mode demo_info)" by code_simp
  then show ?thesis by (auto simp: checkScanTarget_iff accepted_target_def demo_info_def)
qed

lemma nonblocking_demo: "nonblocking_open demo_fs"
  by (simp add: nonblocking_open_def demo_fs_def)

lemma scanStream_opened:
  assumes "dialFunc (cfg c) = Some (fake_dial refuse seg f)" "scanStream env ctx c src w = Some (out, w')"
  shows "opened w' = Suc (opened w)"
  using assms(2)
proof (cases rule: scanStream_cases)
  case (refused e)
  with dial_fake [OF assms(1), of env ctx w] show ?thesis by auto
next
  case (ran cn w1 w2)
  from dialD [OF ran(1)] obtain v where "w1 = connected v" "same_books w v" by auto
  with scan_exchange_books [OF ran(2)] ran(3) show ?thesis
    by (auto simp: same_books_def close_conn_def stop_watch_def AfterFunc_abort_def connected_def)
qed

lemma demo_file_scan:
  "\<exists>out w'. ScanFile calm background (client_of False new_fake) True demo_fs ''/srv/x'' fresh_world = Some (out, w') \<and>
    opened w' \<noteq> opened fresh_world"
proof -
  let ?c = "client_of False new_fake"
  let ?w = "tick calm background (open_file (tick calm background (tick calm background (tick calm background fresh_world))))"
  from scanStream_returns [OF client_of_ok scan_ends_bytes] obtain out v where
    s: "scanStream calm background ?c (bytes_reader 0 demo_data) ?w = Some (out, v)" by (metis not_None_eq prod.collapse)
  have "opened v = Suc (opened ?w)" using scanStream_opened [OF _ s] by simp
  then have o: "opened v = 1" by (simp add: open_file_def fresh_world_def)
  have "ScanFile calm background ?c True demo_fs ''/srv/x'' fresh_world = Some (out, releaseScanSlot ?c (close_file v))"
    using s demo_info_accepted [of "25 * 2 ^ 20"]
    by (simp add: ScanFile_def scan_path_def scan_descriptor_def openScanTarget_def openScanTarget_unix_def
        demo_fs_def acquireScanSlot_def ctx_Err_def Let_def)
  with o show ?thesis by (auto simp: releaseScanSlot_def close_file_def fresh_world_def)
qed

text \<open>A file system with no files.\<close>

definition missing_fs :: file_sys where
  "missing_fs = \<lparr>os_stat = (\<lambda>_ _. Inl IoErrUnexpectedEOF), os_open = (\<lambda>_ _ _. OpenFails IoErrUnexpectedEOF)\<rparr>"

text \<open>The client of a program that removes the limit.\<close>

definition unlimited_client :: "bool \<Rightarrow> fake \<Rightarrow> client" where
  "unlimited_client refuse f =
     (client_of refuse f)\<lparr>cfg := (defaultConfig (fake_dial refuse whole f))\<lparr>maxStreamSize := NoSizeLimit\<rparr>\<rparr>"

lemma New_unlimited:
  "New (fake_dial refuse whole f) ''unix:///run/clamav/clamd.sock'' [Some (WithMaxStreamSize NoSizeLimit)] =
     Inr (unlimited_client refuse f)"
proof -
  have "parseAddress ''unix:///run/clamav/clamd.sock'' = Inr (''unix'', ''/run/clamav/clamd.sock'')"
    by (simp add: parseAddress_unix)
  moreover have "validate ((defaultConfig (fake_dial refuse whole f))\<lparr>maxStreamSize := NoSizeLimit\<rparr>) = None"
    by (simp add: validate_def defaultConfig_def DefaultChunkSize_def MaxChunkSize_def DefaultIOTimeout_def
        DefaultDialTimeout_def second_def NoSizeLimit_def)
  ultimately show ?thesis
    by (simp add: New_def WithMaxStreamSize_def unlimited_client_def client_of_def defaultConfig_def)
qed

text \<open>A daemon that refuses connections, and a request body that is cut short.\<close>

definition refused_client :: client where
  "refused_client = (client_of False new_fake)\<lparr>cfg := (cfg (client_of False new_fake))
     \<lparr>dialFunc := Some (\<lambda>_ _ _ _. (None, Some (Foreign ''refused'' [])))\<rparr>\<rparr>"

lemma refused_run:
  "\<exists>w'. Scan calm (cancelled\<lparr>ctx_done_at := Some 9\<rparr>) refused_client (Some src) fresh_world =
    Some ((zero_result, Some (ConnectionError ''dial'' (Foreign ''refused'' []))), w')"
  by (simp add: Scan_def acquireScanSlot_def scanStream_def dial_def refused_client_def client_of_def defaultConfig_def
      DefaultDialTimeout_def second_def WithTimeout_def time_Now_def ctxError_def ctx_Err_def ctx_done_def calm_def
      cancelled_def fresh_world_def Let_def)

definition truncated_body :: source where
  "truncated_body _ _ = (Stored [], Some IoErrUnexpectedEOF)"

lemma truncated_run:
  "\<exists>out w'. Scan calm background (client_of False new_fake) (Some truncated_body) fresh_world = Some (out, w') \<and>
    src_failed w' = Some IoErrUnexpectedEOF \<and> src_log w' = []"
proof -
  let ?c = "client_of False new_fake" and ?cn = "fake_conn False whole new_fake"
  have slot: "slot_free calm ?c fresh_world" by (simp add: slot_free_def client_of_def)
  from acquire_free [OF background_live(1) slot] obtain w1 where
    w1: "acquireScanSlot calm background ?c fresh_world = Some (None, w1)" "src_log w1 = []"
    by (auto simp: fresh_world_def)
  have "dialFunc (cfg ?c) = Some (fake_dial False whole new_fake)"
    by (simp add: client_of_def defaultConfig_def)
  from dial_fake [OF this] obtain w2 where
    w2: "dial calm background ?c w1 = Some (Inr ?cn, connected w2)" "src_log w2 = src_log w1" by blast
  let ?w = "AfterFunc_abort (connected w2)" and ?d = "ioTimeout (cfg ?c)"
  obtain n w3 where w3: "dc_write calm background ?cn ?d ?w (EncodeCommand ''INSTREAM'') = ((n, None), w3)"
    using dc_write_live [of background False new_fake ?w calm whole ?d "EncodeCommand ''INSTREAM''"] by auto
  have l: "src_log w3 = []" using dc_write_frame(2) [OF w3] w1(2) w2(2) by simp
  obtain w4 where rd: "\<And>k. ctx_read calm background truncated_body w3 k = ((0, [], Some IoErrUnexpectedEOF), w4)"
    and f: "src_failed w4 = Some IoErrUnexpectedEOF" "src_log w4 = []"
    using l by (simp add: ctx_read_def truncated_body_def ctx_Err_def src_count_def src_bytes_def Let_def)
  from StreamAll_fails [where r = "ctx_read calm background truncated_body" and w = w3, OF rd] have st:
    "StreamAll (dc_write calm background ?cn ?d) (ctx_read calm background truncated_body)
      (chunkSize (cfg ?c)) (maxStreamSize (cfg ?c)) w3 = Some ((0, Some (SourceError IoErrUnexpectedEOF)), w4)" by simp
  obtain out w5 where r: "recoverStreamError calm background ?c ?cn ?d new_bufio (SourceError IoErrUnexpectedEOF) w4 = (out, w5)"
    by (metis prod.collapse)
  have "src_failed w5 = Some IoErrUnexpectedEOF" "src_log w5 = []"
    using recover_same_sent [OF r] f by (simp_all add: same_sent_def)
  moreover have "scan_exchange calm background ?c ?cn truncated_body ?w = Some (out, w5)"
    by (simp only: scan_exchange_def w3 st r Let_def prod.case option.case)
  ultimately show ?thesis by (simp add: Scan_def w1(1) scanStream_def w2(1))
qed

lemma missing_scan:
  "\<exists>reps x w'. scan_args env c True missing_fs timeout paths ex w = Some ((reps, x), w')"
proof (induction paths arbitrary: ex w)
  case Nil
  show ?case by simp
next
  case (Cons p paths)
  obtain ctx w1 where c: "WithTimeout env background timeout w = (ctx, w1)" by (metis prod.collapse)
  obtain out w2 where s: "ScanFile env ctx c True missing_fs p w1 = Some (out, w2)"
    by (simp add: ScanFile_def missing_fs_def Let_def)
  obtain rep code where "report_of p out = (rep, code)" by (metis prod.collapse)
  with c s Cons.IH [of "max ex code" w2] show ?case by auto
qed

lemma basicscan_missing:
  "\<exists>run w'. basicscan calm (fake_dial False whole new_fake) True missing_fs pr [''/a'', ''/b''] fresh_world = Some (run, w')"
proof -
  have args: "flag_Parse basicscan_flags basicscan_defaults [''/a'', ''/b''] = Inr (basicscan_defaults, [''/a'', ''/b''])"
    by (rule flag_Parse_plain) simp
  obtain c where c: "New (fake_dial False whole new_fake) (sf_addr basicscan_defaults)
      [Some (WithMaxStreamSize (sf_max_size basicscan_defaults))] = Inr c"
  proof -
    have "parseAddress ''unix:///run/clamav/clamd.sock'' = Inr (''unix'', ''/run/clamav/clamd.sock'')"
      by (simp add: parseAddress_unix)
    moreover have "validate ((defaultConfig (fake_dial False whole new_fake))\<lparr>maxStreamSize := 25 * 2 ^ 20\<rparr>) = None"
      by (simp add: validate_def defaultConfig_def DefaultChunkSize_def MaxChunkSize_def DefaultIOTimeout_def
          DefaultDialTimeout_def second_def)
    ultimately show thesis by (intro that) (simp add: New_def WithMaxStreamSize_def basicscan_defaults_def)
  qed
  from missing_scan [of calm c "sf_timeout basicscan_defaults" "[''/a'', ''/b'']" 0 fresh_world] args c show ?thesis
    by (auto simp: basicscan_def simp del: scan_args.simps)
qed

text \<open>An upload to the example server, which is accepted.\<close>

definition demo_upload :: http_request where
  "demo_upload = \<lparr>req_method = ''POST'', req_path = ''/upload'', req_ctx = background,
     req_form = (\<lambda>_. Inr (bytes_reader 0 demo_data, \<lparr>Filename = ''hello.txt'', HeaderSize = 5\<rparr>))\<rparr>"

lemma clean_scan:
  assumes "ctx_done_at ctx = None" "slot_free calm c w" "dialFunc (cfg c) = Some (fake_dial False whole new_fake)"
    and "5 \<le> maxStreamSize (cfg c)" "src_log w = []"
  shows "\<exists>w'. Scan calm ctx c (Some (bytes_reader 0 demo_data)) w =
    Some ((\<lparr>Verdict = VerdictClean, ResultSignature = [], Raw = ''stream: OK''\<rparr>, None), w')"
proof -
  have "line_of MaxLineResponse [] (nul_terminated ''stream: OK'') = (''stream: OK'', True, None)"
    by (rule line_of_nul) (auto simp: eol_def MaxLineResponse_def)
  moreover have "resultFromLine ''stream: OK'' True = (\<lparr>Verdict = VerdictClean, ResultSignature = [], Raw = ''stream: OK''\<rparr>, None)"
    by code_simp
  moreover have "respond new_fake \<lparr>Command = ''INSTREAM'', Body = demo_data\<rparr> = Closed (nul_terminated ''stream: OK'')"
    by (simp add: new_fake_def DefaultHandler_def data_response_def)
  moreover have "unhindered new_fake (length demo_data)" by (simp add: unhindered_def new_fake_def)
  moreover have "int (length demo_data) \<le> maxStreamSize (cfg c)" "int (length demo_data) \<le> max_int64"
    using assms(4) by (simp_all add: demo_data_def)
  ultimately obtain w' where "ScanBytes calm ctx c demo_data w =
      Some ((\<lparr>Verdict = VerdictClean, ResultSignature = [], Raw = ''stream: OK''\<rparr>, None), w')"
    using fake_ScanBytes [of ctx calm c w whole new_fake demo_data "nul_terminated ''stream: OK''" "''stream: OK''" True]
      assms by auto
  then show ?thesis using \<open>int (length demo_data) \<le> maxStreamSize (cfg c)\<close> assms(5)
    by (simp add: ScanBytes_def)
qed

lemma demo_service:
  obtains c where "httpupload_scanner (fake_dial False whole new_fake) ''unix:///run/clamav/clamd.sock'' = Inr c"
    "sem c = Some 4" "maxStreamSize (cfg c) = maxUploadBytes" "dialFunc (cfg c) = Some (fake_dial False whole new_fake)"
proof -
  have "parseAddress ''unix:///run/clamav/clamd.sock'' = Inr (''unix'', ''/run/clamav/clamd.sock'')"
    by (simp add: parseAddress_unix)
  moreover have "validate ((defaultConfig (fake_dial False whole new_fake))
      \<lparr>maxStreamSize := maxUploadBytes, maxConcurrentScans := 4\<rparr>) = None"
    by (simp add: validate_def defaultConfig_def DefaultChunkSize_def MaxChunkSize_def DefaultIOTimeout_def
        DefaultDialTimeout_def second_def maxUploadBytes_def)
  ultimately have run: "httpupload_scanner (fake_dial False whole new_fake) ''unix:///run/clamav/clamd.sock'' =
      Inr \<lparr>network = ''unix'', target = ''/run/clamav/clamd.sock'',
        cfg = (defaultConfig (fake_dial False whole new_fake))\<lparr>maxStreamSize := maxUploadBytes, maxConcurrentScans := 4\<rparr>,
        sem = Some 4\<rparr>"
    by (simp add: httpupload_scanner_def New_def WithMaxStreamSize_def WithMaxConcurrentScans_def defaultConfig_def)
  show thesis by (rule that [OF run]) (simp_all add: defaultConfig_def)
qed

lemma demo_accepted:
  assumes "sem c = Some 4" "maxStreamSize (cfg c) = maxUploadBytes" "dialFunc (cfg c) = Some (fake_dial False whole new_fake)"
  shows "\<exists>resp log w'. uploadHandler calm c demo_upload fresh_world = Some ((resp, log), w') \<and> status resp = 200"
proof -
  obtain ctx w1 where t: "WithTimeout calm background (2 * minute) fresh_world = (ctx, w1)" by (metis prod.collapse)
  then have "ctx_done_at ctx = None" "slots_held w1 = 0" "src_log w1 = []"
    by (auto simp: WithTimeout_def time_Now_def calm_def fresh_world_def Let_def)
  with clean_scan [of ctx c w1] assms obtain w' where "Scan calm ctx c (Some (bytes_reader 0 demo_data)) w1 =
      Some ((\<lparr>Verdict = VerdictClean, ResultSignature = [], Raw = ''stream: OK''\<rparr>, None), w')"
    by (auto simp: slot_free_def calm_def maxUploadBytes_def)
  with t show ?thesis
    by (simp add: uploadHandler_def demo_upload_def upload_reply_def Infected_def Clean_def)
qed

end
