(* ===== verification/Spec2Isabelle.thy ===== *)
theory Spec2Isabelle
  imports Scenario
begin

text \<open>
  A verification of go-clamav, a Go client for the virus scanner daemon clamd.

  \<^bold>\<open>The program.\<close> A \<open>Client\<close> is made by \<open>New\<close> from an address and options (\<open>address.go\<close>,
  \<open>options.go\<close>). Each call dials a connection of its own (\<open>conn.go\<close>), writes a command and reads one
  reply. A scan streams data as length-prefixed chunks (\<open>internal/proto/proto.go\<close>) and reads the
  verdict line (\<open>internal/proto/response.go\<close>); \<open>client.go\<close> puts the two together, with a limit on
  concurrent scans, cancellation by the context, and the recovery of a reply when the server closes
  in mid-stream; \<open>commands.go\<close> has the administrative commands and \<open>errors.go\<close> the classification
  of errors. The package promises to fail closed: whatever goes wrong, data is never called clean.
  \<open>internal/clamdtest\<close> is the test kit, a scriptable fake clamd and builders of sample files;
  \<open>examples/\<close> are three programs on top of the client.

  \<^bold>\<open>The theories\<close>, in the order of their imports:
  \<^item> \<open>Prelude\<close>: bytes, strings, \<open>int64\<close>, big- and little-endian integers; \<open>reachable\<close> and the interface
    \<open>invariant_of\<close> for invariants of step relations.
  \<^item> \<open>GoErrors\<close> (\<open>errors.go\<close>): error values as a datatype; \<open>errors.Is\<close>, \<open>errors.As\<close>, \<open>IsRetryable\<close>.
  \<^item> \<open>GoStrings\<close>: the functions of \<open>strings\<close> and \<open>net\<close> that the code calls.
  \<^item> \<open>GoFmt\<close>: the \<open>Error\<close> methods, over the verbs of \<open>fmt\<close>, \<open>strconv.Quote\<close> with UTF-8, and the
    texts of durations and file modes; \<open>unquote\<close> reads a quoted string back.
  \<^item> \<open>Response\<close> (\<open>response.go\<close>): \<open>ParseScanResponse\<close>.
  \<^item> \<open>Proto\<close> (\<open>proto.go\<close>): \<open>EncodeCommand\<close>, \<open>fill\<close>, \<open>StreamAll\<close> over any reader and writer. \<open>Framing\<close>: the
    contract of the framing (\<open>decode_frames\<close>, \<open>streamed\<close>). The interfaces \<open>frame_sink\<close>,
    \<open>data_source\<close>, \<open>streaming\<close>, \<open>flowing\<close>, \<open>failing_source\<close> and \<open>ending_source\<close> say what a connection and
    a source promise.
  \<^item> \<open>ReplyReader\<close> (\<open>response.go\<close>): \<open>bufio.Reader\<close>, \<open>ReadLine\<close>, \<open>ReadBlock\<close>; interfaces
    \<open>logged_conn\<close>, \<open>ended_conn\<close> and \<open>byte_stream\<close>, reference functions \<open>line_of\<close> and \<open>block_of\<close>.
  \<^item> \<open>World\<close>: what surrounds a call. \<open>world\<close> holds the clock, the connection's deadline, the bytes on
    the wire in both directions and the end of the connection, the bytes the source delivered and its
    failure, and the counts of connections, slots and files, held now and ever taken. \<open>env\<close> is the scheduler: it says at each tick what time it is, whether the
    cancellation watcher runs and how many slots other goroutines hold. A context is when it ends and
    why. Connections, sources, dialers and the file system are functions of the world, arguments of
    every definition that uses them.
  \<^item> \<open>Connection\<close> (\<open>conn.go\<close>, \<open>ctxReader\<close>): \<open>refresh\<close>, \<open>Read\<close> and \<open>Write\<close> of \<open>deadlineConn\<close>; here the
    interfaces above are interpreted.
  \<^item> \<open>Setup\<close> (\<open>address.go\<close>, \<open>options.go\<close>, \<open>New\<close>).
  \<^item> \<open>Client\<close> (\<open>client.go\<close>, \<open>result.go\<close>): \<open>Scan\<close>, \<open>ScanBytes\<close>, \<open>scanStream\<close>,
    \<open>recoverStreamError\<close>, \<open>resultFromLine\<close> and the slots; \<open>ScanFacts\<close> and \<open>ScanWire\<close> hold the lemmas
    about results and resources, and about the bytes on the wire.
  \<^item> \<open>FakeClamd\<close> (\<open>fake.go\<close>): the script of the fake and what \<open>handleConn\<close> answers; the client's end of
    such a connection. \<open>FakeServer\<close>: its life, from \<open>New\<close> to \<open>Close\<close> with changes of the
    script on the way, as a step relation, which refines \<open>handleConn\<close>;
    \<open>FakeShutdown\<close>: \<open>Close\<close> returns. \<open>EndToEnd\<close> and \<open>Recovery\<close>: the client against the fake.
  \<^item> \<open>FileScan\<close> (\<open>ScanFile\<close>, \<open>scanfile_unix.go\<close>, \<open>scanfile_other.go\<close>), \<open>Commands\<close> (\<open>commands.go\<close>),
    \<open>ScanSlots\<close> (the semaphore under any interleaving). \<open>Contexts\<close>: how the end of a context shows in
    the errors of every call. \<open>ErrorTexts\<close>: the list of the errors a scan
    can return (\<open>scan_error\<close>), that it is complete, and what their texts say.
  \<^item> \<open>GoParse\<close> (\<open>strconv.ParseInt\<close> and \<open>time.ParseDuration\<close>, with its \<open>float64\<close> arithmetic),
    \<open>Flags\<close> (\<open>flag.Parse\<close>), \<open>Examples\<close> (\<open>examples/mockscan\<close>, whose interface \<open>scanner\<close> is a
    locale, and \<open>examples/basicscan\<close> from its arguments to its output), \<open>HttpUpload\<close>
    (\<open>examples/httpupload\<close>: handlers, log, routes and \<open>main\<close>).
  \<^item> \<open>ZipCrypto\<close> (\<open>zipcrypto.go\<close>) and \<open>Samples\<close> (\<open>samples.go\<close>, \<open>eicar.go\<close>).
  \<^item> \<open>Scenario\<close>: concrete runs, at which the theorems are instantiated.

  \<^bold>\<open>Results and effects.\<close> A Go function that returns a value and an error gives a pair or a sum;
  one that changes something takes and returns the world. An \<open>option\<close> around this is \<open>None\<close> when the
  call does not return (or, in the sample builders, panics): \<open>stream_loop\<close> and \<open>select_slot\<close> are
  partial functions in the option monad, and that they do return is proved (C7, C11, C31).
  No fuel is used.

  \<^bold>\<open>What is shown.\<close> Here, C1 to C15 about a scan: the fail-closed contract, that clean and infected
  verdicts are earned, that a partial payload never looks complete, the size limit, that every call
  gives back what it took and returns, the race between cancellation and deadline, how failures
  are reported and what their texts say; C18; C22, no byte moves without a deadline; C24, how much a
  peer can make a call hold; C26 and C27, the client against the fake; C30 to C33, files and commands; C35 and C38 to C40, the programs.
  In the components: C16 and C17 (\<open>Response\<close>), C23 (\<open>Proto\<close>), C19, C21 and C25 (\<open>FakeClamd\<close>), C20
  (\<open>FakeServer\<close>), C37 (\<open>FakeShutdown\<close>), C28 and C29 (\<open>Setup\<close>), C34 (\<open>ScanSlots\<close>), C36 (\<open>ZipCrypto\<close>).

  \<^bold>\<open>Bounds.\<close> The limit check of \<open>StreamAll\<close> adds in \<open>int64\<close> before it compares and wraps for
  limits within 16 MiB of the largest \<open>int64\<close> (\<open>limit_check_wraps\<close>); the theorems about the limit
  assume a smaller one, \<open>maxStreamSize \<le> max_int64 - MaxChunkSize\<close>. Without a limit a scan returns
  for every source that ends (\<open>finite_source\<close>); one that delivers bytes for ever is streamed for ever.

  \<^bold>\<open>Assumptions on the surroundings\<close>, each a named hypothesis: \<open>full_writes\<close>, a \<open>Write\<close> that reports no
  error has taken everything (the contract of \<open>io.Writer\<close>, which the code relies on for the command
  itself); \<open>settable\<close>, \<open>SetDeadline\<close> succeeds; \<open>nonblocking_open\<close>, an open with \<open>O_NONBLOCK\<close>
  returns; \<open>mux_refuses\<close>, the answers a \<open>ServeMux\<close> gives by itself are redirects and refusals;
  \<open>deadlines_pass\<close> and \<open>scheduled\<close>, the clock and the scheduler go on while \<open>Close\<close> waits. A
  single \<open>Read\<close>, \<open>Write\<close> or dial is taken to return, as the deadlines on connections make it.

  \<^bold>\<open>Not modelled\<close>, but arguments of the definitions: \<open>net.Dialer\<close> behind \<open>defaultDial\<close>,
  \<open>compress/flate\<close> and \<open>image/png\<close>; which runes above ASCII Unicode calls printable; of
  \<open>net/http\<close>, what \<open>FormFile\<close> makes of a capped body and how \<open>ListenAndServe\<close> ends. Left out: what \<open>flag\<close> prints by itself, how \<open>slog\<close> writes a record,
  tests, containers and scripts.
\<close>

section \<open>The scan contract\<close>

text \<open>
  C1: the fail-closed contract of \<open>Scan\<close>, \<open>ScanBytes\<close> and \<open>ScanFile\<close>. With an error the result
  is the zero result, whose verdict is unknown; without one the verdict is clean or infected.
\<close>

theorem fail_closed_contract:
  assumes "Scan env ctx c r w = Some ((res, err), w') \<or> ScanBytes env ctx c data w = Some ((res, err), w') \<or>
    ScanFile env ctx c unix fs path w = Some ((res, err), w')"
  shows "(err \<noteq> None \<longrightarrow> res = zero_result \<and> \<not> Clean res) \<and> (err = None \<longrightarrow> Clean res \<or> Infected res)"
proof -
  have "fail_closed (res, err)"
    using assms by (auto dest: fail_closed_Scan fail_closed_ScanBytes fail_closed_ScanFile)
  then show ?thesis
    by (cases err) (auto simp: fail_closed_def Clean_def Infected_def zero_result_def)
qed

theorem fail_closed_contract_witness:
  "\<exists>res err w'. ScanBytes calm background (client_of False new_fake) demo_data fresh_world = Some ((res, err), w') \<and>
    err = None \<and> (Clean res \<or> Infected res)"
proof -
  obtain w' where "ScanBytes calm background (client_of False new_fake) demo_data fresh_world =
    Some ((\<lparr>Verdict = VerdictClean, ResultSignature = [], Raw = ''stream: OK''\<rparr>, None), w')"
    using clean_run [of demo_data] by (auto simp: demo_data_def)
  with fail_closed_contract [where data = demo_data and err = None] show ?thesis by blast
qed

text \<open>
  C2: a clean verdict is earned. The source was read to its \<open>io.EOF\<close>; everything it delivered,
  and nothing else, was sent as complete chunks closed by the terminator; and the peer's reply
  is one of the two allowlisted texts with its NUL. Each connection of the client is assumed to
  honour the contract of \<open>io.Writer\<close>.
\<close>

theorem clean_verdict_genuine:
  assumes "Scan env ctx c (Some src) w = Some ((res, err), w')" "Clean res"
    and "dials_to c full_writes" "maxStreamSize (cfg c) \<le> max_int64 - MaxChunkSize"
  shows "\<exists>out data content rest. wire_out w' = EncodeCommand ''INSTREAM'' @ out \<and>
    decode_frames out = Some (data, []) \<and> src_log w' = src_log w @ data \<and> src_eof w' \<and>
    wire_in w' = bytes_of content @ 0 # rest \<and>
    (TrimRight content reply_padding = ''OK'' \<or> TrimRight content reply_padding = ''stream: OK'')"
  using assms(1)
proof (cases rule: Scan_cases [where P = full_writes])
  case (early e)
  with assms(2) show ?thesis by (simp add: Clean_def zero_result_def)
next
  case (ran src' cn w0 w1 w2)
  have clean: "Verdict res = VerdictClean" using assms(2) by (simp add: Clean_def)
  have log: "src_log w1 = src_log w" "src_eof w1 = src_eof w" using ran(5) by (simp_all add: same_sent_def)
  from exchange_sent [OF ran(3) ran(2) [OF assms(3)] assms(4)] clean
  have "sent_on c (AfterFunc_abort (connected w1)) w2 None" by auto
  then obtain out data where out: "wire_out w2 = EncodeCommand ''INSTREAM'' @ out" "src_log w2 = src_log w @ data"
    and st: "streamed (nat (clamp_chunk (chunkSize (cfg c)))) (limit_left (maxStreamSize (cfg c)) 0) None out data (src_eof w2)"
    using log by (auto simp: sent_on_def)
  have "decode_frames out = Some (data, []) \<and> src_eof w2" by (rule decode_streamed_ok [OF st clamp_chunk_bound(2)])
  moreover from exchange_clean [OF ran(3) clean] obtain content rest where
    "wire_in w2 = bytes_of content @ 0 # rest"
    "TrimRight content reply_padding = ''OK'' \<or> TrimRight content reply_padding = ''stream: OK''"
    by (auto simp: got_reply_def parse_clean_iff)
  ultimately show ?thesis using out ran(4) by auto
qed

theorem clean_verdict_genuine_witness:
  "\<exists>w' out data. wire_out w' = EncodeCommand ''INSTREAM'' @ out \<and> decode_frames out = Some (data, []) \<and>
    Scan calm background (client_of False new_fake) (Some (bytes_reader 0 demo_data)) fresh_world =
      Some ((\<lparr>Verdict = VerdictClean, ResultSignature = [], Raw = ''stream: OK''\<rparr>, None), w')"
proof -
  from demo_clean obtain w' where
    run: "Scan calm background (client_of False new_fake) (Some (bytes_reader 0 demo_data)) fresh_world =
      Some ((\<lparr>Verdict = VerdictClean, ResultSignature = [], Raw = ''stream: OK''\<rparr>, None), w')" by blast
  have "maxStreamSize (cfg (client_of False new_fake)) \<le> max_int64 - MaxChunkSize"
    by (simp add: MaxChunkSize_def)
  from clean_verdict_genuine [OF run _ dials_full_writes this] run show ?thesis
    by (auto simp: Clean_def)
qed

text \<open>
  C3: a partial payload never looks complete. On every outcome of a scan that made a
  connection, if the bytes sent after the command decode as a finished stream, then the decoded
  data is all the source delivered and the source had reported its end.
\<close>

theorem partial_never_complete:
  assumes "Scan env ctx c (Some src) w = Some (out, w')" "opened w' \<noteq> opened w"
    and "dials_to c full_writes" "maxStreamSize (cfg c) \<le> max_int64 - MaxChunkSize"
    and "wire_out w' = EncodeCommand ''INSTREAM'' @ sent" "decode_frames sent = Some (data, rest)" "\<not> src_eof w"
  shows "rest = [] \<and> src_log w' = src_log w @ data \<and> src_eof w'"
  using assms(1)
proof (cases rule: Scan_cases [where P = full_writes])
  case (early e)
  with assms(2) show ?thesis by (simp add: same_books_def)
next
  case (ran src' cn w0 w1 w2)
  have log: "src_log w1 = src_log w" using ran(5) by (simp add: same_sent_def)
  have w': "wire_out w2 = EncodeCommand ''INSTREAM'' @ sent" "src_log w' = src_log w2" "src_eof w' = src_eof w2"
    using assms(5) ran(4) by simp_all
  from exchange_sent [OF ran(3) ran(2) [OF assms(3)] assms(4)] show ?thesis
  proof (elim disjE conjE exE)
    fix k assume "wire_out w2 = wire_out (AfterFunc_abort (connected w1)) @ take k (EncodeCommand ''INSTREAM'')"
    then have "length (EncodeCommand ''INSTREAM'' @ sent) \<le> length (EncodeCommand ''INSTREAM'')"
      using w'(1) by simp
    then have "sent = []" by simp
    with assms(6) show ?thesis by (simp add: decode_short)
  next
    fix e assume "sent_on c (AfterFunc_abort (connected w1)) w2 e"
    then obtain del where "src_log w2 = src_log w @ del"
      "streamed (nat (clamp_chunk (chunkSize (cfg c)))) (limit_left (maxStreamSize (cfg c)) 0) e sent del (src_eof w2)"
      using w'(1) log by (auto simp: sent_on_def)
    with decode_streamed [OF this(2) clamp_chunk_bound(2) assms(6)] w' show ?thesis by simp
  qed
qed

theorem partial_never_complete_witness:
  "\<exists>w' sent data. Scan calm background (client_of False new_fake) (Some (bytes_reader 0 demo_data)) fresh_world =
      Some ((\<lparr>Verdict = VerdictClean, ResultSignature = [], Raw = ''stream: OK''\<rparr>, None), w') \<and>
    wire_out w' = EncodeCommand ''INSTREAM'' @ sent \<and> decode_frames sent = Some (data, []) \<and> src_log w' = data"
proof -
  let ?c = "client_of False new_fake"
  let ?sent = "frames (chunks_of (nat (clamp_chunk (chunkSize (cfg ?c)))) demo_data) @ terminator"
  have dec: "decode_frames ?sent = Some (demo_data, [])"
    using decode_chunks [of "chunkSize (cfg ?c)" demo_data "[]"] by simp
  have lim: "maxStreamSize (cfg ?c) \<le> max_int64 - MaxChunkSize" by (simp add: MaxChunkSize_def)
  from demo_clean_sent obtain w' where run: "Scan calm background ?c (Some (bytes_reader 0 demo_data)) fresh_world =
      Some ((\<lparr>Verdict = VerdictClean, ResultSignature = [], Raw = ''stream: OK''\<rparr>, None), w')"
    "wire_out w' = EncodeCommand ''INSTREAM'' @ ?sent" "opened w' \<noteq> opened fresh_world" by blast
  from partial_never_complete [OF run(1,3) dials_full_writes lim run(2) dec] run dec show ?thesis
    by (auto simp: fresh_world_def)
qed

text \<open>
  C4: the client-side limit is a limit on what leaves the client. Whatever the outcome, the
  payload bytes sent, those of an interrupted chunk included, are at most \<open>maxStreamSize\<close>.
\<close>

theorem payload_within_limit:
  assumes "Scan env ctx c (Some src) w = Some (out, w')" "opened w' \<noteq> opened w"
    and "dials_to c full_writes" "0 \<le> maxStreamSize (cfg c)" "maxStreamSize (cfg c) \<le> max_int64 - MaxChunkSize"
    and "wire_out w' = EncodeCommand ''INSTREAM'' @ sent"
  shows "int (payload_sent sent) \<le> maxStreamSize (cfg c)"
  using assms(1)
proof (cases rule: Scan_cases [where P = full_writes])
  case (early e)
  with assms(2) show ?thesis by (simp add: same_books_def)
next
  case (ran src' cn w0 w1 w2)
  have w2: "wire_out w2 = EncodeCommand ''INSTREAM'' @ sent" using assms(6) ran(4) by simp
  from exchange_sent [OF ran(3) ran(2) [OF assms(3)] assms(5)] show ?thesis
  proof (elim disjE conjE exE)
    fix k assume "wire_out w2 = wire_out (AfterFunc_abort (connected w1)) @ take k (EncodeCommand ''INSTREAM'')"
    then have "length (EncodeCommand ''INSTREAM'' @ sent) \<le> length (EncodeCommand ''INSTREAM'')"
      using w2 by simp
    then show ?thesis using assms(4) by (simp add: payload_sent_short)
  next
    fix e assume "sent_on c (AfterFunc_abort (connected w1)) w2 e"
    then obtain del where
      "streamed (nat (clamp_chunk (chunkSize (cfg c)))) (Some (nat (maxStreamSize (cfg c)))) e sent del (src_eof w2)"
      using w2 assms(4) by (auto simp: sent_on_def limit_left_def)
    from streamed_payload [OF this clamp_chunk_bound(2)] assms(4) show ?thesis by linarith
  qed
qed

theorem payload_within_limit_witness:
  "\<exists>w' sent. Scan calm background (client_of False new_fake) (Some (bytes_reader 0 demo_data)) fresh_world =
      Some ((\<lparr>Verdict = VerdictClean, ResultSignature = [], Raw = ''stream: OK''\<rparr>, None), w') \<and>
    wire_out w' = EncodeCommand ''INSTREAM'' @ sent \<and> int (payload_sent sent) \<le> 25 * 2 ^ 20"
proof -
  let ?c = "client_of False new_fake"
  have lim: "0 \<le> maxStreamSize (cfg ?c)" "maxStreamSize (cfg ?c) \<le> max_int64 - MaxChunkSize"
    by (simp_all add: MaxChunkSize_def)
  from demo_clean_sent obtain w' where run: "Scan calm background ?c (Some (bytes_reader 0 demo_data)) fresh_world =
      Some ((\<lparr>Verdict = VerdictClean, ResultSignature = [], Raw = ''stream: OK''\<rparr>, None), w')"
    "wire_out w' = EncodeCommand ''INSTREAM'' @ frames (chunks_of (nat (clamp_chunk (chunkSize (cfg ?c)))) demo_data) @ terminator"
    "opened w' \<noteq> opened fresh_world" by blast
  from payload_within_limit [OF run(1,3) dials_full_writes lim run(2)] run show ?thesis
    by (simp del: append_assoc)
qed

text \<open>
  C5: a detection is the server's word. An infected result means that the peer sent a line ending
  in \<open>FOUND\<close>, and the reported signature is the one in that line.
\<close>

theorem infected_verdict_genuine:
  assumes "Scan env ctx c (Some src) w = Some ((res, err), w')" "Infected res"
  shows "err = None \<and> (\<exists>content rest. wire_in w' = bytes_of content @ rest \<and> (rest = [] \<or> hd rest = 0) \<and>
    HasSuffix (TrimRight content reply_padding) '' FOUND'' \<and>
    ResultSignature res = found_signature (TrimRight content reply_padding))"
  using assms(1)
proof (cases rule: Scan_cases [where P = "\<lambda>_. True"])
  case (early e)
  with assms(2) show ?thesis by (simp add: Infected_def zero_result_def)
next
  case (ran src' cn w0 w1 w2)
  from exchange_infected [OF ran(3)] assms(2) obtain t where
    x: "err = None" "got_reply (AfterFunc_abort (connected w1)) w2 (Raw res) t"
      "Outcome (ParseScanResponse (Raw res)) = OutcomeInfected" "ResultSignature res = Signature (ParseScanResponse (Raw res))"
    by (auto simp: Infected_def)
  then obtain content rest where c: "wire_in w2 = bytes_of content @ (if t then 0 # rest else [])" "Raw res = trimEOL content"
    by (auto simp: got_reply_def)
  have "HasSuffix (TrimRight content reply_padding) '' FOUND''" using x(3) c(2) by (simp add: parse_infected_iff)
  moreover from this have "ResultSignature res = found_signature (TrimRight content reply_padding)"
    using x(4) c(2) by (simp add: ParseScanResponse_def)
  ultimately show ?thesis using c(1) x(1) ran(4)
    by (auto intro!: exI [of _ content] exI [of _ "if t then 0 # rest else []"])
qed

theorem infected_verdict_genuine_witness:
  "\<exists>w' content rest. Scan calm background (client_of False infected_fake) (Some (bytes_reader 0 demo_data)) fresh_world =
      Some ((\<lparr>Verdict = VerdictInfected, ResultSignature = ''Eicar-Test'', Raw = ''stream: Eicar-Test FOUND''\<rparr>, None), w') \<and>
    wire_in w' = bytes_of content @ rest \<and> HasSuffix (TrimRight content reply_padding) '' FOUND''"
proof -
  from demo_infected obtain w' where run:
    "Scan calm background (client_of False infected_fake) (Some (bytes_reader 0 demo_data)) fresh_world =
      Some ((\<lparr>Verdict = VerdictInfected, ResultSignature = ''Eicar-Test'', Raw = ''stream: Eicar-Test FOUND''\<rparr>, None), w')"
    by blast
  from infected_verdict_genuine [OF run] run show ?thesis by (auto simp: Infected_def)
qed

section \<open>Resources, cancellation and waiting\<close>

text \<open>
  C6: every call gives back what it took. After \<open>Scan\<close>, \<open>ScanBytes\<close>, \<open>ScanFile\<close> or a command
  returns, on any path, the connections it opened are closed, and it holds no concurrency slot and
  no file beyond those held before.
\<close>

theorem resources_given_back:
  assumes "Scan env ctx c r w = Some (out, w') \<or> ScanBytes env ctx c data w = Some (out, w') \<or>
    ScanFile env ctx c unix fs path w = Some (out, w') \<or> command env ctx c name block w = Some (reply, w')"
  shows "opened w' + closed w = opened w + closed w' \<and> slots_held w' = slots_held w \<and> files_open w' = files_open w"
  using assms Scan_books [of env ctx c r w out w'] ScanBytes_books [of env ctx c data w out w']
    ScanFile_books [of env ctx c unix fs path w out w'] command_books [of env ctx c name block w reply w']
  by auto

theorem resources_given_back_witness:
  "\<exists>w' out. ScanBytes calm background (client_of False new_fake) demo_data fresh_world = Some (out, w') \<and>
    opened w' = closed w' \<and> slots_held w' = 0 \<and> files_open w' = 0"
proof -
  from clean_run [of demo_data] obtain w' out where
    run: "ScanBytes calm background (client_of False new_fake) demo_data fresh_world = Some (out, w')"
    by (auto simp: demo_data_def)
  from resources_given_back [where data = demo_data] run show ?thesis
    by (fastforce simp: fresh_world_def)
qed

text \<open>
  C7: a scan returns, whatever the source answers and whatever the peer and the scheduler do, as long
  as each single call of them returns and a queued scan's context ends. It needs a size limit, or a
  source that delivers only so many bytes; a scan of a buffer returns without either.
\<close>

theorem scan_returns:
  assumes "New net_dial addr opts = Inr c" "sem c = None \<or> ctx_done_at ctx \<noteq> None"
    and "\<forall>src. r = Some src \<longrightarrow> scan_ends c src"
  shows "(\<exists>out w'. Scan env ctx c r w = Some (out, w')) \<and> (\<exists>out w'. ScanBytes env ctx c data w = Some (out, w'))"
proof -
  have ok: "client_ok c" using assms(1) by (rule New_client_ok)
  have "\<exists>out w'. Scan env ctx c (Some (bytes_reader start data)) w = Some (out, w')" for start
    by (rule Scan_returns [OF ok assms(2)]) (simp add: scan_ends_bytes)
  then have "\<exists>out w'. ScanBytes env ctx c data w = Some (out, w')" by (simp add: ScanBytes_def)
  with Scan_returns [OF ok assms(2,3)] show ?thesis by blast
qed

theorem scan_returns_witness:
  "(\<exists>out w'. Scan calm background (unlimited_client False new_fake) (Some (bytes_reader 7 demo_data)) fresh_world = Some (out, w')) \<and>
   (\<exists>out w'. ScanBytes calm background (unlimited_client False new_fake) [1, 2, 3] fresh_world = Some (out, w')) \<and>
   (\<exists>out w'. Scan calm cancelled (client_of True new_fake) (Some (\<lambda>_ _. (Negative 0, None))) fresh_world = Some (out, w'))"
proof -
  have sem: "sem (unlimited_client False new_fake) = None" by (simp add: unlimited_client_def client_of_def)
  have lim: "scan_ends (client_of True new_fake) src" for src
    by (rule scan_ends_limit) (simp_all add: NoSizeLimit_def MaxChunkSize_def)
  show ?thesis
    using scan_returns [OF New_unlimited, where ctx = background and r = "Some (bytes_reader 7 demo_data)"] sem
      scan_returns [OF New_client_of, where ctx = cancelled and r = "Some (\<lambda>_ _. (Negative 0, None))"] lim
    by (simp add: scan_ends_bytes)
qed

text \<open>
  C8: the abort deadline survives the race between the watcher and a refresh. If the watcher has
  slammed the deadline shut at any time during an exchange on a fresh connection, it is still in
  place when the exchange ends, and the context is done.
\<close>

theorem abort_deadline_kept:
  assumes "scan_exchange env ctx c cn src (AfterFunc_abort (connected v)) = Some (out, w')" "settable cn"
    and "slammed w'"
  shows "conn_deadline w' = Some abortDeadline \<and> ctx_done ctx w'"
proof -
  have "abort_kept ctx (AfterFunc_abort (connected v))"
    by (simp add: abort_kept_def AfterFunc_abort_def connected_def)
  from scan_exchange_abort_kept [OF assms(1,2) this] assms(3) show ?thesis by (simp add: abort_kept_def)
qed

theorem abort_deadline_kept_witness:
  "\<exists>out w'. scan_exchange calm cancelled (client_of False new_fake) (fake_conn False whole new_fake)
      (bytes_reader 0 demo_data) (AfterFunc_abort (connected fresh_world)) = Some (out, w') \<and>
    slammed w' \<and> conn_deadline w' = Some abortDeadline"
proof -
  let ?w = "AfterFunc_abort (connected fresh_world)"
  obtain w' where run: "scan_exchange calm cancelled (client_of False new_fake) (fake_conn False whole new_fake)
      (bytes_reader 0 demo_data) ?w = Some ((zero_result, Some (Errorf ''clamav: write: %w'' [] [CtxCanceled])), w')"
    and "slammed w'"
    using cancelled_exchange by blast
  with abort_deadline_kept [OF run settable_fake] show ?thesis by blast
qed

text \<open>
  C9: no byte passes after the abort. Once the deadline has been slammed shut, every read and
  every write of the connection wrapper fails without touching the connection.
\<close>

theorem no_io_after_abort:
  assumes "abort_kept ctx w" "settable cn" "slammed w"
  shows "(\<exists>e w'. dc_read env ctx cn d w k = (([], Some e), w') \<and> wire_in w' = wire_in w) \<and>
    (\<exists>e w'. dc_write env ctx cn d w p = ((0, Some e), w') \<and> wire_out w' = wire_out w)"
proof -
  obtain r w1 where rd: "dc_read env ctx cn d w k = (r, w1)" by (metis prod.collapse)
  obtain s w2 where wr: "dc_write env ctx cn d w p = (s, w2)" by (metis prod.collapse)
  from dc_read_abort_kept [OF assms(1,2) rd] assms(3) obtain e where e: "r = ([], Some e)" by blast
  from dc_write_abort_kept [OF assms(1,2) wr] assms(3) obtain f where f: "s = (0, Some f)" by blast
  have "wire_in w1 = wire_in w" using dc_read_got [OF rd [unfolded e]] by simp
  moreover have "wire_out w2 = wire_out w"
    using wr [unfolded f] assms refresh_abort_kept [OF assms(1,2)] refresh_frame(1)
    by (auto simp: dc_write_def split: prod.splits option.splits)
  ultimately show ?thesis using rd wr e f by blast
qed

theorem no_io_after_abort_witness:
  "\<exists>e w'. dc_read calm cancelled (fake_conn False whole new_fake) second
      (fresh_world\<lparr>watch := Fired, slammed := True, conn_deadline := Some abortDeadline\<rparr>) 4096 = (([], Some e), w')"
  using no_io_after_abort [of cancelled
      "fresh_world\<lparr>watch := Fired, slammed := True, conn_deadline := Some abortDeadline\<rparr>"
      "fake_conn False whole new_fake" calm second 4096 "[]"] settable_fake
  by (auto simp: abort_kept_def ctx_done_def cancelled_def)

text \<open>
  C10: a call whose context is already done does nothing. \<open>Scan\<close> returns the context's error at once;
  \<open>ScanBytes\<close> does, unless the data is over the limit, and \<open>ScanFile\<close> does for every path that the
  first look accepts. None of them makes a connection, takes a slot, opens a file or reads a source,
  not even to give it back at once. And a command that still gets a connection sends no byte on it; it
  fails with the context's error unless the dial function returned nothing at all.
\<close>

theorem cancelled_scan_does_nothing:
  assumes "ctx_done ctx w"
  shows "Scan env ctx c (Some src) w = Some ((zero_result, Some (Errorf ''clamav: %w'' [] [ctx_reason ctx])), tick env ctx w) \<and>
    (IsRetryable (Some (Errorf ''clamav: %w'' [] [ctx_reason ctx])) \<longleftrightarrow> ctx_because ctx = ByDeadline) \<and>
    (\<exists>e w'. ScanBytes env ctx c data w = Some ((zero_result, Some e), w') \<and> untouched w w' \<and>
      (e = Errorf ''clamav: %w'' [] [ctx_reason ctx] \<or>
       errors_Is e ErrSizeLimitExceeded \<and> maxStreamSize (cfg c) \<noteq> NoSizeLimit \<and>
         maxStreamSize (cfg c) < int (length data))) \<and>
    (\<exists>e w'. ScanFile env ctx c unix fs path w = Some ((zero_result, Some e), w') \<and> untouched w w' \<and>
      (e = Errorf ''clamav: %w'' [] [ctx_reason ctx] \<or>
       \<not> (\<exists>fi. os_stat fs (tick env ctx w) path = Inr fi \<and> accepted_target (maxStreamSize (cfg c)) fi))) \<and>
    (command env ctx c name block w = Some (reply, w') \<longrightarrow>
      (\<exists>e. reply = Inl e \<and> (errors_Is e (ctx_reason ctx) \<or> e = nil_connection)) \<and>
      (opened w' \<noteq> opened w \<longrightarrow> wire_out w' = [] \<and> wire_in w' = []))"
proof -
  have "IsRetryable (Some (Errorf ''clamav: %w'' [] [ctx_reason ctx])) \<longleftrightarrow> ctx_because ctx = ByDeadline"
    by (cases "ctx_because ctx") (simp_all add: ctx_reason_def IsRetryable_def errors_Is_simps errors_Is_leaf)
  then show ?thesis
    using Scan_done [OF assms] ScanBytes_done [OF assms] ScanFile_done [OF assms] command_done [OF _ assms] by blast
qed

theorem cancelled_scan_does_nothing_witness:
  "Scan calm cancelled (client_of False new_fake) (Some (bytes_reader 0 demo_data)) fresh_world =
      Some ((zero_result, Some (Errorf ''clamav: %w'' [] [CtxCanceled])), tick calm cancelled fresh_world) \<and>
    (\<exists>e w'. ScanFile calm cancelled (client_of False new_fake) True demo_fs ''/srv/x'' fresh_world =
      Some ((zero_result, Some e), w') \<and> slots_taken w' = 0 \<and> files_opened w' = 0)"
proof -
  have "ctx_done cancelled fresh_world" "ctx_reason cancelled = CtxCanceled"
    by (simp_all add: ctx_done_def ctx_reason_def cancelled_def fresh_world_def)
  moreover have "slots_taken fresh_world = 0" "files_opened fresh_world = 0" by (simp_all add: fresh_world_def)
  ultimately show ?thesis
    using cancelled_scan_does_nothing [of cancelled fresh_world calm "client_of False new_fake" "bytes_reader 0 demo_data"
        demo_data True demo_fs "''/srv/x''"]
    unfolding untouched_def by metis
qed

text \<open>
  C11: a queued scan waits for a slot and no longer than its context. A slot that is free at some
  moment while the context is live is taken, then or before; and while all slots stay taken, the
  scan fails with the context's error when the context ends, holding nothing.
\<close>

theorem queued_scan_gives_up:
  assumes "sem c = Some cap" "\<not> ctx_done ctx (tick env ctx w)"
  shows "(clock w + 1 < j \<and> e_others env j + slots_held w < cap \<and> (\<forall>k. ctx_done_at ctx = Some k \<longrightarrow> j < k) \<longrightarrow>
      (\<exists>w'. acquireScanSlot env ctx c w = Some (None, w') \<and> clock w' \<le> j \<and> slots_held w' = Suc (slots_held w))) \<and>
    ((\<forall>i. cap \<le> e_others env i) \<and> ctx_done_at ctx \<noteq> None \<longrightarrow>
      (\<exists>w'. Scan env ctx c (Some src) w =
          Some ((zero_result, Some (Errorf ''clamav: waiting for scan slot: %w'' [] [ctx_reason ctx])), w') \<and>
        opened w' = opened w \<and> slots_held w' = slots_held w \<and> src_log w' = src_log w))"
proof -
  have queue: "acquireScanSlot env ctx c w = select_slot env ctx cap (tick env ctx w)"
    using assms by (simp add: acquireScanSlot_def ctx_Err_def Let_def)
  have "\<exists>w'. acquireScanSlot env ctx c w = Some (None, w') \<and> clock w' \<le> j \<and> slots_held w' = Suc (slots_held w)"
    if "clock w + 1 < j" "e_others env j + slots_held w < cap" "\<forall>k. ctx_done_at ctx = Some k \<longrightarrow> j < k"
  proof -
    from that select_slot_free [of "tick env ctx w" j env cap ctx] obtain w' where
      "acquireScanSlot env ctx c w = Some (None, w')" "clock w' \<le> j" by (auto simp: queue)
    with acquireScanSlotD [OF this(1)] assms(1) show ?thesis by auto
  qed
  moreover have "\<exists>w'. Scan env ctx c (Some src) w =
          Some ((zero_result, Some (Errorf ''clamav: waiting for scan slot: %w'' [] [ctx_reason ctx])), w') \<and>
        opened w' = opened w \<and> slots_held w' = slots_held w \<and> src_log w' = src_log w"
    if full: "\<And>i. cap \<le> e_others env i" and "ctx_done_at ctx \<noteq> None"
  proof -
    from that(2) obtain k where "ctx_done_at ctx = Some k" by blast
    from select_slot_full [OF full this] queue obtain w' where s: "acquireScanSlot env ctx c w =
        Some (Some (Errorf ''clamav: waiting for scan slot: %w'' [] [ctx_reason ctx]), w')" by auto
    with acquireScanSlotD [OF s] show ?thesis by (auto simp: Scan_def same_sent_def)
  qed
  ultimately show ?thesis by blast
qed

theorem queued_scan_gives_up_witness:
  "\<exists>w'. Scan (calm\<lparr>e_others := \<lambda>_. 1\<rparr>) (cancelled\<lparr>ctx_done_at := Some 9\<rparr>) ((client_of False new_fake)\<lparr>sem := Some 1\<rparr>)
      (Some (bytes_reader 0 demo_data)) fresh_world =
    Some ((zero_result, Some (Errorf ''clamav: waiting for scan slot: %w'' [] [CtxCanceled])), w') \<and>
    slots_held w' = 0"
  using queued_scan_gives_up [of "(client_of False new_fake)\<lparr>sem := Some 1\<rparr>" 1
      "cancelled\<lparr>ctx_done_at := Some 9\<rparr>" "calm\<lparr>e_others := \<lambda>_. 1\<rparr>" fresh_world _ "bytes_reader 0 demo_data"]
  by (auto simp: ctx_done_def ctx_reason_def cancelled_def fresh_world_def)

section \<open>Errors\<close>

text \<open>
  C12: the end of a context is never passed off as a transport failure. Whatever call reports a
  failure of its connection, at that last moment its context was not done and its deadline had not
  passed, the one exception being a dial function that returned neither connection nor error.
\<close>

theorem cancellation_reported:
  assumes "Scan env ctx c r w = Some ((res, Some (ConnectionError op x)), w') \<or>
    ScanBytes env ctx c data w = Some ((res, Some (ConnectionError op x)), w') \<or>
    ScanFile env ctx c unix fs path w = Some ((res, Some (ConnectionError op x)), w') \<or>
    command env ctx c name block w = Some (Inl (ConnectionError op x), w')"
  shows "(\<forall>k. ctx_done_at ctx = Some k \<longrightarrow> clock w' \<le> k) \<and>
    (\<forall>dl. ctx_deadline ctx = Some dl \<longrightarrow> e_now env (clock w') < dl) \<or> ConnectionError op x = nil_connection"
proof -
  have "blames env ctx (Some (ConnectionError op x)) w'"
    using assms by (elim disjE) (erule Scan_blames ScanBytes_blames ScanFile_blames command_blames)+
  then show ?thesis by (simp add: blames_def still_live_def)
qed

theorem cancellation_reported_witness:
  "\<exists>w'. Scan calm (cancelled\<lparr>ctx_done_at := Some 9\<rparr>) refused_client (Some (bytes_reader 0 demo_data)) fresh_world =
      Some ((zero_result, Some (ConnectionError ''dial'' (Foreign ''refused'' []))), w') \<and> clock w' \<le> 9"
proof -
  obtain w' where run: "Scan calm (cancelled\<lparr>ctx_done_at := Some 9\<rparr>) refused_client (Some (bytes_reader 0 demo_data)) fresh_world =
      Some ((zero_result, Some (ConnectionError ''dial'' (Foreign ''refused'' []))), w')"
    using refused_run by blast
  with cancellation_reported [OF disjI1, OF run] show ?thesis
    by (auto simp: nil_connection_def cancelled_def)
qed

text \<open>
  C13: a failing source is blamed for its own failure. Once a read of the caller's reader, or of the
  file, has failed by itself, the scan reports exactly that error, whatever the context, the
  connection and the peer do by then. It reports the size limit instead if, and only if, the source
  has delivered more bytes than the limit (for limits within the bound of C4). The error is assumed
  not to be one that only the library makes.
\<close>

theorem source_failure_reported:
  assumes "Scan env ctx c r w = Some (out, w') \<or> ScanFile env ctx c unix fs path w = Some (out, w')"
    and "src_failed w = None" "src_failed w' = Some x"
    and "\<not> errors_Is x ProtoErrSizeLimitExceeded" "as_SourceAborted x = None"
  shows "out = (zero_result, Some (Errorf ''clamav: reading scan source: %w'' [] [x])) \<and>
      (maxStreamSize (cfg c) \<le> max_int64 - MaxChunkSize \<longrightarrow> \<not> over_limit c w w') \<or>
    out = (zero_result, Some (Errorf ''%w: input exceeds client-side limit of %d bytes (WithMaxStreamSize)''
        [FInt (maxStreamSize (cfg c))] [ErrSizeLimitExceeded])) \<and> over_limit c w w'"
  using assms(1) Scan_failed [OF _ assms(2-5)] ScanFile_failed [OF _ assms(2-5)]
  unfolding source_blamed_def by blast

theorem source_failure_reported_witness:
  "\<exists>w'. Scan calm background (client_of False new_fake) (Some truncated_body) fresh_world =
      Some ((zero_result, Some (Errorf ''clamav: reading scan source: %w'' [] [IoErrUnexpectedEOF])), w')"
proof -
  obtain out w' where run: "Scan calm background (client_of False new_fake) (Some truncated_body) fresh_world =
      Some (out, w')" and f: "src_failed w' = Some IoErrUnexpectedEOF" "src_log w' = []"
    using truncated_run by blast
  have x: "\<not> errors_Is IoErrUnexpectedEOF ProtoErrSizeLimitExceeded" "as_SourceAborted IoErrUnexpectedEOF = None"
    by (simp_all add: errors_Is_leaf as_SourceAborted_def errors_As_leaf)
  have start: "src_failed fresh_world = None" by (simp add: fresh_world_def)
  have "\<not> over_limit (client_of False new_fake) fresh_world w'" using f(2) by (simp add: over_limit_def)
  with source_failure_reported [OF disjI1, OF run start f(1) x] run show ?thesis by blast
qed

text \<open>
  C14: the texts of a scan's errors. Every text starts with the library's name. If an error says that
  a size limit was exceeded, the text ends by naming the side that enforced it, or the error relays
  one that the source, the transport or the file system reported. A line break, which could forge
  a line of a log, is never the library's or clamd's, only that of a relayed cause or of the path of
  a file; and an unexpected reply is quoted in printable characters from which it can be read back.
\<close>

theorem scan_error_texts:
  assumes "Scan env ctx c r w = Some ((res, Some e), w') \<or> ScanBytes env ctx c data w = Some ((res, Some e), w') \<or>
    ScanFile env ctx c unix fs path w = Some ((res, Some e), w')"
  shows "HasPrefix (Error pr e) ''clamav: '' \<and>
    (errors_Is e ErrSizeLimitExceeded \<longrightarrow>
      HasSuffix (Error pr e) ''(WithMaxStreamSize)'' \<or> HasSuffix (Error pr e) ''(clamd StreamMaxLength)'' \<or>
      (\<exists>x. relayed e x \<and> errors_Is x ErrSizeLimitExceeded)) \<and>
    (one_line (Error pr e) \<or> (\<exists>x. relayed e x \<and> \<not> one_line (Error pr x)) \<or>
      (\<exists>p m. e = NewError not_regular_format [FStr p, FMode m] \<and> \<not> one_line p)) \<and>
    (\<forall>command reply. e = ProtocolError command reply \<longrightarrow>
      (\<exists>q. Error pr e = ''clamav: unexpected '' @ command @ '' response from clamd: '' @ q \<and>
        unquote q = Some reply \<and> (\<forall>ch \<in> set q. visible ch)))"
proof -
  have "error_listed (res, Some e)" using assms by (auto dest: Scan_listed ScanBytes_listed ScanFile_listed)
  then have e: "scan_error e" by simp
  have "\<exists>q. Error pr e = ''clamav: unexpected '' @ command @ '' response from clamd: '' @ q \<and>
      unquote q = Some reply \<and> (\<forall>ch \<in> set q. visible ch)" if "e = ProtocolError command reply" for command reply
    unfolding that by (rule protocol_error_text)
  with scan_error_prefix [OF e] scan_error_side [OF e] scan_error_one_line [OF e] show ?thesis by blast
qed

theorem scan_error_texts_witness:
  "\<exists>e w'. ScanBytes calm background (client_of False new_fake) (replicate (25 * 2 ^ 20 + 1) 0) fresh_world =
      Some ((zero_result, Some e), w') \<and> errors_Is e ErrSizeLimitExceeded \<and>
    HasPrefix (Error (\<lambda>_. True) e) ''clamav: ''"
proof -
  let ?e = "Errorf ''%w: input is %d bytes, client-side limit is %d (WithMaxStreamSize)''
    [FInt (25 * 2 ^ 20 + 1), FInt (25 * 2 ^ 20)] [ErrSizeLimitExceeded]"
  have run: "ScanBytes calm background (client_of False new_fake) (replicate (25 * 2 ^ 20 + 1) 0) fresh_world =
      Some ((zero_result, Some ?e), fresh_world)"
    by (simp add: ScanBytes_def NoSizeLimit_def)
  from scan_error_texts [where data = "replicate (25 * 2 ^ 20 + 1) 0" and pr = "\<lambda>_. True", OF disjI2 [OF disjI1 [OF run]]]
  have "HasPrefix (Error (\<lambda>_. True) ?e) ''clamav: ''" by (rule conjunct1)
  with run show ?thesis by (intro exI conjI) (simp_all add: errors_Is_simps errors_Is_leaf del: Error.simps)
qed

text \<open>
  C15: the verdict of a reply, exactly. A line gives a clean verdict if and only if its NUL was seen
  and its text is allowlisted, a detection if and only if it ends in \<open>FOUND\<close>, terminated or not,
  and an error in every other case.
\<close>

theorem verdict_of_reply:
  "(Verdict (fst (resultFromLine line terminated)) = VerdictClean \<longleftrightarrow>
      terminated \<and> TrimRight line reply_padding \<in> {''OK'', ''stream: OK''}) \<and>
   (Verdict (fst (resultFromLine line terminated)) = VerdictInfected \<longleftrightarrow>
      HasSuffix (TrimRight line reply_padding) '' FOUND'') \<and>
   (snd (resultFromLine line terminated) \<noteq> None \<longleftrightarrow>
      Verdict (fst (resultFromLine line terminated)) = VerdictUnknown)"
  by (simp add: resultFromLine_def zero_result_def Let_def flip: parse_infected_iff split: outcome.split)
    (use parse_clean_iff [of line] in auto)

text \<open>
  C18: the server's size limit is recognised, however it is capitalised or prefixed: the error of
  such a reply matches \<open>ErrSizeLimitExceeded\<close>, still carries the \<open>ClamdError\<close> with the message,
  and is not retryable.
\<close>

theorem size_limit_recognised:
  assumes "msg = [] \<or> graphic (hd msg) \<and> graphic (last msg)" "Contains (ToLower msg) ''size limit exceeded''"
  shows "\<exists>e. resultFromLine (msg @ '' ERROR'') terminated = (zero_result, Some e) \<and>
    errors_Is e ErrSizeLimitExceeded \<and> errors_As is_ClamdError e = Some (ClamdError msg) \<and> \<not> IsRetryable (Some e)"
proof -
  have "resultFromLine (msg @ '' ERROR'') terminated =
      (zero_result, Some (Errorf ''%w: %w (clamd StreamMaxLength)'' [] [ErrSizeLimitExceeded, ClamdError msg]))"
    using parse_error_message [OF assms(1)] assms(2)
    by (simp add: resultFromLine_def clamdErrorFrom_def isSizeLimitMessage_def Let_def)
  then show ?thesis
    by (auto simp: errors_Is_simps errors_Is_leaf errors_As_def err_tree_simps err_tree_leaf IsRetryable_def)
qed

theorem size_limit_recognised_witness:
  "\<exists>e. resultFromLine (''INSTREAM Size Limit Exceeded.'' @ '' ERROR'') True = (zero_result, Some e) \<and>
    errors_Is e ErrSizeLimitExceeded"
proof -
  have "Contains (ToLower ''INSTREAM Size Limit Exceeded.'') ''size limit exceeded''" by code_simp
  then show ?thesis
    using size_limit_recognised [of "''INSTREAM Size Limit Exceeded.''" True] by (auto simp: graphic_def)
qed

text \<open>
  C22: no byte moves without a deadline. Two connections that agree wherever a deadline guards the
  access, one computed for this very read or write, at most the I/O timeout ahead and not after the
  context's deadline, or the abort's, cannot be told apart by a scan or a command: neither
  ever reads or writes outside such a deadline.
\<close>

theorem io_under_deadline:
  assumes "conn_set_deadline cn = conn_set_deadline cn'"
    and "\<And>v. io_guarded env ctx (ioTimeout (cfg c)) v \<Longrightarrow>
      conn_read cn v = conn_read cn' v \<and> conn_write cn v = conn_write cn' v"
  shows "scan_exchange env ctx c cn src w = scan_exchange env ctx c cn' src w \<and>
    command_exchange env ctx c cn name block w = command_exchange env ctx c cn' name block w"
proof -
  have "same_guarded env ctx (ioTimeout (cfg c)) cn cn'" using assms by (simp add: same_guarded_def)
  then show ?thesis by (intro conjI scan_exchange_guarded command_exchange_guarded)
qed

theorem io_under_deadline_witness:
  "scan_exchange calm background (client_of False new_fake) (fake_conn False whole new_fake) (bytes_reader 0 demo_data) fresh_world =
    scan_exchange calm background (client_of False new_fake)
      ((fake_conn False whole new_fake)\<lparr>conn_read := (\<lambda>v k.
         if io_guarded calm background (ioTimeout (cfg (client_of False new_fake))) v
         then conn_read (fake_conn False whole new_fake) v k else (replicate k 0, None))\<rparr>)
      (bytes_reader 0 demo_data) fresh_world"
  by (rule conjunct1 [OF io_under_deadline]) (simp_all add: fun_eq_iff)

section \<open>The client and a server\<close>

text \<open>
  C26: end to end. Against the fake server, within the limits of both sides, \<open>ScanBytes\<close> returns
  what the server's reply means, and the server's handler was given exactly the scanned bytes:
  \<open>handleConn\<close>, run on what the client sent, wrote the handler's answer to that body.
\<close>

theorem end_to_end_scan:
  assumes "ctx_done_at ctx = None" "slot_free env c w" "dialFunc (cfg c) = Some (fake_dial False seg f)"
    and "maxStreamSize (cfg c) = NoSizeLimit \<or> int (length data) \<le> maxStreamSize (cfg c)"
    and "int (length data) \<le> max_int64" "unhindered f (length data)"
    and "fake_handler f \<lparr>Command = ''INSTREAM'', Body = data\<rparr> = data_response reply"
    and "line_of MaxLineResponse [] reply = (line, t, None)"
  shows "\<exists>w'. ScanBytes env ctx c data w = Some (resultFromLine line t, w') \<and>
    handleConn f (wire_out w') = Closed (Data (fake_handler f \<lparr>Command = ''INSTREAM'', Body = data\<rparr>))"
proof -
  let ?K = "nat (clamp_chunk (chunkSize (cfg c)))"
  have r: "respond f \<lparr>Command = ''INSTREAM'', Body = data\<rparr> = Closed reply"
    using assms(7) by (simp add: data_response_def)
  from fake_ScanBytes [OF assms(1-6) r assms(8)] obtain w' where
    w': "ScanBytes env ctx c data w = Some (resultFromLine line t, w')"
      "wire_out w' = EncodeCommand ''INSTREAM'' @ frames (chunks_of ?K data) @ terminator" by blast
  have "?K \<le> 2 ^ 26" using clamp_chunk_range [of "chunkSize (cfg c)"] by (auto simp: MaxChunkSize_def)
  then have "handleConn f (wire_out w') = respond f \<lparr>Command = ''INSTREAM'', Body = data\<rparr>"
    using handleConn_INSTREAM [of "chunks_of ?K data" ?K f] chunks_of_ok assms(6)
      concat_chunks_of [OF clamp_chunk_bound(1), of "chunkSize (cfg c)" data]
    by (simp add: w'(2))
  with w'(1) r assms(7) show ?thesis by (auto simp: data_response_def)
qed

theorem end_to_end_scan_witness:
  "\<exists>w'. ScanBytes calm background (client_of False infected_fake) EICAR fresh_world =
      Some ((\<lparr>Verdict = VerdictInfected, ResultSignature = ''Eicar-Test'', Raw = ''stream: Eicar-Test FOUND''\<rparr>, None), w')"
proof -
  let ?s = "''stream: Eicar-Test FOUND''"
  have line: "line_of MaxLineResponse [] (nul_terminated ?s) = (?s, True, None)"
    by (rule line_of_nul) (auto simp: eol_def MaxLineResponse_def)
  have res: "resultFromLine ?s True = (\<lparr>Verdict = VerdictInfected, ResultSignature = ''Eicar-Test'', Raw = ?s\<rparr>, None)"
    by code_simp
  have len: "length EICAR = 68" by (rule length_EICAR)
  have "\<exists>w'. ScanBytes calm background (client_of False infected_fake) EICAR fresh_world = Some (resultFromLine ?s True, w') \<and>
      handleConn infected_fake (wire_out w') =
        Closed (Data (fake_handler infected_fake \<lparr>Command = ''INSTREAM'', Body = EICAR\<rparr>))"
    by (rule end_to_end_scan [OF _ _ _ _ _ _ _ line])
      (simp_all add: len slot_free_def unhindered_def infected_fake_def SetHandler_def RespondWith_def new_fake_def)
  with res show ?thesis by auto
qed

text \<open>
  C27: a server that closes in mid-stream is understood. When the data passes the server's
  \<open>StreamMaxLength\<close>, the server replies and closes while the client is still writing; the client
  reports the size limit, not the broken pipe, and does not call it retryable.
\<close>

theorem server_limit_recovered:
  assumes "ctx_done_at ctx = None" "ctx_deadline ctx = None" "slot_free env c w"
    and "dialFunc (cfg c) = Some (fake_dial True seg (SetStreamLimit n new_fake))"
    and "maxStreamSize (cfg c) = NoSizeLimit \<or> int (length data) \<le> maxStreamSize (cfg c)"
    and "int (length data) \<le> max_int64" "0 < n" "n < int (length data)"
  shows "\<exists>e w'. ScanBytes env ctx c data w = Some ((zero_result, Some e), w') \<and>
    errors_Is e ErrSizeLimitExceeded \<and> \<not> IsRetryable (Some e)"
proof -
  let ?f = "SetStreamLimit n new_fake" and ?s = "''INSTREAM size limit exceeded. ERROR''"
  have cross: "crossing ?f m = (if int m > n then Some size_limit_reply else None)" for m
    using assms(7) by (simp add: crossing_def SetStreamLimit_def new_fake_def)
  have line: "line_of MaxLineResponse [] size_limit_reply = (?s, True, None)"
    unfolding size_limit_reply_def by (rule line_of_nul) (auto simp: eol_def MaxLineResponse_def)
  have script: "crossing ?f 0 = None" "crossing ?f (length data) \<noteq> None" using assms(7,8) by (simp_all add: cross)
  have reply: "crossing ?f m = Some x \<Longrightarrow> x = size_limit_reply" for m x by (simp add: cross split: if_splits)
  from fake_ScanBytes_cut [OF assms(1-6) script _ line] reply obtain out w' where
    run: "ScanBytes env ctx c data w = Some (out, w')" "recovered ?s out" by blast
  have "ParseScanResponse ?s = zero_response\<lparr>Outcome := OutcomeError, Message := ''INSTREAM size limit exceeded.'', SizeLimit := True\<rparr>"
    by code_simp
  with run(2) have "out = (zero_result, Some (Errorf ''%w: %w (clamd StreamMaxLength)'' []
      [ErrSizeLimitExceeded, ClamdError ''INSTREAM size limit exceeded.'']))"
    by (simp add: recovered_def clamdErrorFrom_def)
  with run(1) show ?thesis by (auto simp: errors_Is_simps errors_Is_leaf IsRetryable_def)
qed

theorem server_limit_recovered_witness:
  "\<exists>e w'. ScanBytes calm background (client_of True (SetStreamLimit 3 new_fake)) demo_data fresh_world =
      Some ((zero_result, Some e), w') \<and> errors_Is e ErrSizeLimitExceeded"
  using server_limit_recovered [of background calm "client_of True (SetStreamLimit 3 new_fake)" fresh_world whole 3 demo_data]
  by (auto simp: slot_free_def demo_data_def)

text \<open>
  C33: what a command returns is what the server said, all of it. A nil error of \<open>Ping\<close> and \<open>Reload\<close>
  means that the reply, which ends at its NUL or at the end of the connection, was exactly the expected
  line; the text of \<open>Version\<close> is the whole reply without line breaks at its end, and that of \<open>Stats\<close>
  the whole reply, not empty and not an \<open>ERROR\<close>; with an error there is no text.
\<close>

theorem commands_genuine:
  "(Ping env ctx c w = Some (None, w') \<longrightarrow> line_received w' ''PONG'') \<and>
   (Reload env ctx c w = Some (None, w') \<longrightarrow> line_received w' ''RELOADING'') \<and>
   (Version env ctx c w = Some ((v, err), w') \<longrightarrow>
      (err = None \<longrightarrow> v \<noteq> [] \<and> Outcome (ParseScanResponse v) \<noteq> OutcomeError \<and> line_received w' v) \<and> (err \<noteq> None \<longrightarrow> v = [])) \<and>
   (Stats env ctx c w = Some ((v, err), w') \<longrightarrow>
      (err = None \<longrightarrow> v \<noteq> [] \<and> Outcome (ParseScanResponse v) \<noteq> OutcomeError \<and> reply_received w' v) \<and> (err \<noteq> None \<longrightarrow> v = []))"
  using fixed_reply_genuine [of env ctx c "''PING''" "''PONG''" w w']
    fixed_reply_genuine [of env ctx c "''RELOAD''" "''RELOADING''" w w'] Version_genuine [of env ctx c w v err w']
    Stats_genuine [of env ctx c w v err w']
  by (simp add: Ping_def Reload_def)

theorem commands_genuine_witness:
  "\<exists>w'. Ping calm background (client_of False new_fake) fresh_world = Some (None, w') \<and> line_received w' ''PONG''"
proof -
  have "handleConn new_fake (EncodeCommand ''PING'') = respond new_fake \<lparr>Command = ''PING'', Body = []\<rparr>"
    by (rule handleConn_command) (simp_all add: graphic_def)
  then have h: "handleConn new_fake (EncodeCommand ''PING'') = Closed (nul_terminated ''PONG'')"
    by (simp add: new_fake_def DefaultHandler_def data_response_def)
  have line: "line_of MaxLineResponse [] (nul_terminated ''PONG'') = (''PONG'', True, None)"
    by (rule line_of_nul) (auto simp: eol_def MaxLineResponse_def)
  have "\<exists>w'. command calm background (client_of False new_fake) ''PING'' False fresh_world = Some (Inr ''PONG'', w')"
    by (rule fake_command [OF _ _ h]) (use line in auto)
  then obtain w' where run: "Ping calm background (client_of False new_fake) fresh_world = Some (None, w')"
    by (auto simp: Ping_def fixed_reply_def expectReply_def)
  with commands_genuine [of calm background "client_of False new_fake" fresh_world w' "[]" None] show ?thesis by blast
qed

text \<open>
  C24: a peer cannot make a call hold more than a bounded amount. Whatever it sends and however the call
  ends, a scan of any kind has received at most the limit of a line, one byte and a buffer on its
  connection, and a command at most its own limit (that of a block for \<open>STATS\<close>), one byte and a
  buffer; what is returned is within the limit.
\<close>

theorem reply_memory_bounded:
  "((Scan env ctx c r w = Some ((res, err), w') \<or> ScanBytes env ctx c data w = Some ((res, err), w') \<or>
       ScanFile env ctx c unix fs path w = Some ((res, err), w')) \<and> opened w' \<noteq> opened w \<longrightarrow>
      int (length (wire_in w')) \<le> MaxLineResponse + 1 + int bufio_size \<and> int (length (Raw res)) \<le> MaxLineResponse) \<and>
   (command env ctx c name block w = Some (reply, w') \<and> opened w' \<noteq> opened w \<longrightarrow>
      int (length (wire_in w')) \<le> (if block then MaxBlockResponse else MaxLineResponse) + 1 + int bufio_size \<and>
      (\<forall>text. reply = Inr text \<longrightarrow> int (length text) \<le> (if block then MaxBlockResponse else MaxLineResponse)))"
  using Scan_received [of env ctx c r w res err w'] ScanBytes_received [of env ctx c data w res err w']
    ScanFile_received [of env ctx c unix fs path w res err w'] command_received [of env ctx c name block w reply w']
  unfolding received_limit_def reply_limit_def by blast

theorem reply_memory_bounded_witness:
  "\<exists>w'. Scan calm background (client_of False new_fake) (Some (bytes_reader 0 demo_data)) fresh_world =
      Some ((\<lparr>Verdict = VerdictClean, ResultSignature = [], Raw = ''stream: OK''\<rparr>, None), w') \<and>
    int (length (wire_in w')) \<le> 8193"
proof -
  from demo_clean_sent obtain w' where run: "Scan calm background (client_of False new_fake) (Some (bytes_reader 0 demo_data)) fresh_world =
      Some ((\<lparr>Verdict = VerdictClean, ResultSignature = [], Raw = ''stream: OK''\<rparr>, None), w')"
    "opened w' \<noteq> opened fresh_world" by blast
  from conjunct1 [OF reply_memory_bounded] run have "int (length (wire_in w')) \<le> MaxLineResponse + 1 + int bufio_size" by blast
  with run(1) show ?thesis by (auto simp: MaxLineResponse_def bufio_size_def)
qed

section \<open>Files\<close>

text \<open>
  C30: only regular files within the limit are streamed. If \<open>ScanFile\<close> made a connection, then a
  descriptor was opened whose own \<open>fstat\<close>, not the earlier one of the path, says that none of the
  type bits is set (directory, symlink, pipe, socket, device, irregular) and that its size is
  within the limit.
\<close>

theorem only_regular_files_streamed:
  assumes "ScanFile env ctx c unix fs path w = Some (out, w')" "opened w' \<noteq> opened w"
  shows "\<exists>f fi v v'. openScanTarget unix fs path v = Opened f \<and> f_stat f v' = Inr fi \<and>
    (\<forall>i \<in> {19, 21, 24, 25, 26, 27, 31}. \<not> bit (Mode fi) i) \<and>
    (maxStreamSize (cfg c) = NoSizeLimit \<or> Size fi \<le> maxStreamSize (cfg c))"
  using ScanFile_connects [OF assms] unfolding accepted_target_def IsRegular_iff by blast

theorem only_regular_files_streamed_witness:
  "\<exists>f fi v v'. openScanTarget True demo_fs ''/srv/x'' v = Opened f \<and> f_stat f v' = Inr fi \<and> \<not> bit (Mode fi) 25"
proof -
  from demo_file_scan obtain out w' where
    run: "ScanFile calm background (client_of False new_fake) True demo_fs ''/srv/x'' fresh_world = Some (out, w')"
      "opened w' \<noteq> opened fresh_world" by blast
  from only_regular_files_streamed [OF run] show ?thesis by fastforce
qed

text \<open>
  C31: on unix a file scan returns, whatever the path is, a FIFO put there included: the non-blocking
  open cannot stall the call. As for \<open>Scan\<close> it takes a size limit, or files that deliver only so many
  bytes, and a context that ends if the scan may have to queue. \<open>nonblocking_open\<close> is what
  \<open>open(2)\<close> promises for \<open>O_NONBLOCK\<close>.
\<close>

theorem file_scan_returns:
  assumes "New net_dial addr opts = Inr c" "nonblocking_open fs"
    and "\<forall>v f. openScanTarget True fs path v = Opened f \<longrightarrow> scan_ends c (f_read f)"
    and "sem c = None \<or> ctx_done_at ctx \<noteq> None"
  shows "\<exists>out w'. ScanFile env ctx c True fs path w = Some (out, w')"
  using ScanFile_returns [OF New_client_ok [OF assms(1)] assms(2-4), of env w] by auto

theorem file_scan_returns_witness:
  "(\<exists>out w'. ScanFile calm background (client_of True new_fake) True demo_fs ''/srv/x'' fresh_world = Some (out, w')) \<and>
   (\<exists>out w'. ScanFile calm background (unlimited_client True new_fake) True demo_fs ''/srv/x'' fresh_world = Some (out, w'))"
proof -
  have lim: "scan_ends (client_of True new_fake) src" for src
    by (rule scan_ends_limit) (simp_all add: NoSizeLimit_def MaxChunkSize_def)
  have ends: "scan_ends c (f_read f)" if "openScanTarget True demo_fs ''/srv/x'' v = Opened f" for c v f
    using that by (auto simp: openScanTarget_def openScanTarget_unix_def demo_fs_def scan_ends_bytes split: if_splits)
  have sem: "sem (unlimited_client True new_fake) = None" "sem (client_of True new_fake) = None"
    by (simp_all add: unlimited_client_def client_of_def)
  show ?thesis
    using file_scan_returns [OF New_client_of nonblocking_demo, where path = "''/srv/x''"] lim
      file_scan_returns [OF New_unlimited nonblocking_demo, where path = "''/srv/x''"] ends sem by blast
qed

text \<open>
  C32: oversized input is refused before anything is spent on it. A payload or a regular file larger
  than the limit fails with \<open>ErrSizeLimitExceeded\<close> with no connection, slot or descriptor taken,
  whatever a scan of it would have done.
\<close>

theorem oversized_refused_early:
  assumes "maxStreamSize (cfg c) \<noteq> NoSizeLimit"
  shows "(maxStreamSize (cfg c) < int (length data) \<longrightarrow>
      (\<exists>e. ScanBytes env ctx c data w = Some ((zero_result, Some e), w) \<and> errors_Is e ErrSizeLimitExceeded)) \<and>
    (os_stat fs (tick env ctx w) path = Inr fi \<and> IsRegular (Mode fi) \<and> maxStreamSize (cfg c) < Size fi \<longrightarrow>
      (\<exists>e. ScanFile env ctx c unix fs path w = Some ((zero_result, Some e), tick env ctx w) \<and>
         errors_Is e ErrSizeLimitExceeded))"
  using assms by (auto simp: ScanBytes_def ScanFile_def checkScanTarget_def errors_Is_simps errors_Is_leaf Let_def)

theorem oversized_refused_early_witness:
  "\<exists>e. ScanBytes calm background ((client_of False new_fake)\<lparr>cfg := (cfg (client_of False new_fake))\<lparr>maxStreamSize := 3\<rparr>\<rparr>)
      demo_data fresh_world = Some ((zero_result, Some e), fresh_world) \<and> errors_Is e ErrSizeLimitExceeded"
  using oversized_refused_early [of "(client_of False new_fake)\<lparr>cfg := (cfg (client_of False new_fake))\<lparr>maxStreamSize := 3\<rparr>\<rparr>"
      demo_data calm background fresh_world demo_fs "''/srv/x''" demo_info True]
  by (simp add: NoSizeLimit_def demo_data_def)

section \<open>Programs on top of the client\<close>

text \<open>
  C38: the upload gate only lets clean uploads pass. \<open>Accept\<close> returns nil exactly when the scan
  ended with a nil error and a clean verdict; every error it returns says \<open>ErrRejected\<close>, and one
  that does not come from a failed scan comes from a detection.
\<close>

theorem upload_gate:
  assumes "Accept \<lparr>Scanner = \<lambda>ctx r w. Scan env ctx c r w\<rparr> ctx upload w = Some (err, w')"
  shows "(err = None \<longleftrightarrow> (\<exists>res. Scan env ctx c upload w = Some ((res, None), w') \<and> Verdict res = VerdictClean)) \<and>
    (\<forall>e. err = Some e \<longrightarrow> errors_Is e ErrRejected \<and>
      (\<exists>res serr. Scan env ctx c upload w = Some ((res, serr), w') \<and> (serr = None \<longrightarrow> Verdict res = VerdictInfected)))"
proof (cases err)
  case None
  with client_scanner.Accept_clean [of env c ctx upload w w'] assms show ?thesis by simp
next
  case (Some e)
  with client_scanner.Accept_rejects [of env c ctx upload w e w'] assms show ?thesis by fastforce
qed

theorem upload_gate_witness:
  "\<exists>w'. Accept \<lparr>Scanner = \<lambda>ctx r w. Scan calm ctx (client_of False new_fake) r w\<rparr> background
    (Some (bytes_reader 0 demo_data)) fresh_world = Some (None, w')"
proof -
  let ?S = "\<lambda>ctx r w. Scan calm ctx (client_of False new_fake) r w" and ?u = "Some (bytes_reader 0 demo_data)"
  from demo_clean obtain w' where run: "?S background ?u fresh_world =
      Some ((\<lparr>Verdict = VerdictClean, ResultSignature = [], Raw = ''stream: OK''\<rparr>, None), w')" by blast
  then obtain err where acc: "Accept \<lparr>Scanner = ?S\<rparr> background ?u fresh_world = Some (err, w')" by (simp add: Accept_def)
  from upload_gate [OF acc] run have "err = None" by simp
  with acc show ?thesis by blast
qed

text \<open>
  C35: the example server accepts only what was found clean. Whatever the arguments, a server that
  \<open>httpupload\<close> started has a client with both limits behind it; an upload is answered with 200
  exactly when its file was scanned under the two-minute context with a nil error and a clean
  verdict, and any other 200 is a readiness probe that clamd answered.
\<close>

theorem served_uploads_clean:
  assumes "started (httpupload mux_answer ListenAndServe env net_dial args) = Some server"
    and "Handler server req w = Some ((resp, log), w')" "mux_refuses mux_answer"
  shows "\<exists>fl rest c. flag_Parse httpupload_flags httpupload_defaults args = Inr (fl, rest) \<and>
    httpupload_scanner net_dial (uf_addr fl) = Inr c \<and> sem c = Some 4 \<and> maxStreamSize (cfg c) = maxUploadBytes \<and>
    (req_method req = ''POST'' \<and> req_path req = ''/upload'' \<longrightarrow> (status resp = 200 \<longleftrightarrow> scanned_clean env c req w w')) \<and>
    (status resp = 200 \<and> \<not> (req_method req = ''POST'' \<and> req_path req = ''/upload'') \<longrightarrow>
      req_path req = ''/healthz'' \<and> (\<exists>ctx w1. Ping env ctx c w1 = Some (None, w')))"
proof -
  from assms(1) obtain fl rest c where
    fl: "flag_Parse httpupload_flags httpupload_defaults args = Inr (fl, rest)"
    and c: "httpupload_scanner net_dial (uf_addr fl) = Inr c" "server = upload_server mux_answer env c (uf_listen fl)"
    by (rule httpupload_started)
  from assms(2) c(2) have run: "mux mux_answer env c req w = Some ((resp, log), w')" by (simp add: upload_server_def)
  have "status resp = 200 \<longleftrightarrow> scanned_clean env c req w w'" if "req_method req = ''POST''" "req_path req = ''/upload''"
    using uploadHandler_accepts [of env c req w resp log w'] run that by (simp add: mux_def)
  moreover have "req_path req = ''/healthz'' \<and> (\<exists>ctx w1. Ping env ctx c w1 = Some (None, w'))"
    if "status resp = 200" "\<not> (req_method req = ''POST'' \<and> req_path req = ''/upload'')"
    using mux_ready [OF run assms(3)] that by blast
  ultimately show ?thesis using fl c(1) httpupload_scanner_limits [OF c(1)] by blast
qed

theorem served_uploads_clean_witness:
  "\<exists>server resp log w'. started (httpupload (\<lambda>_. http_error ''Not Found'' 404) (\<lambda>_. None) calm
      (fake_dial False whole new_fake) []) = Some server \<and>
    Handler server demo_upload fresh_world = Some ((resp, log), w') \<and> status resp = 200 \<and>
    (\<exists>c. scanned_clean calm c demo_upload fresh_world w')"
proof -
  let ?mux = "\<lambda>_ :: http_request. http_error ''Not Found'' 404"
  obtain c where c: "httpupload_scanner (fake_dial False whole new_fake) ''unix:///run/clamav/clamd.sock'' = Inr c"
    "sem c = Some 4" "maxStreamSize (cfg c) = maxUploadBytes" "dialFunc (cfg c) = Some (fake_dial False whole new_fake)"
    by (rule demo_service)
  have st: "started (httpupload ?mux (\<lambda>_. None) calm (fake_dial False whole new_fake) []) =
      Some (upload_server ?mux calm c ''127.0.0.1:8080'')"
    using c(1) by (simp add: httpupload_def httpupload_defaults_def Let_def)
  from demo_accepted [OF c(2-4)] obtain resp log w' where
    up: "uploadHandler calm c demo_upload fresh_world = Some ((resp, log), w')" "status resp = 200" by blast
  then have h: "Handler (upload_server ?mux calm c ''127.0.0.1:8080'') demo_upload fresh_world = Some ((resp, log), w')"
    by (simp add: upload_server_def mux_def demo_upload_def)
  have "mux_refuses ?mux" by (simp add: mux_refuses_def http_error_def)
  from served_uploads_clean [OF st h this] up(2) have "\<exists>c. scanned_clean calm c demo_upload fresh_world w'"
    by (auto simp: demo_upload_def)
  with st h up(2) show ?thesis by blast
qed

text \<open>
  C39: what an upload is answered. A form without a file is answered below 500 and never with 200. A
  file is scanned under the two-minute context, and the status says how that ended: 200 for a clean
  verdict, 400 for a detection, 413 for the size limit, 503 for every other failure, with a
  \<open>Retry-After\<close> when retrying makes sense; the handler's last branch, an indeterminate verdict, is
  never taken. The uploader only ever sees one of seven fixed texts; a detection is logged with
  its signature.
\<close>

theorem upload_status:
  assumes "uploadHandler env c req w = Some ((resp, log), w')"
  shows "http_body resp \<in> set upload_bodies \<and> (case req_form req body_cap of
      Inl e \<Rightarrow> status resp \<in> {400, 408, 413}
    | Inr (src, header) \<Rightarrow> \<exists>ctx w1 res err. WithTimeout env (req_ctx req) (2 * minute) w = (ctx, w1) \<and>
        Scan env ctx c (Some src) w1 = Some ((res, err), w') \<and>
        status resp = (case err of None \<Rightarrow> if Verdict res = VerdictClean then 200 else 400
          | Some e \<Rightarrow> if errors_Is e ErrSizeLimitExceeded then 413 else 503) \<and>
        (err = None \<longrightarrow> Verdict res \<noteq> VerdictUnknown) \<and>
        (retry_after resp \<noteq> None \<longleftrightarrow> status resp = 503 \<and> IsRetryable err) \<and>
        (err = None \<and> Verdict res = VerdictInfected \<longrightarrow> log = [LogRecord LevelWarn ''malware detected''
          [(''file'', LogString (Filename header)), (''signature'', LogString (ResultSignature res))]]))"
  using assms
proof (cases rule: uploadHandler_cases)
  case (refused e)
  then show ?thesis using form_error_statuses [of e] form_error_body [of e] by simp
next
  case (scanned src header ctx w1 res err)
  have "err = None \<and> Verdict res = VerdictInfected \<longrightarrow> log = [LogRecord LevelWarn ''malware detected''
      [(''file'', LogString (Filename header)), (''signature'', LogString (ResultSignature res))]]"
    using upload_reply_audit [of header res resp log] scanned(4) by blast
  with scanned upload_reply_body [OF scanned(4)] upload_reply_spec [OF fail_closed_Scan [OF scanned(3)] scanned(4)]
  show ?thesis by auto
qed

theorem upload_status_witness:
  "\<exists>resp log w'. uploadHandler calm (client_of False new_fake)
      (demo_upload\<lparr>req_form := \<lambda>_. Inl HttpMaxBytesError\<rparr>) fresh_world = Some ((resp, log), w') \<and>
    status resp \<in> {400, 408, 413}"
proof -
  let ?req = "demo_upload\<lparr>req_form := \<lambda>_. Inl HttpMaxBytesError\<rparr>"
  obtain ctx w1 where "WithTimeout calm (req_ctx ?req) (2 * minute) fresh_world = (ctx, w1)" by (metis prod.collapse)
  then have run: "uploadHandler calm (client_of False new_fake) ?req fresh_world =
      Some ((form_error HttpMaxBytesError, []), w1)" by (simp add: uploadHandler_def)
  from conjunct2 [OF upload_status [OF run]] have "status (form_error HttpMaxBytesError) \<in> {400, 408, 413}"
    by simp
  with run show ?thesis by blast
qed

text \<open>
  C40: the command's exit code and its output tell the whole story. The code is 0 exactly when help
  was asked for or there were files and the output says, for each in order, that it is clean; and a
  file that a line calls clean was scanned by \<open>ScanFile\<close> with a nil error and a clean verdict, by a
  client and under a timeout that are those of the flags.
\<close>

theorem exit_code_faithful:
  assumes "basicscan env net_dial unix fs pr args w = Some (run, w')"
  shows "case flag_Parse basicscan_flags basicscan_defaults args of
      Inl e \<Rightarrow> stdout run = [] \<and> (exit_code run = 0 \<longleftrightarrow> e = HelpWanted)
    | Inr (fl, paths) \<Rightarrow> exit_code run \<in> {0, 1, 2} \<and>
        (exit_code run = 0 \<longleftrightarrow> paths \<noteq> [] \<and> stdout run = map clean_line paths) \<and>
        (\<forall>i < length (stdout run). length (stdout run) = length paths \<and>
          (stdout run ! i = clean_line (paths ! i) \<longrightarrow>
            (\<exists>c u ctx v res v'. New net_dial (sf_addr fl) [Some (WithMaxStreamSize (sf_max_size fl))] = Inr c \<and>
              WithTimeout env background (sf_timeout fl) u = (ctx, v) \<and>
              ScanFile env ctx c unix fs (paths ! i) v = Some ((res, None), v') \<and> Verdict res = VerdictClean)))"
proof (cases "flag_Parse basicscan_flags basicscan_defaults args")
  case (Inl e)
  with assms show ?thesis by (auto simp: basicscan_def flag_exit_def split: if_splits)
next
  case (Inr x)
  obtain fl paths where x: "x = (fl, paths)" by fastforce
  from basicscan_cases [OF assms Inr [unfolded x]] show ?thesis
  proof cases
    case 1
    with Inr x show ?thesis by auto
  next
    case (2 c reps)
    have "exit_code run \<in> {0, 1, 2}" using scan_args_reports [OF 2(3)] foldl_max_range by simp
    moreover have "exit_code run = 0 \<longleftrightarrow> paths \<noteq> [] \<and> stdout run = map clean_line paths"
      using scan_args_exit_zero [OF 2(3), of pr] 2(1,4) by simp
    moreover have "length reps = length paths"
      using arg_cong [OF conjunct1 [OF scan_args_reports [OF 2(3)]], of length] by simp
    moreover have "\<exists>c u ctx v res v'. New net_dial (sf_addr fl) [Some (WithMaxStreamSize (sf_max_size fl))] = Inr c \<and>
        WithTimeout env background (sf_timeout fl) u = (ctx, v) \<and>
        ScanFile env ctx c unix fs (paths ! i) v = Some ((res, None), v') \<and> Verdict res = VerdictClean"
      if "i < length paths" "stdout run ! i = clean_line (paths ! i)" for i
    proof -
      have "report_text pr (reps ! i) = clean_line (paths ! i)" using that 2(4) \<open>length reps = length paths\<close> by simp
      from scan_args_clean_line [OF 2(3) that(1) this] 2(2) show ?thesis unfolding Clean_def by blast
    qed
    ultimately show ?thesis using Inr x 2(4) by (simp del: insert_iff)
  qed
qed

theorem exit_code_faithful_witness:
  "\<exists>run w'. basicscan calm (fake_dial False whole new_fake) True missing_fs (\<lambda>_. True)
      [''/a'', ''/b''] fresh_world = Some (run, w') \<and>
    (exit_code run = 0 \<longleftrightarrow> stdout run = [clean_line ''/a'', clean_line ''/b''])"
proof -
  obtain run w' where run: "basicscan calm (fake_dial False whole new_fake) True missing_fs (\<lambda>_. True)
      [''/a'', ''/b''] fresh_world = Some (run, w')"
    using basicscan_missing by blast
  have args: "flag_Parse basicscan_flags basicscan_defaults [''/a'', ''/b''] = Inr (basicscan_defaults, [''/a'', ''/b''])"
    by (rule flag_Parse_plain) simp
  from exit_code_faithful [OF run] have "exit_code run = 0 \<longleftrightarrow> stdout run = [clean_line ''/a'', clean_line ''/b'']"
    unfolding args sum.case prod.case by (elim conjE) simp
  with run show ?thesis by blast
qed

end
